(* ===== verification/Prelude.thy ===== *)
theory Prelude
  imports Complex_Main "HOL-Library.Multiset" "HOL-Library.Sublist"
begin

text \<open>
  Shared vocabulary of the development: the two rewrite collections that carry the component
  proofs, the generic facts on lists, options and maps that several components use, and the
  helper that keeps the last \<open>n\<close> elements of a list (Go's \<open>h[len(h)-n:]\<close>).
\<close>

named_theorems f64_simps \<open>evaluation rules of the IEEE binary64 model\<close>
named_theorems go_simps \<open>definitions of small Go library functions to unfold\<close>

section \<open>Results\<close>

text \<open>Sequencing of fallible steps: the first error is the result.\<close>

definition and_then :: "'e + 'a \<Rightarrow> ('a \<Rightarrow> 'e + 'b) \<Rightarrow> 'e + 'b" where
  "and_then r f = (case r of Inl e \<Rightarrow> Inl e | Inr x \<Rightarrow> f x)"

lemma and_then_simps [simp]: "and_then (Inr x) f = f x" "and_then (Inl e) f = Inl e"
  by (simp_all add: and_then_def)

lemma and_then_assoc: "and_then (and_then r f) g = and_then r (\<lambda>x. and_then (f x) g)"
  by (cases r) simp_all

lemma and_then_Inr_iff: "and_then r f = Inr y \<longleftrightarrow> (\<exists>x. r = Inr x \<and> f x = Inr y)"
  by (cases r) simp_all

section \<open>The last n elements\<close>

definition take_last :: "nat \<Rightarrow> 'a list \<Rightarrow> 'a list" where
  "take_last n xs = (if length xs > n then drop (length xs - n) xs else xs)"

lemma length_take_last [simp]: "length (take_last n xs) = min (length xs) n"
  by (simp add: take_last_def)

lemma take_last_short [simp]: "length xs \<le> n \<Longrightarrow> take_last n xs = xs"
  by (simp add: take_last_def)

lemma take_last_alt: "take_last n xs = drop (length xs - n) xs"
  by (simp add: take_last_def)

lemma set_take_last: "set (take_last n xs) \<subseteq> set xs"
  by (simp add: take_last_alt set_drop_subset)

lemma take_last_append_take_last:
  "take_last n (take_last n xs @ ys) = take_last n (xs @ ys)"
  by (cases "n \<le> length xs") (auto simp: take_last_alt add.commute)

lemma last_take_last: "xs \<noteq> [] \<Longrightarrow> 0 < n \<Longrightarrow> last (take_last n xs) = last xs"
  by (cases xs) (auto simp: take_last_alt last_drop)

lemma take_last_Nil_iff [simp]: "take_last n xs = [] \<longleftrightarrow> xs = [] \<or> n = 0"
  by (cases xs) (auto simp: take_last_alt)

section \<open>Lists and maps\<close>

lemma last_in_set_snoc: "xs \<noteq> [] \<Longrightarrow> last xs \<in> set xs"
  by simp

lemma map_le_updI: "m k = None \<Longrightarrow> m \<subseteq>\<^sub>m m(k \<mapsto> v)"
  by (auto simp: map_le_def)

lemma filter_eq_length_le: "length (filter P xs) + length (filter (\<lambda>x. \<not> P x) xs) = length xs"
  by (induction xs) auto

lemma distinct_nth_last:
  "distinct xs \<Longrightarrow> i < length xs \<Longrightarrow> xs ! i = last xs \<longleftrightarrow> Suc i = length xs"
  by (cases xs rule: rev_cases) (auto simp: nth_append in_set_conv_nth less_Suc_eq)

lemma append_separator_inject:
  "x \<notin> set a \<Longrightarrow> x \<notin> set b \<Longrightarrow> a @ x # c = b @ x # d \<longleftrightarrow> a = b \<and> c = d"
proof (induction a arbitrary: b)
  case Nil
  then show ?case by (cases b) auto
next
  case (Cons y a)
  then show ?case by (cases b) auto
qed

text \<open>A sorted list is determined by its elements when their keys are strictly ordered in one arrangement.\<close>

lemma sorted_query_unique:
  fixes f :: "'a \<Rightarrow> 'b :: linorder"
  assumes "mset xs = mset ys" "sorted (map f xs)" "sorted_wrt (<) (map f ys)"
  shows "xs = ys"
proof -
  have ys: "sorted (map f ys)" "distinct (map f ys)"
    using assms(3) by (auto simp: strict_sorted_iff)
  have "mset (map f xs) = mset (map f ys)" using assms(1) by simp
  then have xs: "distinct (map f xs)" using ys(2) mset_eq_imp_distinct_iff by blast
  have set: "set xs = set ys" using assms(1) by (rule mset_eq_setD)
  then have "inj_on f (set xs \<union> set ys)" using ys(2) by (simp add: distinct_map)
  then show ?thesis using map_sorted_distinct_set_unique [OF _ assms(2) xs ys set] by simp
qed

lemma sort_key_unique:
  fixes f :: "'a \<Rightarrow> 'b :: linorder"
  assumes "mset xs = mset ys" "distinct (map f xs)"
  shows "sort_key f xs = sort_key f ys"
proof (rule sorted_query_unique [symmetric])
  show "mset (sort_key f ys) = mset (sort_key f xs)" using assms(1) by simp
  show "sorted (map f (sort_key f ys))" by (rule sorted_sort_key)
  have "mset (map f (sort_key f xs)) = mset (map f xs)" by simp
  then have "distinct (map f (sort_key f xs))" using assms(2) mset_eq_imp_distinct_iff by blast
  then show "sorted_wrt (<) (map f (sort_key f xs))" by (simp add: strict_sorted_iff)
qed

section \<open>Tallied state: a counter kept beside a state\<close>

text \<open>A run of operations, each of which reports by how much it changes a counter, and the runs
  whose operations are all legal in the state they meet.\<close>

fun tally_run :: "('op \<Rightarrow> 's \<Rightarrow> 's \<times> int) \<Rightarrow> 'op list \<Rightarrow> 's \<times> int \<Rightarrow> 's \<times> int" where
  "tally_run step [] sn = sn"
| "tally_run step (op # ops) sn =
     (let (s', d) = step op (fst sn) in tally_run step ops (s', snd sn + d))"

fun legal_run :: "('op \<Rightarrow> 's \<Rightarrow> 's \<times> int) \<Rightarrow> ('op \<Rightarrow> 's \<Rightarrow> bool) \<Rightarrow> 'op list \<Rightarrow> 's \<Rightarrow> bool" where
  "legal_run step legal [] s \<longleftrightarrow> True"
| "legal_run step legal (op # ops) s \<longleftrightarrow> legal op s \<and> legal_run step legal ops (fst (step op s))"

text \<open>The contract of a component whose operations report the change of a count: the client may
  keep its own counter and add the reported changes.\<close>

locale tallied =
  fixes ok :: "'s \<Rightarrow> bool" and legal :: "'op \<Rightarrow> 's \<Rightarrow> bool"
    and step :: "'op \<Rightarrow> 's \<Rightarrow> 's \<times> int" and count :: "'s \<Rightarrow> int"
  assumes keeps: "ok s \<Longrightarrow> legal op s \<Longrightarrow> ok (fst (step op s))"
    and reports: "ok s \<Longrightarrow> legal op s \<Longrightarrow> count (fst (step op s)) = count s + snd (step op s)"
begin

lemma run_ok:
  "ok s \<Longrightarrow> legal_run step legal ops s \<Longrightarrow> ok (fst (tally_run step ops (s, n)))"
proof (induction ops arbitrary: s n)
  case (Cons op ops)
  then show ?case using keeps [of s op] by (simp add: split_beta)
qed simp

lemma counter_tracks:
  "ok s \<Longrightarrow> legal_run step legal ops s \<Longrightarrow>
   snd (tally_run step ops (s, n)) - n = count (fst (tally_run step ops (s, n))) - count s"
proof (induction ops arbitrary: s n)
  case (Cons op ops)
  then have "ok (fst (step op s))" "legal_run step legal ops (fst (step op s))"
      "count (fst (step op s)) = count s + snd (step op s)"
    using keeps [of s op] reports [of s op] by auto
  with Cons.IH [of "fst (step op s)" "n + snd (step op s)"] show ?case by (simp add: split_beta)
qed simp

end

end
