(* ===== verification/Float64.thy ===== *)
theory Float64
  imports Prelude "HOL-Library.Log_Nat"
begin

text \<open>
  Go's \<open>float64\<close>: IEEE 754 binary64 with rounding to nearest, ties to even. A finite value
  is the rational it denotes; \<open>roundq\<close> is the rounding of an exact rational result to 53
  significant bits with the subnormal grid 2^-1074, and every arithmetic operation is the exact
  operation followed by that rounding, as the standard requires. The two zeros are one value
  here: no code of the program divides by a value that can be zero or prints a zero's sign.
  Products and sums are rounded separately (no fused multiply-add, as on amd64).
\<close>

section \<open>Rounding a rational to binary64\<close>

definition round_half_even :: "rat \<Rightarrow> int" where
  "round_half_even x =
     (let f = \<lfloor>x\<rfloor>; d = x - of_int f in
      if d < 1 / 2 then f
      else if d > 1 / 2 then f + 1
      else if even f then f else f + 1)"

text \<open>The binary exponent of a positive rational: \<open>2 powi ilog2 x \<le> x < 2 powi (ilog2 x + 1)\<close>.\<close>

definition ilog2 :: "rat \<Rightarrow> int" where
  "ilog2 x =
     (let (n, d) = quotient_of x; k = bitlen n - bitlen d in
      if 2 powi k \<le> x then k else k - 1)"

text \<open>The exponent of the spacing of binary64 numbers around x.\<close>

definition qexp :: "rat \<Rightarrow> int" where
  "qexp x = max (ilog2 \<bar>x\<bar> - 52) (- 1074)"

definition roundq :: "rat \<Rightarrow> rat" where
  "roundq x = (if x = 0 then 0 else of_int (round_half_even (x / 2 powi qexp x)) * 2 powi qexp x)"

subsection \<open>Rounding to an integer\<close>

lemma round_half_even_of_int [simp]: "round_half_even (of_int n) = n"
  by (simp add: round_half_even_def)

lemma round_half_even_bounds:
  "of_int (round_half_even x) \<le> x + 1 / 2" "x - 1 / 2 \<le> of_int (round_half_even x)"
  by (auto simp: round_half_even_def Let_def) linarith+

lemma round_half_even_floor:
  "round_half_even x = \<lfloor>x\<rfloor> \<or> round_half_even x = \<lfloor>x\<rfloor> + 1"
  by (simp add: round_half_even_def Let_def)

lemma round_half_even_mono:
  assumes "x \<le> y" shows "round_half_even x \<le> round_half_even y"
proof (cases "\<lfloor>x\<rfloor> = \<lfloor>y\<rfloor>")
  case True
  with assms show ?thesis by (auto simp: round_half_even_def Let_def)
next
  case False
  from assms have "\<lfloor>x\<rfloor> \<le> \<lfloor>y\<rfloor>" by (rule floor_mono)
  with False have "\<lfloor>x\<rfloor> + 1 \<le> \<lfloor>y\<rfloor>" by simp
  then show ?thesis using round_half_even_floor [of x] round_half_even_floor [of y] by auto
qed

lemma round_half_even_ge: "of_int n \<le> x \<Longrightarrow> n \<le> round_half_even x"
  using round_half_even_mono [of "of_int n" x] by simp

lemma round_half_even_le: "x \<le> of_int n \<Longrightarrow> round_half_even x \<le> n"
  using round_half_even_mono [of x "of_int n"] by simp

lemma round_half_even_minus: "round_half_even (- x) = - round_half_even x"
proof (cases "x = of_int \<lfloor>x\<rfloor>")
  case True
  then obtain n :: int where "x = of_int n" by blast
  then show ?thesis by (metis of_int_minus round_half_even_of_int)
next
  case False
  then have "\<lfloor>- x\<rfloor> = - \<lfloor>x\<rfloor> - 1" by linarith
  then show ?thesis by (auto simp: round_half_even_def Let_def)
qed

subsection \<open>The binary exponent\<close>

lemma powi2_pos [simp]: "0 < (2::rat) powi k"
  by simp

lemma bitlen_powi:
  assumes "0 < n"
  shows "2 powi (bitlen n - 1) \<le> (of_int n :: rat)" and "(of_int n :: rat) < 2 powi bitlen n"
proof -
  have "0 < bitlen n"
    using assms bitlen_nonneg [of n] bitlen_eq_zero_iff [of n] by linarith
  moreover have "(of_int (2 ^ nat (bitlen n - 1)) :: rat) \<le> of_int n"
      "(of_int n :: rat) < of_int (2 ^ nat (bitlen n))"
    using bitlen_bounds [OF assms] by (simp_all only: of_int_le_iff of_int_less_iff)
  ultimately show "2 powi (bitlen n - 1) \<le> (of_int n :: rat)" "(of_int n :: rat) < 2 powi bitlen n"
    by (simp_all add: power_int_nonneg_exp)
qed

lemma ilog2_bounds:
  assumes "0 < x"
  shows "2 powi ilog2 x \<le> x" and "x < 2 powi (ilog2 x + 1)"
proof -
  obtain n d where nd: "quotient_of x = (n, d)" by (cases "quotient_of x")
  then have x: "x = of_int n / of_int d" and d: "0 < d"
    by (rule quotient_of_div, rule quotient_of_denom_pos)
  with assms have n: "0 < n" by (simp add: zero_less_divide_iff)
  define k where "k = bitlen n - bitlen d"
  note bn = bitlen_powi [OF n] and bd = bitlen_powi [OF d]
  have lo: "2 powi (k - 1) \<le> x"
  proof -
    have "2 powi (k - 1) * of_int d \<le> 2 powi (k - 1) * (2 powi bitlen d :: rat)"
      using bd by (intro mult_left_mono) auto
    also have "\<dots> = 2 powi (bitlen n - 1)" by (simp add: k_def flip: power_int_add)
    also have "\<dots> \<le> of_int n" by (rule bn)
    finally show ?thesis using d by (simp add: x field_simps)
  qed
  have hi: "x < 2 powi (k + 1)"
  proof -
    have "of_int n < (2 powi bitlen n :: rat)" by (rule bn)
    also have "\<dots> = 2 powi (k + 1) * 2 powi (bitlen d - 1)" by (simp add: k_def flip: power_int_add)
    also have "\<dots> \<le> 2 powi (k + 1) * of_int d" using bd by (intro mult_left_mono) auto
    finally show ?thesis using d by (simp add: x field_simps)
  qed
  have il: "ilog2 x = (if 2 powi k \<le> x then k else k - 1)"
    by (simp add: ilog2_def nd k_def)
  show "2 powi ilog2 x \<le> x" using lo by (simp add: il)
  show "x < 2 powi (ilog2 x + 1)" using hi by (auto simp: il)
qed

lemma powi2_le_iff [simp]: "(2::rat) powi a \<le> 2 powi b \<longleftrightarrow> a \<le> b"
  by (meson not_le one_less_numeral_iff order_less_imp_le power_int_increasing
      power_int_strict_increasing semiring_norm(76) numeral_One one_le_numeral linorder_not_le)

lemma powi2_less_iff [simp]: "(2::rat) powi a < 2 powi b \<longleftrightarrow> a < b"
  by (simp flip: not_le)

lemma ilog2_eqI: "2 powi k \<le> x \<Longrightarrow> x < 2 powi (k + 1) \<Longrightarrow> ilog2 x = k"
proof -
  assume a: "2 powi k \<le> x" "x < 2 powi (k + 1)"
  then have "0 < x" using less_le_trans [OF powi2_pos] by blast
  from ilog2_bounds [OF this] a
  have "(2::rat) powi k < 2 powi (ilog2 x + 1)" "(2::rat) powi ilog2 x < 2 powi (k + 1)"
    by linarith+
  then show ?thesis by simp
qed

lemma ilog2_mono: "0 < x \<Longrightarrow> x \<le> y \<Longrightarrow> ilog2 x \<le> ilog2 y"
proof -
  assume a: "0 < x" "x \<le> y"
  then have "(2::rat) powi ilog2 x < 2 powi (ilog2 y + 1)"
    using ilog2_bounds [of x] ilog2_bounds [of y] by linarith
  then show ?thesis by simp
qed


section \<open>Properties of the rounding\<close>

lemma roundq_0 [simp]: "roundq 0 = 0"
  by (simp add: roundq_def)

lemma qexp_minus [simp]: "qexp (- x) = qexp x"
  by (simp add: qexp_def)

lemma roundq_minus: "roundq (- x) = - roundq x"
  by (simp add: roundq_def round_half_even_minus)

lemma roundq_nonneg: "0 \<le> x \<Longrightarrow> 0 \<le> roundq x"
  by (auto simp: roundq_def intro!: mult_nonneg_nonneg round_half_even_ge)

lemma qexp_pos_le:
  assumes "0 < x" shows "x < 2 powi (qexp x + 53)"
proof -
  have "x < 2 powi (ilog2 x + 1)" using ilog2_bounds(2) [OF assms] .
  also have "\<dots> \<le> 2 powi (qexp x + 53)" using assms by (simp add: qexp_def)
  finally show ?thesis .
qed

lemma qexp_pos_ge:
  assumes "0 < x" "- 1074 < qexp x" shows "2 powi (qexp x + 52) \<le> x"
proof -
  have "qexp x = ilog2 x - 52" using assms by (simp add: qexp_def max_def split: if_splits)
  then show ?thesis using ilog2_bounds(1) [OF assms(1)] by simp
qed

lemma qexp_mono: "0 < x \<Longrightarrow> x \<le> y \<Longrightarrow> qexp x \<le> qexp y"
  using ilog2_mono [of x y] by (auto simp: qexp_def)

lemma roundq_le_powi:
  assumes "0 < x" shows "roundq x \<le> 2 powi (qexp x + 53)"
proof -
  have "x / 2 powi qexp x \<le> of_int (2 ^ 53)"
    using qexp_pos_le [OF assms] by (simp add: field_simps power_int_add)
  then have "round_half_even (x / 2 powi qexp x) \<le> 2 ^ 53" by (rule round_half_even_le)
  then have "(of_int (round_half_even (x / 2 powi qexp x)) :: rat) \<le> of_int (2 ^ 53)"
    by (simp only: of_int_le_iff)
  then show ?thesis using assms by (simp add: roundq_def power_int_add)
qed

lemma roundq_ge_powi:
  assumes "0 < x" "- 1074 < qexp x" shows "2 powi (qexp x + 52) \<le> roundq x"
proof -
  have "of_int (2 ^ 52) \<le> x / 2 powi qexp x"
    using qexp_pos_ge [OF assms] by (simp add: field_simps power_int_add)
  then have "2 ^ 52 \<le> round_half_even (x / 2 powi qexp x)" by (rule round_half_even_ge)
  then have "of_int (2 ^ 52) \<le> (of_int (round_half_even (x / 2 powi qexp x)) :: rat)"
    by (simp only: of_int_le_iff)
  then show ?thesis using assms by (simp add: roundq_def power_int_add)
qed

lemma roundq_mono_pos:
  assumes "0 < x" "x \<le> y" shows "roundq x \<le> roundq y"
proof (cases "qexp x = qexp y")
  case True
  have "x / 2 powi qexp y \<le> y / 2 powi qexp y" using assms by (intro divide_right_mono) auto
  then have "(of_int (round_half_even (x / 2 powi qexp y)) :: rat)
      \<le> of_int (round_half_even (y / 2 powi qexp y))"
    by (simp only: of_int_le_iff round_half_even_mono)
  then show ?thesis using assms True by (simp add: roundq_def)
next
  case False
  with qexp_mono [OF assms] have lt: "qexp x < qexp y" by simp
  have "roundq x \<le> 2 powi (qexp x + 53)" using assms by (intro roundq_le_powi)
  also have "\<dots> \<le> 2 powi (qexp y + 52)" using lt by simp
  also have "\<dots> \<le> roundq y"
    using assms lt by (intro roundq_ge_powi) (auto simp: qexp_def)
  finally show ?thesis .
qed

lemma roundq_mono:
  assumes "x \<le> y" shows "roundq x \<le> roundq y"
proof (cases "0 < x")
  case True
  then show ?thesis using assms by (rule roundq_mono_pos)
next
  case False
  show ?thesis
  proof (cases "0 \<le> y")
    case True
    have "roundq x \<le> 0" using False roundq_nonneg [of "- x"] by (simp add: roundq_minus)
    also have "0 \<le> roundq y" using True by (rule roundq_nonneg)
    finally show ?thesis .
  next
    case yneg: False
    then have "roundq (- y) \<le> roundq (- x)" using assms by (intro roundq_mono_pos) auto
    then show ?thesis by (simp add: roundq_minus)
  qed
qed

text \<open>Numbers of at most 53 significant bits on the grid are left alone.\<close>

lemma roundq_exact_pos:
  assumes "0 < m" "m \<le> 2 ^ 53" "- 1074 \<le> e"
  shows "roundq (of_int m * 2 powi e) = of_int m * 2 powi e" (is "roundq ?x = ?x")
proof -
  have x: "0 < ?x" using assms by simp
  have "\<exists>k :: int. ?x / 2 powi qexp ?x = of_int k"
  proof (cases "qexp ?x \<le> e")
    case True
    then have "?x / 2 powi qexp ?x = of_int (m * 2 ^ nat (e - qexp ?x))"
      by (simp add: power_int_diff flip: power_int_nonneg_exp)
    then show ?thesis by blast
  next
    case False
    then have ge: "2 powi (qexp ?x + 52) \<le> ?x" using assms x by (intro qexp_pos_ge) auto
    have "?x \<le> 2 powi (e + 53)"
    proof -
      have "(of_int m :: rat) \<le> of_int (2 ^ 53)" using assms(2) by (simp only: of_int_le_iff)
      then show ?thesis by (simp add: power_int_add)
    qed
    with ge have "(2::rat) powi (qexp ?x + 52) \<le> 2 powi (e + 53)" by linarith
    with False have E: "qexp ?x = e + 1" by simp
    then have "2 powi (e + 53) \<le> ?x" using ge by (simp add: add.commute)
    with \<open>?x \<le> 2 powi (e + 53)\<close> have "?x = 2 powi (e + 53)" by simp
    have "?x / 2 powi qexp ?x = ?x / 2 powi (e + 1)" by (simp only: E)
    also have "\<dots> = 2 powi (e + 53) / 2 powi (e + 1)" by (simp only: \<open>?x = 2 powi (e + 53)\<close>)
    also have "\<dots> = of_int (2 ^ 52)" by (simp flip: power_int_diff)
    finally show ?thesis by blast
  qed
  then obtain k :: int where k: "?x / 2 powi qexp ?x = of_int k" ..
  have "roundq ?x = of_int (round_half_even (?x / 2 powi qexp ?x)) * 2 powi qexp ?x"
    using x assms(1) by (simp add: roundq_def)
  also have "\<dots> = ?x / 2 powi qexp ?x * 2 powi qexp ?x" by (simp only: k round_half_even_of_int)
  finally show ?thesis by simp
qed

lemma roundq_exact:
  assumes "\<bar>m\<bar> \<le> 2 ^ 53" "- 1074 \<le> e"
  shows "roundq (of_int m * 2 powi e) = of_int m * 2 powi e"
proof (cases m "0::int" rule: linorder_cases)
  case less
  then have "roundq (of_int (- m) * 2 powi e) = of_int (- m) * 2 powi e"
    using assms by (intro roundq_exact_pos) auto
  then show ?thesis using roundq_minus [of "of_int m * 2 powi e"] by simp
qed (use assms roundq_exact_pos [of m e] in auto)

lemma roundq_of_int: "\<bar>n\<bar> \<le> 2 ^ 53 \<Longrightarrow> roundq (of_int n) = of_int n"
  using roundq_exact [of n 0] by simp

lemma roundq_idem [simp]: "roundq (roundq x) = roundq x"
proof (cases "x = 0")
  case False
  define m where "m = round_half_even (\<bar>x\<bar> / 2 powi qexp x)"
  have e: "- 1074 \<le> qexp x" by (simp add: qexp_def)
  have "roundq \<bar>x\<bar> = of_int m * 2 powi qexp x" using False by (simp add: roundq_def m_def qexp_def)
  moreover have "0 \<le> m" unfolding m_def by (rule round_half_even_ge) simp
  moreover have "m \<le> 2 ^ 53"
    unfolding m_def using qexp_pos_le [of "\<bar>x\<bar>"] False
    by (intro round_half_even_le) (simp add: field_simps power_int_add qexp_def)
  ultimately have "roundq (roundq \<bar>x\<bar>) = roundq \<bar>x\<bar>" using roundq_exact [of m "qexp x"] e by simp
  then show ?thesis by (cases "0 \<le> x") (auto simp: abs_if roundq_minus)
qed simp

text \<open>Correct rounding: no binary64 number on the grid is closer to the exact value.\<close>

lemma roundq_between:
  assumes "roundq z = z"
  shows "z \<le> x \<Longrightarrow> z \<le> roundq x" and "x \<le> z \<Longrightarrow> roundq x \<le> z"
  using roundq_mono [of z x] roundq_mono [of x z] assms by auto


section \<open>The type and its operations\<close>

datatype f64 = Fin rat | PInf | NInf | NaN

text \<open>Results whose magnitude reaches this bound overflow to an infinity.\<close>

definition f64_limit :: rat where
  "f64_limit = 2 ^ 1024"

text \<open>The rounded value of an exact result; overflow goes to an infinity.\<close>

definition rnd :: "rat \<Rightarrow> f64" where
  "rnd x =
     (let r = roundq x in
      if f64_limit \<le> r then PInf else if r \<le> - f64_limit then NInf else Fin r)"

text \<open>A decimal constant of the source, converted as the compiler does.\<close>

definition flit :: "rat \<Rightarrow> f64" where
  "flit x = rnd x"

fun valid64 :: "f64 \<Rightarrow> bool" where
  "valid64 (Fin q) \<longleftrightarrow> roundq q = q \<and> \<bar>q\<bar> < f64_limit"
| "valid64 _ \<longleftrightarrow> True"

fun finite64 :: "f64 \<Rightarrow> bool" where
  "finite64 (Fin q) \<longleftrightarrow> roundq q = q \<and> \<bar>q\<bar> < f64_limit"
| "finite64 _ \<longleftrightarrow> False"

fun neg64 :: "f64 \<Rightarrow> f64" where
  "neg64 (Fin a) = Fin (- a)"
| "neg64 PInf = NInf"
| "neg64 NInf = PInf"
| "neg64 NaN = NaN"

fun add64 :: "f64 \<Rightarrow> f64 \<Rightarrow> f64" where
  "add64 (Fin a) (Fin b) = rnd (a + b)"
| "add64 NaN _ = NaN"
| "add64 _ NaN = NaN"
| "add64 PInf NInf = NaN"
| "add64 NInf PInf = NaN"
| "add64 PInf _ = PInf"
| "add64 _ PInf = PInf"
| "add64 NInf _ = NInf"
| "add64 _ NInf = NInf"

text \<open>The infinity with the sign of a nonzero rational, and zero times infinity.\<close>

definition inf_sgn :: "rat \<Rightarrow> f64" where
  "inf_sgn a = (if 0 < a then PInf else if a < 0 then NInf else NaN)"

fun mul64 :: "f64 \<Rightarrow> f64 \<Rightarrow> f64" where
  "mul64 (Fin a) (Fin b) = rnd (a * b)"
| "mul64 NaN _ = NaN"
| "mul64 _ NaN = NaN"
| "mul64 PInf (Fin b) = inf_sgn b"
| "mul64 NInf (Fin b) = inf_sgn (- b)"
| "mul64 (Fin a) PInf = inf_sgn a"
| "mul64 (Fin a) NInf = inf_sgn (- a)"
| "mul64 PInf PInf = PInf"
| "mul64 NInf NInf = PInf"
| "mul64 PInf NInf = NInf"
| "mul64 NInf PInf = NInf"

fun div64 :: "f64 \<Rightarrow> f64 \<Rightarrow> f64" where
  "div64 (Fin a) (Fin b) = (if b = 0 then inf_sgn a else rnd (a / b))"
| "div64 NaN _ = NaN"
| "div64 _ NaN = NaN"
| "div64 (Fin _) _ = Fin 0"
| "div64 PInf (Fin b) = (if b < 0 then NInf else PInf)"
| "div64 NInf (Fin b) = (if b < 0 then PInf else NInf)"
| "div64 _ _ = NaN"

fun less64 :: "f64 \<Rightarrow> f64 \<Rightarrow> bool" where
  "less64 (Fin a) (Fin b) \<longleftrightarrow> a < b"
| "less64 NInf (Fin _) \<longleftrightarrow> True"
| "less64 NInf PInf \<longleftrightarrow> True"
| "less64 (Fin _) PInf \<longleftrightarrow> True"
| "less64 _ _ \<longleftrightarrow> False"

instantiation f64 :: "{plus, minus, times, uminus, inverse, ord}"
begin

definition plus_f64_def [simp]: "a + b = add64 a b"
definition minus_f64_def [simp]: "a - b = add64 a (neg64 b)"
definition times_f64_def [simp]: "a * b = mul64 a b"
definition uminus_f64_def [simp]: "- a = neg64 a"
definition divide_f64_def [simp]: "a div b = div64 a b"
definition inverse_f64_def [simp]: "inverse a = div64 (Fin 1) a"
definition less_f64_def [simp]: "a < b = less64 a b"
definition less_eq_f64_def: "a \<le> b \<longleftrightarrow> less64 a b \<or> (a = b \<and> a \<noteq> NaN)"

instance ..

end

text \<open>Conversions: \<open>float64(n)\<close> of an int, and \<open>int(v)\<close>, which truncates; a value outside
  int64 (or NaN) gives the amd64 indefinite integer.\<close>

definition f64_of_int :: "int \<Rightarrow> f64" where
  "f64_of_int n = rnd (of_int n)"

definition truncq :: "rat \<Rightarrow> int" where
  "truncq x = (if 0 \<le> x then \<lfloor>x\<rfloor> else \<lceil>x\<rceil>)"

fun int_of_f64 :: "f64 \<Rightarrow> int" where
  "int_of_f64 (Fin x) =
     (let n = truncq x in if - (2 ^ 63) \<le> n \<and> n < 2 ^ 63 then n else - (2 ^ 63))"
| "int_of_f64 _ = - (2 ^ 63)"

text \<open>\<open>math.Max\<close>, \<open>math.Min\<close> and \<open>math.Round\<close> (half away from zero).\<close>

fun max64 :: "f64 \<Rightarrow> f64 \<Rightarrow> f64" where
  "max64 x y =
     (if x = PInf \<or> y = PInf then PInf else if x = NaN \<or> y = NaN then NaN
      else if y < x then x else y)"

fun min64 :: "f64 \<Rightarrow> f64 \<Rightarrow> f64" where
  "min64 x y =
     (if x = NInf \<or> y = NInf then NInf else if x = NaN \<or> y = NaN then NaN
      else if x < y then x else y)"

fun round64 :: "f64 \<Rightarrow> f64" where
  "round64 (Fin x) = rnd (of_int (if 0 \<le> x then \<lfloor>x + 1 / 2\<rfloor> else \<lceil>x - 1 / 2\<rceil>))"
| "round64 x = x"


section \<open>Facts about the operations\<close>

lemma less_eq_f64_Fin [simp]: "Fin a \<le> Fin b \<longleftrightarrow> a \<le> b"
  by (auto simp: less_eq_f64_def)

lemma less_eq_f64_inf [simp]:
  "x \<le> PInf \<longleftrightarrow> x \<noteq> NaN" "NInf \<le> x \<longleftrightarrow> x \<noteq> NaN"
  "\<not> PInf \<le> Fin a" "\<not> Fin a \<le> NInf" "\<not> PInf \<le> NInf" "\<not> NaN \<le> x" "\<not> x \<le> NaN"
  by (cases x; simp add: less_eq_f64_def)+

lemma not_less_f64: "x \<noteq> NaN \<Longrightarrow> y \<noteq> NaN \<Longrightarrow> \<not> x < y \<longleftrightarrow> y \<le> (x :: f64)"
  by (cases x; cases y) (auto simp: less_eq_f64_def)

lemma f64_le_trans: "x \<le> y \<Longrightarrow> y \<le> z \<Longrightarrow> x \<le> (z :: f64)"
  by (cases x; cases y; cases z) (auto simp: less_eq_f64_def)

lemma f64_less_le_trans: "x < y \<Longrightarrow> y \<le> z \<Longrightarrow> x < (z :: f64)"
  by (cases x; cases y; cases z) (auto simp: less_eq_f64_def)

lemma f64_le_less_trans: "x \<le> y \<Longrightarrow> y < z \<Longrightarrow> x < (z :: f64)"
  by (cases x; cases y; cases z) (auto simp: less_eq_f64_def)

lemma f64_le_refl [simp]: "x \<noteq> NaN \<Longrightarrow> x \<le> (x :: f64)"
  by (simp add: less_eq_f64_def)

lemma f64_limit_powi: "f64_limit = 2 powi 1024"
  unfolding f64_limit_def by (simp only: power_int_numeral)

lemma f64_limit_large: "2 ^ 53 < f64_limit"
  unfolding f64_limit_def by (rule power_strict_increasing) auto

lemma f64_limit_pos [simp]: "0 < f64_limit"
  unfolding f64_limit_def by (rule zero_less_power) simp

lemma rnd_notNaN [simp]: "rnd x \<noteq> NaN"
  by (simp add: rnd_def Let_def)

lemma rnd_mono: "x \<le> y \<Longrightarrow> rnd x \<le> rnd y"
  using roundq_mono [of x y] by (auto simp: rnd_def Let_def)

lemma valid64_rnd [simp]: "valid64 (rnd x)"
  by (auto simp: rnd_def Let_def)

lemma valid64_inf_sgn [simp]: "valid64 (inf_sgn a)"
  by (simp add: inf_sgn_def)

lemma valid64_add64 [simp]: "valid64 (add64 x y)"
  by (cases "(x, y)" rule: add64.cases) simp_all

lemma valid64_mul64 [simp]: "valid64 (mul64 x y)"
  by (cases "(x, y)" rule: mul64.cases) simp_all

lemma valid64_div64 [simp]: "valid64 (div64 x y)"
  by (cases "(x, y)" rule: div64.cases) simp_all

lemma rnd_id: "roundq q = q \<Longrightarrow> \<bar>q\<bar> < f64_limit \<Longrightarrow> rnd q = Fin q"
  by (auto simp: rnd_def Let_def)

lemma rnd_finite64: "finite64 (Fin q) \<Longrightarrow> rnd q = Fin q"
  by (simp add: rnd_id)

lemma finite64_Fin: "finite64 x \<Longrightarrow> \<exists>q. x = Fin q \<and> roundq q = q \<and> \<bar>q\<bar> < f64_limit"
  by (cases x) auto

text \<open>An exact result bounded by a small integer stays below it after rounding.\<close>

lemma rnd_bounded:
  assumes "of_int a \<le> x" "x \<le> of_int b" "\<bar>a\<bar> \<le> 2 ^ 53" "\<bar>b\<bar> \<le> 2 ^ 53"
  shows "rnd x = Fin (roundq x)" "of_int a \<le> roundq x" "roundq x \<le> of_int b"
proof -
  show lo: "of_int a \<le> roundq x" by (rule roundq_between) (use assms roundq_of_int in auto)
  show hi: "roundq x \<le> of_int b" by (rule roundq_between) (use assms roundq_of_int in auto)
  have "- (2 ^ 53 :: int) \<le> a" "b \<le> 2 ^ 53" using assms by auto
  then have "of_int (- (2 ^ 53)) \<le> (of_int a :: rat)" "(of_int b :: rat) \<le> of_int (2 ^ 53)"
    by (simp_all only: of_int_le_iff)
  with lo hi have b: "- (2 ^ 53) \<le> roundq x" "roundq x \<le> 2 ^ 53" by auto
  with b f64_limit_large have "\<not> f64_limit \<le> roundq x" "\<not> roundq x \<le> - f64_limit" by linarith+
  then show "rnd x = Fin (roundq x)" by (simp only: rnd_def Let_def if_False)
qed

lemma rnd_of_int: "\<bar>n\<bar> \<le> 2 ^ 53 \<Longrightarrow> rnd (of_int n) = Fin (of_int n)"
  using rnd_bounded [of n "of_int n" n] by (simp add: roundq_of_int)

lemma rnd_of_int_small: "\<bar>n\<bar> \<le> 9007199254740992 \<Longrightarrow> rnd (of_int n) = Fin (of_int n)"
  by (rule rnd_of_int) simp

lemma rnd_numeral [f64_simps]: "numeral n \<le> (2 ^ 53 :: int) \<Longrightarrow> rnd (numeral n) = Fin (numeral n)"
  using rnd_of_int [of "numeral n"] by simp

lemma roundq_numeral [f64_simps]: "numeral n \<le> (2 ^ 53 :: int) \<Longrightarrow> roundq (numeral n) = numeral n"
  using roundq_of_int [of "numeral n"] by simp

text \<open>A literal that converts to itself is a finite double.\<close>

lemma finite64_rnd: "rnd q = Fin q \<Longrightarrow> finite64 (Fin q)"
  using valid64_rnd [of q] by simp

lemma finite64_numeral [f64_simps]: "numeral n \<le> (2 ^ 53 :: int) \<Longrightarrow> finite64 (Fin (numeral n))"
  using finite64_rnd [of "of_int (numeral n)"] rnd_of_int [of "numeral n"] by simp

lemma finite64_01 [f64_simps]: "finite64 (Fin 0)" "finite64 (Fin 1)"
  using finite64_rnd [of 0] finite64_rnd [of 1] rnd_of_int [of 0] rnd_of_int [of 1] by simp_all

declare finite64.simps(1) [simp del]

lemma rnd_neg_numeral [f64_simps]:
  "numeral n \<le> (2 ^ 53 :: int) \<Longrightarrow> rnd (- numeral n) = Fin (- numeral n)"
  using rnd_of_int [of "- numeral n"] by simp

lemma rnd_01 [f64_simps]: "rnd 0 = Fin 0" "rnd 1 = Fin 1"
  using rnd_of_int [of 0] rnd_of_int [of 1] by simp_all

lemma rnd_exact:
  assumes "\<bar>m\<bar> \<le> 2 ^ 53" "- 1074 \<le> e" "e \<le> 900"
  shows "rnd (of_int m * 2 powi e) = Fin (of_int m * 2 powi e)"
proof (rule rnd_id)
  show "roundq (of_int m * 2 powi e) = of_int m * 2 powi e" using assms by (intro roundq_exact)
  have "\<bar>of_int m\<bar> \<le> (of_int (2 ^ 53) :: rat)"
    using assms(1) by (simp only: of_int_abs [symmetric] of_int_le_iff)
  then have "\<bar>of_int m * 2 powi e\<bar> \<le> (2 ^ 53 * 2 powi e :: rat)" by (simp add: abs_mult)
  also have "\<dots> = 2 powi (53 + e)" by (simp add: power_int_add)
  also have "\<dots> < f64_limit" unfolding f64_limit_powi powi2_less_iff using assms(3) by simp
  finally show "\<bar>of_int m * 2 powi e\<bar> < f64_limit" .
qed

text \<open>Two evaluation rules for literals: a fraction with a power of two below is exact, and any
  other rational is found from its rounded significand.\<close>

lemma rnd_dyadic:
  assumes "numeral a \<le> (2 ^ 53 :: int)" "k \<le> 1074"
  shows "rnd (numeral a / 2 ^ k) = Fin (numeral a / 2 ^ k)"
  using rnd_exact [of "numeral a" "- int k"] assms by (simp add: power_int_minus_divide)

lemma rnd_dyadic_literals [f64_simps]:
  assumes "numeral a \<le> (2 ^ 53 :: int)"
  shows "rnd (numeral a / 2) = Fin (numeral a / 2)" "rnd (numeral a / 4) = Fin (numeral a / 4)"
    "rnd (numeral a / 8) = Fin (numeral a / 8)" "rnd (numeral a / 16) = Fin (numeral a / 16)"
    "rnd (numeral a / 32) = Fin (numeral a / 32)" "rnd (numeral a / 64) = Fin (numeral a / 64)"
  using rnd_dyadic [OF assms, of 1] rnd_dyadic [OF assms, of 2] rnd_dyadic [OF assms, of 3]
    rnd_dyadic [OF assms, of 4] rnd_dyadic [OF assms, of 5] rnd_dyadic [OF assms, of 6]
  by simp_all

lemma rnd_unit_fractions [f64_simps]:
  "rnd (1 / 2) = Fin (1 / 2)" "rnd (1 / 4) = Fin (1 / 4)" "rnd (1 / 8) = Fin (1 / 8)"
  using rnd_exact [of 1 "-1"] rnd_exact [of 1 "-2"] rnd_exact [of 1 "-3"]
  by (simp_all add: power_int_minus_divide)

lemma rnd_eqI:
  assumes m: "2 ^ 52 < m" "m < 2 ^ 53" and e: "- 1074 \<le> e" "e \<le> 900"
    and near: "\<bar>x / 2 powi e - of_int m\<bar> < 1 / 2"
  shows "rnd x = Fin (of_int m * 2 powi e)"
proof -
  define y where "y = x / 2 powi e"
  have x: "x = y * 2 powi e" by (simp add: y_def)
  have "(of_int (2 ^ 52 + 1) :: rat) \<le> of_int m" "(of_int m :: rat) \<le> of_int (2 ^ 53 - 1)"
    using m by (simp_all only: of_int_le_iff)
  then have y: "2 ^ 52 \<le> y" "y < 2 ^ 53" using near unfolding y_def [symmetric] abs_less_iff by auto
  have il: "ilog2 x = e + 52"
    by (rule ilog2_eqI) (use y in \<open>auto simp: x power_int_add\<close>)
  have x0: "0 < x" using y unfolding x by (intro mult_pos_pos) auto
  then have q: "qexp x = e" using il e by (simp add: qexp_def)
  have "round_half_even y = m"
  proof -
    have "of_int m - 1 / 2 < y" "y < of_int m + 1 / 2"
      using near unfolding y_def [symmetric] abs_less_iff by linarith+
    then have "of_int m < (of_int (round_half_even y) + 1 :: rat)"
        "(of_int (round_half_even y) :: rat) < of_int m + 1"
      using round_half_even_bounds [of y] by linarith+
    then show ?thesis by linarith
  qed
  then have r: "roundq x = of_int m * 2 powi e" using x0 by (simp add: roundq_def q y_def)
  have "rnd (of_int m * 2 powi e) = Fin (of_int m * 2 powi e)" using m e by (intro rnd_exact) auto
  then show ?thesis by (simp add: rnd_def r [symmetric])
qed

text \<open>Non-negative values (finite or infinite) are closed under the operations.\<close>

lemma f64_nonneg:
  "Fin 0 \<le> a \<Longrightarrow> Fin 0 \<le> b \<Longrightarrow> Fin 0 \<le> a + b"
  "Fin 0 \<le> a \<Longrightarrow> 0 < c \<Longrightarrow> Fin 0 \<le> a * Fin c"
  "Fin 0 \<le> a \<Longrightarrow> 0 < c \<Longrightarrow> Fin 0 \<le> a / Fin c"
  using rnd_mono [of 0 "x + y" for x y] rnd_mono [of 0 "x * y" for x y] rnd_mono [of 0 "x / y" for x y]
  by (cases a; cases b; simp add: f64_simps inf_sgn_def)+

end
