(* ===== verification/GoLib.thy ===== *)
theory GoLib
  imports Prelude "HOL-Library.List_Lexorder" "HOL-Library.Char_ord"
begin

text \<open>
  The parts of the Go language and standard library the program uses on integers and strings:
  two's-complement wrap-around of \<open>int64\<close>, truncated division, decimal printing and
  \<open>strconv.Atoi\<close>, and the functions of package \<open>strings\<close>. A Go string is the list of its
  bytes; the functions that depend on Unicode tables (\<open>ToLower\<close>, \<open>TrimSpace\<close>, \<open>Fields\<close>)
  are the ASCII ones, so statements about them are for ASCII text. Go compares strings byte by
  byte, which is the lexicographic order of HOL-Library on \<open>char list\<close>.
\<close>

section \<open>Integers\<close>

definition wrap64 :: "int \<Rightarrow> int" where
  "wrap64 n = (n + 2 ^ 63) mod 2 ^ 64 - 2 ^ 63"

abbreviation in_int64 :: "int \<Rightarrow> bool" where
  "in_int64 n \<equiv> - (2 ^ 63) \<le> n \<and> n < 2 ^ 63"

text \<open>Go's integer division truncates towards zero.\<close>

definition tdiv :: "int \<Rightarrow> int \<Rightarrow> int" where
  "tdiv a b = sgn a * sgn b * (\<bar>a\<bar> div \<bar>b\<bar>)"

lemma wrap64_id [simp]: "in_int64 n \<Longrightarrow> wrap64 n = n"
  by (simp add: wrap64_def)

lemma wrap64_range [simp]: "in_int64 (wrap64 n)"
proof -
  have "0 \<le> (n + 2 ^ 63) mod 2 ^ 64" "(n + 2 ^ 63) mod 2 ^ 64 < 2 ^ 64"
    by (rule pos_mod_sign, simp, rule pos_mod_bound, simp)
  then show ?thesis by (simp add: wrap64_def)
qed

lemma wrap64_above:
  assumes "2 ^ 63 \<le> n" "n < 2 ^ 64" shows "wrap64 n = n - 2 ^ 64"
proof -
  have "(n + 2 ^ 63) mod 2 ^ 64 = (n + 2 ^ 63 - 2 ^ 64) mod 2 ^ 64"
    by (rule mod_pos_geq) (use assms in auto)
  also have "\<dots> = n + 2 ^ 63 - 2 ^ 64" by (rule mod_pos_pos_trivial) (use assms in auto)
  finally show ?thesis by (simp add: wrap64_def)
qed

lemma tdiv_nonneg: "0 \<le> a \<Longrightarrow> 0 < b \<Longrightarrow> tdiv a b = a div b"
  by (cases "a = 0") (simp_all add: tdiv_def sgn_if)

section \<open>Decimal digits\<close>

definition digit_char :: "nat \<Rightarrow> char" where
  "digit_char d = char_of (48 + d)"

definition is_digit :: "char \<Rightarrow> bool" where
  "is_digit c \<longleftrightarrow> CHR ''0'' \<le> c \<and> c \<le> CHR ''9''"

definition digit_val :: "char \<Rightarrow> nat" where
  "digit_val c = of_char c - 48"

lemma of_char_digit_char: "d < 10 \<Longrightarrow> of_char (digit_char d) = 48 + d"
  by (simp add: digit_char_def)

lemma is_digit_digit_char [simp]: "d < 10 \<Longrightarrow> is_digit (digit_char d)"
  by (simp add: is_digit_def less_eq_char_def of_char_digit_char)

lemma digit_val_digit_char [simp]: "d < 10 \<Longrightarrow> digit_val (digit_char d) = d"
  by (simp add: digit_val_def of_char_digit_char)

lemma digit_val_less: "is_digit c \<Longrightarrow> digit_val c < 10"
  by (auto simp: is_digit_def digit_val_def less_eq_char_def)

lemma digit_char_less_iff [simp]:
  "a < 10 \<Longrightarrow> b < 10 \<Longrightarrow> digit_char a < digit_char b \<longleftrightarrow> a < b"
  by (simp add: less_char_def of_char_digit_char)

lemma digit_char_eq_iff [simp]:
  "a < 10 \<Longrightarrow> b < 10 \<Longrightarrow> digit_char a = digit_char b \<longleftrightarrow> a = b"
  by (metis digit_val_digit_char)

fun show_nat :: "nat \<Rightarrow> string" where
  "show_nat n = (if n < 10 then [digit_char n] else show_nat (n div 10) @ [digit_char (n mod 10)])"

declare show_nat.simps [simp del]

text \<open>\<open>%d\<close> of an int, and \<open>%0wd\<close>, zero padding after the sign.\<close>

definition show_int :: "int \<Rightarrow> string" where
  "show_int n = (if n < 0 then ''-'' @ show_nat (nat (- n)) else show_nat (nat n))"

definition pad0 :: "nat \<Rightarrow> string \<Rightarrow> string" where
  "pad0 w s = replicate (w - length s) CHR ''0'' @ s"

definition show_int0 :: "nat \<Rightarrow> int \<Rightarrow> string" where
  "show_int0 w n =
     (if n < 0 then ''-'' @ pad0 (w - 1) (show_nat (nat (- n))) else pad0 w (show_nat (nat n)))"

text \<open>The value of a digit string, \<open>None\<close> at a character that is no digit.\<close>

fun digits_val :: "nat \<Rightarrow> string \<Rightarrow> nat option" where
  "digits_val acc [] = Some acc"
| "digits_val acc (c # cs) =
     (if is_digit c then digits_val (acc * 10 + digit_val c) cs else None)"

lemma digits_val_append:
  "digits_val acc (xs @ ys) = (case digits_val acc xs of None \<Rightarrow> None | Some v \<Rightarrow> digits_val v ys)"
  by (induction acc xs rule: digits_val.induct) auto

lemma digits_val_show_nat: "digits_val 0 (show_nat n) = Some n"
proof (induction n rule: show_nat.induct)
  case (1 n)
  then show ?case
    by (subst show_nat.simps) (auto simp: digits_val_append)
qed

lemma digits_val_pad0: "digits_val 0 (pad0 w (show_nat n)) = Some n"
proof -
  have "digits_val 0 (replicate k CHR ''0'' @ show_nat n) = Some n" for k
    by (induction k) (auto simp: digits_val_show_nat is_digit_def digit_val_def)
  then show ?thesis by (simp add: pad0_def)
qed

lemma show_nat_digits: "\<forall>c \<in> set (show_nat n). is_digit c"
proof (induction n rule: show_nat.induct)
  case (1 n)
  then show ?case by (subst show_nat.simps) auto
qed

lemma show_nat_nonempty [simp]: "show_nat n \<noteq> []"
  by (subst show_nat.simps) auto

lemma length_show_nat_le: "n < 10 ^ Suc w \<Longrightarrow> length (show_nat n) \<le> Suc w"
proof (induction w arbitrary: n)
  case 0
  then show ?case by (subst show_nat.simps) auto
next
  case (Suc w)
  then have "n div 10 < 10 ^ Suc w" by (simp add: less_mult_imp_div_less mult.commute)
  with Suc.IH [OF this] show ?case by (subst show_nat.simps) auto
qed

lemma length_pad0: "n < 10 ^ Suc w \<Longrightarrow> length (pad0 (Suc w) (show_nat n)) = Suc w"
  using length_show_nat_le [of n w] by (simp add: pad0_def)

section \<open>strconv.Atoi\<close>

datatype num_error = ErrSyntax | ErrRange

definition signed_digits :: "bool \<Rightarrow> string \<Rightarrow> num_error + int" where
  "signed_digits neg ds =
     (if ds = [] then Inl ErrSyntax
      else case digits_val 0 ds of
        None \<Rightarrow> Inl ErrSyntax
      | Some v \<Rightarrow>
          (let n = (if neg then - int v else int v)
           in if in_int64 n then Inr n else Inl ErrRange))"

definition atoi :: "string \<Rightarrow> num_error + int" where
  "atoi s =
     (case s of
        [] \<Rightarrow> Inl ErrSyntax
      | c # cs \<Rightarrow>
          if c = CHR ''-'' then signed_digits True cs
          else if c = CHR ''+'' then signed_digits False cs
          else signed_digits False s)"

lemma atoi_show_int: "in_int64 n \<Longrightarrow> atoi (show_int n) = Inr n"
proof (cases "n < 0")
  case True
  assume "in_int64 n"
  with True show ?thesis
    by (simp add: atoi_def show_int_def signed_digits_def digits_val_show_nat)
next
  case False
  assume n: "in_int64 n"
  obtain c cs where c: "show_nat (nat n) = c # cs" by (meson neq_Nil_conv show_nat_nonempty)
  then have "is_digit c" using show_nat_digits [of "nat n"] by simp
  then have "c \<noteq> CHR ''-''" "c \<noteq> CHR ''+''" by (auto simp: is_digit_def)
  then show ?thesis
    using False n digits_val_show_nat [of "nat n"] by (simp add: atoi_def show_int_def signed_digits_def c)
qed

section \<open>Package strings\<close>

definition lower_char :: "char \<Rightarrow> char" where
  "lower_char c = (if CHR ''A'' \<le> c \<and> c \<le> CHR ''Z'' then char_of (of_char c + 32 :: nat) else c)"

definition upper_char :: "char \<Rightarrow> char" where
  "upper_char c = (if CHR ''a'' \<le> c \<and> c \<le> CHR ''z'' then char_of (of_char c - 32 :: nat) else c)"

definition to_lower :: "string \<Rightarrow> string" where
  "to_lower = map lower_char"

definition is_space :: "char \<Rightarrow> bool" where
  "is_space c \<longleftrightarrow> c = CHR '' '' \<or> (CHR 0x09 \<le> c \<and> c \<le> CHR 0x0D)"

definition trim_space :: "string \<Rightarrow> string" where
  "trim_space s = rev (dropWhile is_space (rev (dropWhile is_space s)))"

fun contains :: "string \<Rightarrow> string \<Rightarrow> bool" where
  "contains [] sub = (sub = [])"
| "contains (c # cs) sub = (prefix sub (c # cs) \<or> contains cs sub)"

function fields_func :: "(char \<Rightarrow> bool) \<Rightarrow> string \<Rightarrow> string list" where
  "fields_func P s =
     (case dropWhile P s of
        [] \<Rightarrow> []
      | c # cs \<Rightarrow>
          (c # takeWhile (\<lambda>x. \<not> P x) cs) # fields_func P (dropWhile (\<lambda>x. \<not> P x) cs))"
  by pat_completeness auto
termination
proof (relation "measure (\<lambda>(P, s). length s)", simp)
  fix P :: "char \<Rightarrow> bool" and s c cs
  assume "dropWhile P s = c # cs"
  then have "length cs < length s"
    using length_dropWhile_le [of P s] by simp
  then show "((P, dropWhile (\<lambda>x. \<not> P x) cs), P, s) \<in> measure (\<lambda>(P, s). length s)"
    by (auto intro: le_less_trans [OF length_dropWhile_le])
qed

declare fields_func.simps [simp del]

definition fields :: "string \<Rightarrow> string list" where
  "fields = fields_func is_space"

fun split_char :: "char \<Rightarrow> string \<Rightarrow> string list" where
  "split_char sep [] = [[]]"
| "split_char sep (c # cs) =
     (if c = sep then [] # split_char sep cs
      else case split_char sep cs of [] \<Rightarrow> [[c]] | w # ws \<Rightarrow> (c # w) # ws)"

definition replace_char :: "char \<Rightarrow> char \<Rightarrow> string \<Rightarrow> string" where
  "replace_char a b = map (\<lambda>c. if c = a then b else c)"

definition join_space :: "string list \<Rightarrow> string" where
  "join_space ws = concat (case ws of [] \<Rightarrow> [] | w # ws' \<Rightarrow> w # map (\<lambda>v. CHR '' '' # v) ws')"

definition has_suffix :: "string \<Rightarrow> string \<Rightarrow> bool" where
  "has_suffix s suf = suffix suf s"

definition trim_suffix :: "string \<Rightarrow> string \<Rightarrow> string" where
  "trim_suffix s suf = (if suffix suf s then take (length s - length suf) s else s)"

lemma contains_iff_sublist: "contains s sub \<longleftrightarrow> sublist sub s"
  by (induction s sub rule: contains.induct) (auto simp: sublist_Cons_right)

lemma fields_func_clean:
  "w \<in> set (fields_func P s) \<Longrightarrow> w \<noteq> [] \<and> (\<forall>c \<in> set w. \<not> P c)"
proof (induction P s rule: fields_func.induct)
  case (1 P s)
  show ?case
  proof (cases "dropWhile P s")
    case Nil
    with 1(2) show ?thesis by (simp add: fields_func.simps [of P s])
  next
    case (Cons c cs)
    then have c: "\<not> P c" using hd_dropWhile [of P s] by simp
    let ?w = "c # takeWhile (\<lambda>x. \<not> P x) cs"
    from 1(2) Cons have "w = ?w \<or> w \<in> set (fields_func P (dropWhile (\<lambda>x. \<not> P x) cs))"
      by (simp add: fields_func.simps [of P s])
    then show ?thesis
    proof
      assume "w = ?w"
      then show ?thesis using c by (auto dest: set_takeWhileD)
    next
      assume "w \<in> set (fields_func P (dropWhile (\<lambda>x. \<not> P x) cs))"
      then show ?thesis by (rule 1(1) [OF Cons])
    qed
  qed
qed

section \<open>Fixed-width numbers compare as numbers\<close>

lemma append_less_append:
  fixes a b x y :: "'a :: linorder list"
  shows "length a = length b \<Longrightarrow> a @ x < b @ y \<longleftrightarrow> a < b \<or> (a = b \<and> x < y)"
  by (induction a b rule: list_induct2) auto

fun dec :: "nat \<Rightarrow> nat \<Rightarrow> string" where
  "dec 0 n = []"
| "dec (Suc w) n = dec w (n div 10) @ [digit_char (n mod 10)]"

lemma length_dec [simp]: "length (dec w n) = w"
  by (induction w arbitrary: n) auto

lemma pad0_show_nat: "n < 10 ^ Suc w \<Longrightarrow> pad0 (Suc w) (show_nat n) = dec (Suc w) n"
proof (induction w arbitrary: n)
  case 0
  then show ?case by (subst show_nat.simps) (simp add: pad0_def)
next
  case (Suc w)
  show ?case
  proof (cases "n < 10")
    case True
    have d0: "digit_char 0 = CHR ''0''" by code_simp
    have z: "dec k 0 = replicate k CHR ''0''" for k
      by (induction k) (auto simp: d0 replicate_append_same)
    from True show ?thesis
      by (subst show_nat.simps) (simp add: pad0_def z)
  next
    case False
    from Suc.prems have lt: "n div 10 < 10 ^ Suc w" by (simp add: less_mult_imp_div_less mult.commute)
    from False have "show_nat n = show_nat (n div 10) @ [digit_char (n mod 10)]"
      by (subst show_nat.simps) simp
    then have "pad0 (Suc (Suc w)) (show_nat n) = pad0 (Suc w) (show_nat (n div 10)) @ [digit_char (n mod 10)]"
      by (simp add: pad0_def)
    then show ?thesis using Suc.IH [OF lt] by simp
  qed
qed

lemma dec_inj: "m < 10 ^ w \<Longrightarrow> n < 10 ^ w \<Longrightarrow> dec w m = dec w n \<longleftrightarrow> m = n"
proof (induction w arbitrary: m n)
  case (Suc w)
  then have "m div 10 < 10 ^ w" "n div 10 < 10 ^ w"
    by (simp_all add: less_mult_imp_div_less mult.commute)
  then have "dec w (m div 10) = dec w (n div 10) \<longleftrightarrow> m div 10 = n div 10" by (rule Suc.IH)
  moreover have "m = n \<longleftrightarrow> m div 10 = n div 10 \<and> m mod 10 = n mod 10"
    by (metis div_mult_mod_eq)
  ultimately show ?case by simp
qed simp

lemma dec_less: "m < 10 ^ w \<Longrightarrow> n < 10 ^ w \<Longrightarrow> dec w m < dec w n \<longleftrightarrow> m < n"
proof (induction w arbitrary: m n)
  case (Suc w)
  then have "m div 10 < 10 ^ w" "n div 10 < 10 ^ w"
    by (simp_all add: less_mult_imp_div_less mult.commute)
  then have "dec w (m div 10) < dec w (n div 10) \<longleftrightarrow> m div 10 < n div 10"
      "dec w (m div 10) = dec w (n div 10) \<longleftrightarrow> m div 10 = n div 10"
    by (rule Suc.IH, rule dec_inj)
  moreover have "m < n \<longleftrightarrow> m div 10 < n div 10 \<or> (m div 10 = n div 10 \<and> m mod 10 < n mod 10)"
  proof -
    have "m = 10 * (m div 10) + m mod 10" "n = 10 * (n div 10) + n mod 10"
        "m mod 10 < 10" "n mod 10 < 10"
      by simp_all
    then show ?thesis by linarith
  qed
  ultimately show ?case by (simp add: append_less_append)
qed simp

end
