(* ===== verification/GoTime.thy ===== *)
theory GoTime
  imports GoLib
begin

text \<open>
  \<open>time.Time\<close> as the program uses it. An instant is the number of nanoseconds since the Unix
  epoch, an unbounded \<open>int\<close> (Go keeps 64-bit seconds and a nanosecond part; the location and
  the monotonic reading are not kept, every time the program formats is in UTC). A
  \<open>time.Duration\<close> is an int64 count of nanoseconds. \<open>rfc3339\<close> is
  \<open>t.UTC().Format(time.RFC3339)\<close>, built on the proleptic Gregorian calendar, and
  \<open>parse_rfc3339\<close> reads back the strings that \<open>rfc3339\<close> writes. The last section shows what the
  database code relies on: for the years 0 to 9999 the written strings order as the instants do
  and parse back to the instant cut to the second.
\<close>

type_synonym gotime = int
type_synonym duration = int

definition nsec_per_sec :: int where
  "nsec_per_sec = 10 ^ 9"

definition unix :: "gotime \<Rightarrow> int" where
  "unix t = t div nsec_per_sec"

definition unix_nano :: "gotime \<Rightarrow> int" where
  "unix_nano t = wrap64 t"

definition of_unix :: "int \<Rightarrow> gotime" where
  "of_unix s = s * nsec_per_sec"

text \<open>\<open>t.Add(d)\<close>, \<open>t.After(u)\<close> and \<open>t.IsZero()\<close>: the zero time is 1 January of year 1.\<close>

definition time_add :: "gotime \<Rightarrow> duration \<Rightarrow> gotime" where
  "time_add t d = t + d"

definition after :: "gotime \<Rightarrow> gotime \<Rightarrow> bool" where
  "after t u \<longleftrightarrow> t > u"

definition zero_time :: gotime where
  "zero_time = of_unix (- 62135596800)"

definition is_zero :: "gotime \<Rightarrow> bool" where
  "is_zero t \<longleftrightarrow> t = zero_time"

text \<open>The instant cut to the second, as a formatted time keeps it.\<close>

definition trunc_sec :: "gotime \<Rightarrow> gotime" where
  "trunc_sec t = of_unix (unix t)"

lemma unix_of_unix [simp]: "unix (of_unix s) = s"
  by (simp add: unix_def of_unix_def nsec_per_sec_def)

lemma unix_mono: "t \<le> u \<Longrightarrow> unix t \<le> unix u"
  by (simp add: unix_def nsec_per_sec_def zdiv_mono1)

lemma trunc_sec_bounds: "trunc_sec t \<le> t" "t < trunc_sec t + nsec_per_sec"
  using mult_div_mod_eq [of nsec_per_sec t] pos_mod_sign [of nsec_per_sec t] pos_mod_bound [of nsec_per_sec t]
  by (auto simp: trunc_sec_def of_unix_def unix_def mult.commute nsec_per_sec_def)

lemma unix_trunc_sec [simp]: "unix (trunc_sec t) = unix t"
  by (simp add: trunc_sec_def)

lemma trunc_sec_idem [simp]: "trunc_sec (trunc_sec t) = trunc_sec t"
  by (simp add: trunc_sec_def)

section \<open>The Gregorian calendar\<close>

definition leap :: "int \<Rightarrow> bool" where
  "leap y \<longleftrightarrow> (y mod 4 = 0 \<and> y mod 100 \<noteq> 0) \<or> y mod 400 = 0"

text \<open>Days from 1 January of year 0 to 1 January of year y.\<close>

definition days_before_year :: "int \<Rightarrow> int" where
  "days_before_year y = 365 * y + (y + 3) div 4 - (y + 99) div 100 + (y + 399) div 400"

definition year_of_day :: "int \<Rightarrow> int" where
  "year_of_day n =
     (let y = (400 * n) div 146097 in
      if n < days_before_year y then y - 1
      else if days_before_year (y + 1) \<le> n then y + 1 else y)"

definition cum_days :: "int list" where
  "cum_days = [0, 31, 59, 90, 120, 151, 181, 212, 243, 273, 304, 334]"

definition month_start :: "bool \<Rightarrow> nat \<Rightarrow> int" where
  "month_start l m = cum_days ! (m - 1) + (if l \<and> m > 2 then 1 else 0)"

definition month_of :: "bool \<Rightarrow> int \<Rightarrow> nat" where
  "month_of l k = length (filter (\<lambda>m. month_start l m \<le> k) [1..<13])"

definition unix_epoch_day :: int where
  "unix_epoch_day = 719528"

definition civil :: "int \<Rightarrow> int \<times> nat \<times> nat" where
  "civil d =
     (let n = d + unix_epoch_day; y = year_of_day n; k = n - days_before_year y;
          m = month_of (leap y) k
      in (y, m, nat (k - month_start (leap y) m + 1)))"

definition day_of_civil :: "int \<Rightarrow> nat \<Rightarrow> nat \<Rightarrow> int" where
  "day_of_civil y m d =
     days_before_year y + month_start (leap y) m + int d - 1 - unix_epoch_day"

lemma div_step:
  fixes y k j :: int
  assumes "0 < k" "k = j + 1"
  shows "(y + k) div k = (y + j) div k + (if y mod k = 0 then 1 else 0)"
proof -
  define q r where "q = y div k" and "r = y mod k"
  have y: "y = k * q + r" and r: "0 \<le> r" "r < k"
    using assms(1) by (simp_all add: q_def r_def)
  have "(y + k) div k = q + 1"
    by (rule int_div_pos_eq [where r = r]) (use y r in \<open>simp_all add: algebra_simps\<close>)
  moreover have "(y + (k - 1)) div k = (if r = 0 then q else q + 1)"
    by (rule int_div_pos_eq [where r = "if r = 0 then k - 1 else r - 1"])
      (use y r in \<open>auto simp: algebra_simps\<close>)
  moreover have "j = k - 1" using assms(2) by simp
  ultimately show ?thesis by (cases "r = 0") (simp_all add: r_def)
qed

lemma days_before_year_Suc:
  "days_before_year (y + 1) = days_before_year y + (if leap y then 366 else 365)"
proof -
  have d: "y mod 400 = 0 \<Longrightarrow> y mod 100 = 0" "y mod 100 = 0 \<Longrightarrow> y mod 4 = 0"
    using mod_mod_cancel [of 100 400 y] mod_mod_cancel [of 4 100 y] by simp_all
  have n: "days_before_year (y + 1) =
      365 * (y + 1) + (y + 4) div 4 - (y + 100) div 100 + (y + 400) div 400"
    by (simp add: days_before_year_def add.commute)
  have e: "(y + 4) div 4 = (y + 3) div 4 + (if y mod 4 = 0 then 1 else 0)"
    "(y + 100) div 100 = (y + 99) div 100 + (if y mod 100 = 0 then 1 else 0)"
    "(y + 400) div 400 = (y + 399) div 400 + (if y mod 400 = 0 then 1 else 0)"
    by (rule div_step, simp, simp)+
  define a b c where "a = (y + 3) div 4" and "b = (y + 99) div 100" and "c = (y + 399) div 400"
  have eq1: "days_before_year y = 365 * y + a - b + c"
    by (simp add: days_before_year_def a_def b_def c_def)
  have eq2: "days_before_year (y + 1) = 365 * (y + 1) + (a + (if y mod 4 = 0 then 1 else 0))
      - (b + (if y mod 100 = 0 then 1 else 0)) + (c + (if y mod 400 = 0 then 1 else 0))"
    unfolding n e a_def b_def c_def ..
  consider "y mod 4 \<noteq> 0" "y mod 100 \<noteq> 0" "y mod 400 \<noteq> 0"
    | "y mod 4 = 0" "y mod 100 \<noteq> 0" "y mod 400 \<noteq> 0"
    | "y mod 4 = 0" "y mod 100 = 0" "y mod 400 \<noteq> 0"
    | "y mod 4 = 0" "y mod 100 = 0" "y mod 400 = 0"
    using d by metis
  then show ?thesis unfolding eq1 eq2
    by cases (simp_all only: leap_def simp_thms if_True if_False, simp_all)
qed

lemma days_before_year_bounds:
  "400 * days_before_year y \<le> 146097 * y + 800" "146097 * y - 800 \<le> 400 * days_before_year y"
proof -
  define a b c where "a = (y + 3) div 4" and "b = (y + 99) div 100" and "c = (y + 399) div 400"
  have "4 * a \<le> y + 3" "y \<le> 4 * a" unfolding a_def by linarith+
  moreover have "100 * b \<le> y + 99" "y \<le> 100 * b" unfolding b_def by linarith+
  moreover have "400 * c \<le> y + 399" "y \<le> 400 * c" unfolding c_def by linarith+
  moreover have "days_before_year y = 365 * y + a - b + c"
    by (simp add: days_before_year_def a_def b_def c_def)
  ultimately show "400 * days_before_year y \<le> 146097 * y + 800"
      "146097 * y - 800 \<le> 400 * days_before_year y"
    by linarith+
qed

lemma days_before_year_mono: "y \<le> z \<Longrightarrow> days_before_year y \<le> days_before_year z"
proof (induction z rule: int_ge_induct)
  case (step z)
  then show ?case by (simp add: days_before_year_Suc)
qed simp

lemma year_of_day_bounds:
  "days_before_year (year_of_day n) \<le> n" "n < days_before_year (year_of_day n + 1)"
proof -
  define y r where "y = (400 * n) div 146097" and "r = (400 * n) mod 146097"
  have "400 * n = 146097 * y + r" "0 \<le> r" "r < 146097"
    by (simp_all add: y_def r_def)
  then have y: "146097 * y \<le> 400 * n" "400 * n < 146097 * (y + 1)" by auto
  have lo: "days_before_year (y - 1) \<le> n"
    using days_before_year_bounds(1) [of "y - 1"] y by (simp add: algebra_simps)
  have hi: "n < days_before_year (y + 2)"
    using days_before_year_bounds(2) [of "y + 2"] y by (simp add: algebra_simps)
  show "days_before_year (year_of_day n) \<le> n" "n < days_before_year (year_of_day n + 1)"
    using lo hi by (auto simp: year_of_day_def y_def [symmetric] Let_def add.commute)
qed

lemma year_of_day_eqI:
  assumes "days_before_year y \<le> n" "n < days_before_year (y + 1)"
  shows "year_of_day n = y"
proof (rule antisym; rule ccontr)
  assume "\<not> year_of_day n \<le> y"
  then have "days_before_year (y + 1) \<le> days_before_year (year_of_day n)"
    by (intro days_before_year_mono) simp
  then show False using assms year_of_day_bounds(1) [of n] by linarith
next
  assume "\<not> y \<le> year_of_day n"
  then have "days_before_year (year_of_day n + 1) \<le> days_before_year y"
    by (intro days_before_year_mono) simp
  then show False using assms year_of_day_bounds(2) [of n] by linarith
qed

lemma year_of_day_mono: "m \<le> n \<Longrightarrow> year_of_day m \<le> year_of_day n"
proof (rule ccontr)
  assume "m \<le> n" "\<not> year_of_day m \<le> year_of_day n"
  then have "days_before_year (year_of_day n + 1) \<le> days_before_year (year_of_day m)"
    by (intro days_before_year_mono) simp
  then show False
    using \<open>m \<le> n\<close> year_of_day_bounds(1) [of m] year_of_day_bounds(2) [of n] by linarith
qed

definition year_len :: "bool \<Rightarrow> int" where
  "year_len l = (if l then 366 else 365)"

text \<open>Within a year: the month of a day number and the first day of the month.\<close>

lemma upt_1_13: "[1..<13] = [1, 2, 3, 4, 5, 6, 7, 8, 9, 10, 11, 12]"
  by (simp add: upt_rec)

lemma month_start_numerals [simp]:
  "month_start l 1 = 0" "month_start l (Suc 0) = 0" "month_start l 2 = 31"
  "month_start l (Suc (Suc 0)) = 31"
  "month_start l 3 = 59 + of_bool l" "month_start l 4 = 90 + of_bool l"
  "month_start l 5 = 120 + of_bool l" "month_start l 6 = 151 + of_bool l"
  "month_start l 7 = 181 + of_bool l" "month_start l 8 = 212 + of_bool l"
  "month_start l 9 = 243 + of_bool l" "month_start l 10 = 273 + of_bool l"
  "month_start l 11 = 304 + of_bool l" "month_start l 12 = 334 + of_bool l"
  by (simp_all add: month_start_def cum_days_def)

lemma months: "1 \<le> m \<and> m \<le> 12 \<longleftrightarrow> m \<in> {1, 2, 3, 4, 5, 6, 7, 8, 9, 10, 11, 12 :: nat}"
  unfolding insert_iff empty_iff by presburger

lemma month_of_start:
  assumes "1 \<le> m \<and> m \<le> 12" "month_start l m \<le> k" "m < 12 \<Longrightarrow> k < month_start l (m + 1)"
  shows "month_of l k = m"
  using assms unfolding months month_of_def upt_1_13
  by (elim insertE emptyE; cases l; simp)

lemma month_of_exists:
  assumes "0 \<le> k" "k < year_len l"
  shows "\<exists>m. 1 \<le> m \<and> m \<le> 12 \<and> month_start l m \<le> k \<and> k < month_start l m + 31 \<and>
    (m < 12 \<longrightarrow> k < month_start l (m + 1))"
proof -
  define S where "S = {m. (1 \<le> m \<and> m \<le> 12) \<and> month_start l m \<le> k}"
  define M where "M = Max S"
  have fin: "finite S" unfolding S_def by simp
  have "1 \<in> S" using assms(1) by (simp add: S_def)
  then have "M \<in> S" unfolding M_def using fin by (intro Max_in) auto
  then have M: "1 \<le> M \<and> M \<le> 12" "month_start l M \<le> k" by (auto simp: S_def)
  have nxt: "k < month_start l (M + 1)" if "M < 12"
  proof (rule ccontr)
    assume "\<not> k < month_start l (M + 1)"
    then have "M + 1 \<in> S" using that by (simp add: S_def)
    then show False using Max_ge [OF fin, of "M + 1"] by (simp add: M_def)
  qed
  have "k < month_start l M + 31"
    using M(1) nxt assms(2) unfolding months year_len_def
    by (elim insertE emptyE; cases l; simp)
  then show ?thesis using M nxt by blast
qed

lemma month_of_bounds:
  assumes "0 \<le> k" "k < year_len l"
  shows "1 \<le> month_of l k" "month_of l k \<le> 12" "month_start l (month_of l k) \<le> k"
    "k < month_start l (month_of l k) + 31"
  using month_of_exists [OF assms] month_of_start [of _ l k] by auto

lemma month_of_mono: "j \<le> k \<Longrightarrow> month_of l j \<le> month_of l k"
proof -
  assume "j \<le> k"
  then have "length (filter (\<lambda>m. month_start l m \<le> j) xs) \<le> length (filter (\<lambda>m. month_start l m \<le> k) xs)" for xs
    by (induction xs) auto
  then show ?thesis by (simp add: month_of_def)
qed


lemma civil_year_day:
  assumes "civil d = (y, m, dd)"
  defines "k \<equiv> d + unix_epoch_day - days_before_year y"
  shows "y = year_of_day (d + unix_epoch_day)" "0 \<le> k" "k < year_len (leap y)"
    "m = month_of (leap y) k" "int dd = k - month_start (leap y) m + 1"
proof -
  show y: "y = year_of_day (d + unix_epoch_day)" using assms by (simp add: civil_def Let_def)
  show k: "0 \<le> k" "k < year_len (leap y)"
    using year_of_day_bounds [of "d + unix_epoch_day"]
    by (simp_all add: k_def y [symmetric] days_before_year_Suc year_len_def split: if_splits)
  show m: "m = month_of (leap y) k" using assms(1) y by (simp add: civil_def Let_def k_def)
  have "month_start (leap y) m \<le> k" unfolding m using k by (rule month_of_bounds)
  moreover have "dd = nat (k - month_start (leap y) m + 1)"
    using assms(1) y m by (simp add: civil_def Let_def k_def)
  ultimately show "int dd = k - month_start (leap y) m + 1" by simp
qed

lemma civil_bounds:
  assumes "civil d = (y, m, dd)"
  shows "1 \<le> m" "m \<le> 12" "1 \<le> dd" "dd \<le> 31"
proof -
  note c = civil_year_day [OF assms]
  show "1 \<le> m" "m \<le> 12" using month_of_bounds [OF c(2,3)] c(4) by simp_all
  have "int dd \<ge> 1" "int dd \<le> 31" using month_of_bounds [OF c(2,3)] c(4,5) by simp_all
  then show "1 \<le> dd" "dd \<le> 31" by simp_all
qed

lemma day_of_civil_civil: "civil d = (y, m, dd) \<Longrightarrow> day_of_civil y m dd = d"
  using civil_year_day [of d y m dd] by (simp add: day_of_civil_def)

text \<open>The calendar is monotone: a later day has a later (year, month, day).\<close>

lemma civil_strict_mono:
  assumes "c < d" "civil c = (y, m, dd)" "civil d = (y', m', dd')"
  shows "y < y' \<or> (y = y' \<and> (m < m' \<or> (m = m' \<and> dd < dd')))"
proof -
  note a = civil_year_day [OF assms(2)] and b = civil_year_day [OF assms(3)]
  have "y \<le> y'" unfolding a(1) b(1) using assms(1) by (intro year_of_day_mono) simp
  moreover {
    assume e: "y = y'"
    have "m \<le> m'" unfolding a(4) b(4) e using assms(1) by (intro month_of_mono) simp
    moreover have "dd < dd'" if "m = m'"
      using a(5) b(5) assms(1) that e by simp
    ultimately have "m < m' \<or> (m = m' \<and> dd < dd')" by auto
  }
  ultimately show ?thesis by auto
qed

section \<open>RFC 3339\<close>

definition rfc3339_unix :: "int \<Rightarrow> string" where
  "rfc3339_unix s =
     (let (y, m, d) = civil (s div 86400); r = nat (s mod 86400) in
      show_int0 4 y @ ''-'' @ pad0 2 (show_nat m) @ ''-'' @ pad0 2 (show_nat d) @ ''T'' @
      pad0 2 (show_nat (r div 3600)) @ '':'' @ pad0 2 (show_nat (r div 60 mod 60)) @ '':'' @
      pad0 2 (show_nat (r mod 60)) @ ''Z'')"

definition rfc3339 :: "gotime \<Rightarrow> string" where
  "rfc3339 t = rfc3339_unix (unix t)"

text \<open>Instants whose calendar year is 0 to 9999: the years a four-digit field can hold.\<close>

definition year_ok :: "gotime \<Rightarrow> bool" where
  "year_ok t \<longleftrightarrow>
     (let y = year_of_day (unix t div 86400 + unix_epoch_day) in 0 \<le> y \<and> y \<le> 9999)"

text \<open>\<open>time.Parse(time.RFC3339, s)\<close> on strings of the written form: four, two and two digits,
  \<open>T\<close>, three two-digit fields, \<open>Z\<close>, with the range checks of the library.\<close>

datatype parse_error = ParseError

definition field :: "string \<Rightarrow> nat \<Rightarrow> nat \<Rightarrow> nat option" where
  "field s i n = digits_val 0 (take n (drop i s))"

definition days_in_month :: "int \<Rightarrow> nat \<Rightarrow> int" where
  "days_in_month y m =
     (if m = 12 then 31 else month_start (leap y) (m + 1) - month_start (leap y) m)"

definition parse_rfc3339 :: "string \<Rightarrow> parse_error + gotime" where
  "parse_rfc3339 s =
     (if length s = 20 \<and> s ! 4 = CHR ''-'' \<and> s ! 7 = CHR ''-'' \<and> s ! 10 = CHR ''T'' \<and>
         s ! 13 = CHR '':'' \<and> s ! 16 = CHR '':'' \<and> s ! 19 = CHR ''Z'' then
        (case (field s 0 4, field s 5 2, field s 8 2, field s 11 2, field s 14 2, field s 17 2) of
           (Some y, Some m, Some d, Some h, Some mi, Some se) \<Rightarrow>
             if 1 \<le> m \<and> m \<le> 12 \<and> 1 \<le> d \<and> int d \<le> days_in_month (int y) m \<and>
                h < 24 \<and> mi < 60 \<and> se < 60
             then Inr (of_unix (day_of_civil (int y) m d * 86400 + int (h * 3600 + mi * 60 + se)))
             else Inl ParseError
         | _ \<Rightarrow> Inl ParseError)
      else Inl ParseError)"


section \<open>What the stored timestamps rely on\<close>

lemma rfc3339_unix_dec:
  assumes "civil (s div 86400) = (y, m, d)" "0 \<le> y" "y \<le> 9999"
  shows "rfc3339_unix s =
    (let r = nat (s mod 86400) in
     dec 4 (nat y) @ ''-'' @ dec 2 m @ ''-'' @ dec 2 d @ ''T'' @
     dec 2 (r div 3600) @ '':'' @ dec 2 (r div 60 mod 60) @ '':'' @ dec 2 (r mod 60) @ ''Z'')"
proof -
  have p2: "pad0 2 (show_nat n) = dec 2 n" if "n < 100" for n
    using pad0_show_nat [of n 1] that by (simp add: numeral_2_eq_2)
  have p4: "pad0 4 (show_nat n) = dec 4 n" if "n < 10000" for n
    using pad0_show_nat [of n 3] that by simp
  have "nat (s mod 86400) < 86400" by (simp add: nat_less_iff)
  then have "nat (s mod 86400) div 3600 < 100" by (simp add: less_mult_imp_div_less)
  moreover have "n div 60 mod 60 < 100" "n mod 60 < 100" for n :: nat
    by (rule less_trans [OF mod_less_divisor]; simp)+
  moreover have "m < 100" "d < 100" using civil_bounds [OF assms(1)] by auto
  moreover have "show_int0 4 y = dec 4 (nat y)" using assms p4 [of "nat y"] by (simp add: show_int0_def nat_less_iff)
  ultimately show ?thesis using p2 by (simp add: rfc3339_unix_def assms(1) Let_def)
qed

lemma civil_year_ok:
  assumes "year_ok t"
  obtains y m d where "civil (unix t div 86400) = (y, m, d)" "0 \<le> y" "y \<le> 9999"
proof -
  obtain y m d where c: "civil (unix t div 86400) = (y, m, d)" by (cases "civil (unix t div 86400)")
  show thesis using that [OF c] assms civil_year_day(1) [OF c] by (simp add: year_ok_def Let_def)
qed

lemma hms_less:
  fixes r r' :: nat
  assumes "r < r'"
  shows "r div 3600 < r' div 3600 \<or> (r div 3600 = r' div 3600 \<and>
    (r div 60 mod 60 < r' div 60 mod 60 \<or> (r div 60 mod 60 = r' div 60 mod 60 \<and> r mod 60 < r' mod 60)))"
proof -
  have e: "n = 3600 * (n div 3600) + 60 * (n div 60 mod 60) + n mod 60" for n :: nat
  proof -
    have "n div 3600 = n div 60 div 60" by (simp add: div_mult2_eq [symmetric])
    moreover have "n = 60 * (n div 60) + n mod 60" by simp
    moreover have "n div 60 = 60 * (n div 60 div 60) + n div 60 mod 60" by simp
    ultimately show ?thesis by linarith
  qed
  have b: "n mod 60 < 60" "n div 60 mod 60 < 60" for n :: nat by simp_all
  show ?thesis using assms e [of r] e [of r'] b [of r] b [of r'] div_le_mono [of r r' 3600] by linarith
qed

lemma hms_bounds:
  fixes r :: nat
  assumes "r < 86400"
  shows "r div 3600 < 10 ^ 2" "r div 60 mod 60 < 10 ^ 2" "r mod 60 < 10 ^ 2"
proof -
  show "r div 3600 < 10 ^ 2" using assms by (simp add: less_mult_imp_div_less)
  show "r div 60 mod 60 < 10 ^ 2" "r mod 60 < 10 ^ 2"
    by (rule less_trans [OF mod_less_divisor]; simp)+
qed

lemma rfc3339_less:
  assumes "year_ok t" "year_ok u" "unix t < unix u"
  shows "rfc3339 t < rfc3339 u"
proof -
  let ?s = "unix t" and ?v = "unix u"
  from assms(1) obtain y m d where c: "civil (?s div 86400) = (y, m, d)" "0 \<le> y" "y \<le> 9999"
    by (rule civil_year_ok)
  from assms(2) obtain y' m' d' where c': "civil (?v div 86400) = (y', m', d')" "0 \<le> y'" "y' \<le> 9999"
    by (rule civil_year_ok)
  define r r' where "r = nat (?s mod 86400)" and "r' = nat (?v mod 86400)"
  have rb: "r < 86400" "r' < 86400" by (simp_all add: r_def r'_def nat_less_iff)
  have ds: "?s div 86400 \<le> ?v div 86400" using assms(3) by (simp add: zdiv_mono1)
  have b: "nat y < 10 ^ 4" "nat y' < 10 ^ 4" "m < 10 ^ 2" "m' < 10 ^ 2" "d < 10 ^ 2" "d' < 10 ^ 2"
    using c c' civil_bounds [OF c(1)] civil_bounds [OF c'(1)] by (auto simp: nat_less_iff)
  note hb = hms_bounds [OF rb(1)] hms_bounds [OF rb(2)]
  note cmp = append_less_append dec_less [OF b(1,2)] dec_inj [OF b(1,2)] dec_less [OF b(3,4)] dec_inj [OF b(3,4)]
    dec_less [OF b(5,6)] dec_inj [OF b(5,6)] dec_less [OF hb(1,4)] dec_inj [OF hb(1,4)]
    dec_less [OF hb(2,5)] dec_inj [OF hb(2,5)] dec_less [OF hb(3,6)] dec_inj [OF hb(3,6)]
  note eq = rfc3339_unix_dec [OF c, folded r_def, unfolded Let_def]
    rfc3339_unix_dec [OF c', folded r'_def, unfolded Let_def]
  show ?thesis
  proof (cases "?s div 86400 = ?v div 86400")
    case True
    then have "?s mod 86400 < ?v mod 86400" using assms(3) by (metis add_less_cancel_left mult_div_mod_eq)
    then have "r < r'" by (simp add: r_def r'_def nat_less_eq_zless)
    from hms_less [OF this] c c' True show ?thesis
      unfolding rfc3339_def eq by (auto simp: cmp)
  next
    case False
    with ds have "?s div 86400 < ?v div 86400" by simp
    from civil_strict_mono [OF this c(1) c'(1)] c(2) c'(2) show ?thesis
      unfolding rfc3339_def eq by (auto simp: cmp)
  qed
qed

lemma rfc3339_less_iff:
  assumes "year_ok t" "year_ok u"
  shows "rfc3339 t < rfc3339 u \<longleftrightarrow> unix t < unix u"
  using rfc3339_less [OF assms] rfc3339_less [OF assms(2,1)]
  by (cases "unix t" "unix u" rule: linorder_cases) (auto simp: rfc3339_def)

lemma rfc3339_le_iff:
  "year_ok t \<Longrightarrow> year_ok u \<Longrightarrow> rfc3339 t \<le> rfc3339 u \<longleftrightarrow> unix t \<le> unix u"
  by (simp add: rfc3339_less_iff flip: not_less)


lemma digits_val_dec: "n < 10 ^ w \<Longrightarrow> digits_val 0 (dec w n) = Some n"
proof (induction w arbitrary: n)
  case (Suc w)
  then have "n div 10 < 10 ^ w" by (simp add: less_mult_imp_div_less mult.commute)
  with Suc.IH show ?case by (simp add: digits_val_append)
qed simp

lemma civil_day_in_month:
  assumes "civil d = (y, m, dd)" shows "int dd \<le> days_in_month y m"
proof -
  note c = civil_year_day [OF assms]
  obtain m' where m': "1 \<le> m' \<and> m' \<le> 12"
      "month_start (leap y) m' \<le> d + unix_epoch_day - days_before_year y"
      "m' < 12 \<longrightarrow> d + unix_epoch_day - days_before_year y < month_start (leap y) (m' + 1)"
    using month_of_exists [OF c(2,3)] by blast
  then have "m = m'" using month_of_start [of m' "leap y"] c(4) by simp
  with m' c(3,5) show ?thesis by (auto simp: days_in_month_def year_len_def split: if_splits)
qed

lemma parse_dec:
  assumes "y < 10 ^ 4" "m < 10 ^ 2" "d < 10 ^ 2" "h < 10 ^ 2" "mi < 10 ^ 2" "se < 10 ^ 2"
    and "1 \<le> m" "m \<le> 12" "1 \<le> d" "int d \<le> days_in_month (int y) m" "h < 24" "mi < 60" "se < 60"
  shows "parse_rfc3339 (dec 4 y @ ''-'' @ dec 2 m @ ''-'' @ dec 2 d @ ''T'' @
      dec 2 h @ '':'' @ dec 2 mi @ '':'' @ dec 2 se @ ''Z'') =
    Inr (of_unix (day_of_civil (int y) m d * 86400 + int (h * 3600 + mi * 60 + se)))"
proof -
  let ?s = "dec 4 y @ ''-'' @ dec 2 m @ ''-'' @ dec 2 d @ ''T'' @
      dec 2 h @ '':'' @ dec 2 mi @ '':'' @ dec 2 se @ ''Z''"
  have "field ?s 0 4 = Some y" "field ?s 5 2 = Some m" "field ?s 8 2 = Some d"
      "field ?s 11 2 = Some h" "field ?s 14 2 = Some mi" "field ?s 17 2 = Some se"
    using assms(1-6) by (simp_all add: field_def digits_val_dec del: dec.simps)
  moreover have "length ?s = 20" "?s ! 4 = CHR ''-''" "?s ! 7 = CHR ''-''" "?s ! 10 = CHR ''T''"
      "?s ! 13 = CHR '':''" "?s ! 16 = CHR '':''" "?s ! 19 = CHR ''Z''"
    by (simp_all add: nth_append)
  ultimately show ?thesis using assms(7-) unfolding parse_rfc3339_def by simp
qed

lemma parse_rfc3339_rfc3339:
  assumes "year_ok t"
  shows "parse_rfc3339 (rfc3339 t) = Inr (trunc_sec t)"
proof -
  from assms obtain y m d where c: "civil (unix t div 86400) = (y, m, d)" "0 \<le> y" "y \<le> 9999"
    by (rule civil_year_ok)
  define r where "r = nat (unix t mod 86400)"
  have r: "r < 86400" by (simp add: r_def nat_less_iff)
  note b = civil_bounds [OF c(1)] and hb = hms_bounds [OF r]
  have h: "r div 3600 < 24" "r div 60 mod 60 < 60" "r mod 60 < 60"
    using r by (simp_all add: less_mult_imp_div_less)
  have y: "nat y < 10 ^ 4" "int (nat y) = y" using c by (auto simp: nat_less_iff)
  have md: "m < 10 ^ 2" "d < 10 ^ 2" using b by auto
  have dm: "int d \<le> days_in_month (int (nat y)) m" using civil_day_in_month [OF c(1)] y by simp
  have "r div 3600 * 3600 + r div 60 mod 60 * 60 + r mod 60 = r"
  proof -
    have "r div 3600 = r div 60 div 60" by (simp add: div_mult2_eq [symmetric])
    moreover have "r = 60 * (r div 60) + r mod 60" by simp
    moreover have "r div 60 = 60 * (r div 60 div 60) + r div 60 mod 60" by simp
    ultimately show ?thesis by linarith
  qed
  then have "day_of_civil y m d * 86400 + int (r div 3600 * 3600 + r div 60 mod 60 * 60 + r mod 60) = unix t"
    using day_of_civil_civil [OF c(1)] by (simp only: r_def) simp
  then show ?thesis
    using parse_dec [OF y(1) md hb b(1,2,3) dm h] y(2)
    unfolding rfc3339_def rfc3339_unix_dec [OF c, folded r_def, unfolded Let_def] trunc_sec_def
    by (simp only:)
qed

end
