(* ===== verification/Telemetry.thy ===== *)
theory Telemetry
  imports Float64 GoTime
begin

text \<open>
  \<open>internal/telemetry/model.go\<close>: the device sample, the provenance envelope \<open>Value\<close> with its
  two constructors, and \<open>Validate\<close>. The Go types \<open>DeviceRole\<close>, \<open>HealthStatus\<close>, \<open>Source\<close> and
  \<open>Mode\<close> are strings that come from JSON unchecked, so they stay strings here. An error value
  is a constructor with the arguments of the message the code formats.
\<close>

section \<open>Enumerations\<close>

type_synonym telemetry_source = string
type_synonym telemetry_mode = string
type_synonym device_role = string
type_synonym health_status = string

definition SourceSynthetic :: telemetry_source where "SourceSynthetic = ''synthetic''"
definition SourceMock :: telemetry_source where "SourceMock = ''mock''"
definition SourceReal :: telemetry_source where "SourceReal = ''real''"
definition SourceComputed :: telemetry_source where "SourceComputed = ''computed''"
definition SourceUnavailable :: telemetry_source where "SourceUnavailable = ''unavailable''"

definition RoleRouter :: device_role where "RoleRouter = ''router''"
definition RoleSwitch :: device_role where "RoleSwitch = ''switch''"
definition RoleFirewall :: device_role where "RoleFirewall = ''firewall''"
definition RoleGateway :: device_role where "RoleGateway = ''gateway''"

definition StatusHealthy :: health_status where "StatusHealthy = ''healthy''"
definition StatusWarning :: health_status where "StatusWarning = ''warning''"
definition StatusCritical :: health_status where "StatusCritical = ''critical''"

lemmas role_defs = RoleRouter_def RoleSwitch_def RoleFirewall_def RoleGateway_def
lemmas health_defs = StatusHealthy_def StatusWarning_def StatusCritical_def
lemmas source_defs = SourceSynthetic_def SourceMock_def SourceReal_def SourceComputed_def
  SourceUnavailable_def

definition role_valid :: "device_role \<Rightarrow> bool" where
  "role_valid r \<longleftrightarrow> r = RoleRouter \<or> r = RoleSwitch \<or> r = RoleFirewall \<or> r = RoleGateway"

definition health_valid :: "health_status \<Rightarrow> bool" where
  "health_valid s \<longleftrightarrow> s = StatusHealthy \<or> s = StatusWarning \<or> s = StatusCritical"

section \<open>The provenance envelope\<close>

record prov_value =
  pv_value :: "f64 option"
  pv_unit :: string
  pv_source :: telemetry_source
  pv_mode :: telemetry_mode
  pv_observed_at :: gotime
  pv_run_id :: string
  pv_unavailable_reason :: string

definition new_value ::
  "f64 \<Rightarrow> string \<Rightarrow> telemetry_source \<Rightarrow> telemetry_mode \<Rightarrow> gotime \<Rightarrow> string \<Rightarrow> prov_value" where
  "new_value v u src m t rid =
     \<lparr>pv_value = Some v, pv_unit = u, pv_source = src, pv_mode = m, pv_observed_at = t,
      pv_run_id = rid, pv_unavailable_reason = ''''\<rparr>"

definition unavailable_value ::
  "string \<Rightarrow> telemetry_mode \<Rightarrow> gotime \<Rightarrow> string \<Rightarrow> string \<Rightarrow> prov_value" where
  "unavailable_value u m t rid reason =
     \<lparr>pv_value = None, pv_unit = u, pv_source = SourceUnavailable, pv_mode = m,
      pv_observed_at = t, pv_run_id = rid, pv_unavailable_reason = reason\<rparr>"

section \<open>Device samples\<close>

record device_telemetry =
  hostname :: string
  role :: device_role
  cpu_percent :: f64
  memory_percent :: f64
  bandwidth_percent :: f64
  temperature_c :: f64
  latency_ms :: f64
  packet_loss_percent :: f64
  uptime_seconds :: int
  health :: health_status
  observed_at :: gotime
  source :: telemetry_source
  mode :: telemetry_mode

datatype validation_error =
    EmptyHostname
  | InvalidRole string
  | InvalidStatus string
  | CpuOutOfRange f64
  | MemoryOutOfRange f64
  | BandwidthOutOfRange f64
  | PacketLossNegative f64
  | LatencyNegative f64
  | ObservedAtUnset

text \<open>\<open>Validate\<close>: \<open>None\<close> is the nil error. The comparisons are Go's, false on NaN.\<close>

definition validate :: "device_telemetry \<Rightarrow> validation_error option" where
  "validate d =
     (if hostname d = '''' then Some EmptyHostname
      else if \<not> role_valid (role d) then Some (InvalidRole (role d))
      else if \<not> health_valid (health d) then Some (InvalidStatus (health d))
      else if cpu_percent d < Fin 0 \<or> Fin 100 < cpu_percent d then Some (CpuOutOfRange (cpu_percent d))
      else if memory_percent d < Fin 0 \<or> Fin 100 < memory_percent d
        then Some (MemoryOutOfRange (memory_percent d))
      else if bandwidth_percent d < Fin 0 \<or> Fin 100 < bandwidth_percent d
        then Some (BandwidthOutOfRange (bandwidth_percent d))
      else if packet_loss_percent d < Fin 0 then Some (PacketLossNegative (packet_loss_percent d))
      else if latency_ms d < Fin 0 then Some (LatencyNegative (latency_ms d))
      else if is_zero (observed_at d) then Some ObservedAtUnset
      else None)"

text \<open>A sample whose numbers are finite doubles: what \<open>encoding/json\<close> can decode.\<close>

definition finite_sample :: "device_telemetry \<Rightarrow> bool" where
  "finite_sample d \<longleftrightarrow>
     finite64 (cpu_percent d) \<and> finite64 (memory_percent d) \<and> finite64 (bandwidth_percent d) \<and>
     finite64 (temperature_c d) \<and> finite64 (latency_ms d) \<and> finite64 (packet_loss_percent d)"

text \<open>The contract \<open>Validate\<close> promises for a decoded sample.\<close>

definition sample_ok :: "device_telemetry \<Rightarrow> bool" where
  "sample_ok d \<longleftrightarrow>
     hostname d \<noteq> '''' \<and> role d \<in> {''router'', ''switch'', ''firewall'', ''gateway''} \<and>
     health d \<in> {''healthy'', ''warning'', ''critical''} \<and>
     (\<exists>c m b l p. cpu_percent d = Fin c \<and> 0 \<le> c \<and> c \<le> 100 \<and>
        memory_percent d = Fin m \<and> 0 \<le> m \<and> m \<le> 100 \<and>
        bandwidth_percent d = Fin b \<and> 0 \<le> b \<and> b \<le> 100 \<and>
        latency_ms d = Fin l \<and> 0 \<le> l \<and> packet_loss_percent d = Fin p \<and> 0 \<le> p) \<and>
     observed_at d \<noteq> zero_time"

lemma role_valid_iff: "role_valid r \<longleftrightarrow> r \<in> {''router'', ''switch'', ''firewall'', ''gateway''}"
  by (auto simp: role_valid_def role_defs)

lemma health_valid_iff: "health_valid s \<longleftrightarrow> s \<in> {''healthy'', ''warning'', ''critical''}"
  by (auto simp: health_valid_def health_defs)

lemma finite_sampleE:
  assumes "finite_sample d"
  obtains c m b t l p where "cpu_percent d = Fin c" "memory_percent d = Fin m"
    "bandwidth_percent d = Fin b" "temperature_c d = Fin t" "latency_ms d = Fin l"
    "packet_loss_percent d = Fin p"
  using assms unfolding finite_sample_def by (metis finite64_Fin)

lemma validate_None_iff:
  assumes "finite_sample d"
  shows "validate d = None \<longleftrightarrow> sample_ok d"
proof -
  from assms obtain c m b t l p where eqs: "cpu_percent d = Fin c" "memory_percent d = Fin m"
      "bandwidth_percent d = Fin b" "temperature_c d = Fin t" "latency_ms d = Fin l"
      "packet_loss_percent d = Fin p"
    by (rule finite_sampleE)
  show ?thesis
    by (auto simp: validate_def sample_ok_def role_valid_iff health_valid_iff eqs is_zero_def not_less
        split: if_splits)
qed

lemma sample_okD:
  assumes "sample_ok d"
  shows "\<exists>c. cpu_percent d = Fin c \<and> 0 \<le> c \<and> c \<le> 100"
    "\<exists>m. memory_percent d = Fin m \<and> 0 \<le> m \<and> m \<le> 100"
    "\<exists>l. latency_ms d = Fin l \<and> 0 \<le> l" "\<exists>p. packet_loss_percent d = Fin p \<and> 0 \<le> p"
  using assms by (auto simp: sample_ok_def)


text \<open>A sample used by the witnesses: router rtr-01 at the instant 2026-08-18T12:00:00Z.\<close>

definition demo_time :: gotime where
  "demo_time = of_unix 1787054400"

definition demo_device :: "f64 \<Rightarrow> f64 \<Rightarrow> f64 \<Rightarrow> f64 \<Rightarrow> device_telemetry" where
  "demo_device cpu mem lat loss =
     \<lparr>hostname = ''rtr-01'', role = RoleRouter, cpu_percent = cpu, memory_percent = mem,
      bandwidth_percent = Fin 20, temperature_c = Fin 50, latency_ms = lat,
      packet_loss_percent = loss, uptime_seconds = 100, health = StatusHealthy,
      observed_at = demo_time, source = SourceSynthetic, mode = ''trial''\<rparr>"

lemma demo_device_finite [simp]:
  "finite_sample (demo_device c m l p) \<longleftrightarrow> finite64 c \<and> finite64 m \<and> finite64 l \<and> finite64 p"
  by (auto simp: demo_device_def finite_sample_def f64_simps)

lemma demo_device_ok:
  "0 \<le> c \<Longrightarrow> c \<le> 100 \<Longrightarrow> 0 \<le> m \<Longrightarrow> m \<le> 100 \<Longrightarrow> 0 \<le> l \<Longrightarrow> 0 \<le> p \<Longrightarrow>
   sample_ok (demo_device (Fin c) (Fin m) (Fin l) (Fin p))"
  by (simp add: sample_ok_def demo_device_def role_defs health_defs demo_time_def zero_time_def
      of_unix_def nsec_per_sec_def)

end
