(* ===== verification/JsonCodec.thy ===== *)
theory JsonCodec
  imports Telemetry
begin

text \<open>
  The JSON documents the program stores: what \<open>encoding/json\<close> writes for a
  \<open>telemetry.DeviceTelemetry\<close> (the struct tags of \<open>internal/telemetry/model.go\<close>) and for a list of
  strings, and what it reads back. A document is its parsed value, not its text: a float is the
  double its shortest decimal denotes, a time is its instant (RFC 3339 with nanoseconds keeps it).
  Marshalling fails on a float that is not finite and on a year outside 0 to 9999.
\<close>

datatype json =
    JNull
  | JBool bool
  | JInt int
  | JNum f64
  | JStr string
  | JTime gotime
  | JArr "json list"
  | JObj "(string \<times> json) list"

section \<open>Writing\<close>

fun encodable :: "json \<Rightarrow> bool" where
  "encodable (JNum v) \<longleftrightarrow> finite64 v"
| "encodable (JTime t) \<longleftrightarrow> year_ok t"
| "encodable (JArr js) \<longleftrightarrow> (\<forall>j \<in> set js. encodable j)"
| "encodable (JObj kvs) \<longleftrightarrow> (\<forall>kv \<in> set kvs. encodable (snd kv))"
| "encodable _ \<longleftrightarrow> True"

definition device_json :: "device_telemetry \<Rightarrow> json" where
  "device_json d =
     JObj [(''hostname'', JStr (hostname d)), (''role'', JStr (role d)),
       (''cpu_percent'', JNum (cpu_percent d)), (''memory_percent'', JNum (memory_percent d)),
       (''bandwidth_percent'', JNum (bandwidth_percent d)), (''temperature_c'', JNum (temperature_c d)),
       (''latency_ms'', JNum (latency_ms d)), (''packet_loss_percent'', JNum (packet_loss_percent d)),
       (''uptime_seconds'', JInt (uptime_seconds d)), (''status'', JStr (health d)),
       (''observed_at'', JTime (observed_at d)), (''source'', JStr (source d)), (''mode'', JStr (mode d))]"

definition marshal_device :: "device_telemetry \<Rightarrow> json option" where
  "marshal_device d = (if encodable (device_json d) then Some (device_json d) else None)"

definition marshal_strings :: "string list \<Rightarrow> json" where
  "marshal_strings xs = JArr (map JStr xs)"

section \<open>Reading\<close>

text \<open>A struct field: keys match whatever their case, the zero value stands for an absent key or null,
  and a value of another JSON type is an error. Objects that repeat a key are not covered.\<close>

definition json_field :: "(string \<times> json) list \<Rightarrow> string \<Rightarrow> json" where
  "json_field kvs k =
     (case map_of (rev (map (\<lambda>(k', v). (to_lower k', v)) kvs)) k of None \<Rightarrow> JNull | Some v \<Rightarrow> v)"

fun read_string :: "json \<Rightarrow> string option" where
  "read_string JNull = Some ''''"
| "read_string (JStr s) = Some s"
| "read_string _ = None"

text \<open>A number read as float64: a literal that \<open>strconv.ParseFloat\<close> finds out of range is an error.\<close>

fun in_range :: "f64 \<Rightarrow> f64 option" where
  "in_range (Fin q) = Some (Fin q)"
| "in_range _ = None"

fun read_f64 :: "json \<Rightarrow> f64 option" where
  "read_f64 JNull = Some (Fin 0)"
| "read_f64 (JNum v) = in_range v"
| "read_f64 (JInt n) = in_range (f64_of_int n)"
| "read_f64 _ = None"

fun read_int :: "json \<Rightarrow> int option" where
  "read_int JNull = Some 0"
| "read_int (JInt n) = (if in_int64 n then Some n else None)"
| "read_int _ = None"

fun read_time :: "json \<Rightarrow> gotime option" where
  "read_time JNull = Some zero_time"
| "read_time (JTime t) = Some t"
| "read_time _ = None"

fun unmarshal_device :: "json \<Rightarrow> device_telemetry option" where
  "unmarshal_device (JObj kvs) =
     (let f = json_field kvs in
      case (read_string (f ''hostname''), read_string (f ''role''), read_f64 (f ''cpu_percent''),
            read_f64 (f ''memory_percent''), read_f64 (f ''bandwidth_percent''),
            read_f64 (f ''temperature_c''), read_f64 (f ''latency_ms''),
            read_f64 (f ''packet_loss_percent''), read_int (f ''uptime_seconds''),
            read_string (f ''status''), read_time (f ''observed_at''), read_string (f ''source''),
            read_string (f ''mode'')) of
        (Some h, Some r, Some c, Some m, Some b, Some t, Some l, Some p, Some u, Some s, Some o', Some src,
         Some md) \<Rightarrow>
          Some \<lparr>hostname = h, role = r, cpu_percent = c, memory_percent = m, bandwidth_percent = b,
            temperature_c = t, latency_ms = l, packet_loss_percent = p, uptime_seconds = u, health = s,
            observed_at = o', source = src, mode = md\<rparr>
      | _ \<Rightarrow> None)"
| "unmarshal_device JNull =
     Some \<lparr>hostname = '''', role = '''', cpu_percent = Fin 0, memory_percent = Fin 0,
       bandwidth_percent = Fin 0, temperature_c = Fin 0, latency_ms = Fin 0, packet_loss_percent = Fin 0,
       uptime_seconds = 0, health = '''', observed_at = zero_time, source = '''', mode = ''''\<rparr>"
| "unmarshal_device _ = None"

fun read_strings :: "json list \<Rightarrow> string list option" where
  "read_strings [] = Some []"
| "read_strings (j # js) =
     (case (read_string j, read_strings js) of (Some s, Some ss) \<Rightarrow> Some (s # ss) | _ \<Rightarrow> None)"

fun unmarshal_strings :: "json \<Rightarrow> string list option" where
  "unmarshal_strings (JArr js) = read_strings js"
| "unmarshal_strings JNull = Some []"
| "unmarshal_strings _ = None"

section \<open>Round trips\<close>

text \<open>A sample that \<open>json.Marshal\<close> accepts; \<open>uptime_seconds\<close> is an int64 in the code.\<close>

definition storable :: "device_telemetry \<Rightarrow> bool" where
  "storable d \<longleftrightarrow> finite_sample d \<and> year_ok (observed_at d) \<and> in_int64 (uptime_seconds d)"

lemma encodable_device [simp]: "encodable (device_json d) \<longleftrightarrow> finite_sample d \<and> year_ok (observed_at d)"
  by (auto simp: device_json_def finite_sample_def)

lemma marshal_device_Some: "storable d \<Longrightarrow> \<exists>j. marshal_device d = Some j"
  by (simp add: marshal_device_def storable_def)

lemma device_keys_lower:
  "to_lower ''hostname'' = ''hostname''" "to_lower ''role'' = ''role''"
  "to_lower ''cpu_percent'' = ''cpu_percent''" "to_lower ''memory_percent'' = ''memory_percent''"
  "to_lower ''bandwidth_percent'' = ''bandwidth_percent''" "to_lower ''temperature_c'' = ''temperature_c''"
  "to_lower ''latency_ms'' = ''latency_ms''" "to_lower ''packet_loss_percent'' = ''packet_loss_percent''"
  "to_lower ''uptime_seconds'' = ''uptime_seconds''" "to_lower ''status'' = ''status''"
  "to_lower ''observed_at'' = ''observed_at''" "to_lower ''source'' = ''source''"
  "to_lower ''mode'' = ''mode''"
  by code_simp+

lemma in_range_finite [simp]: "finite64 v \<Longrightarrow> in_range v = Some v"
  by (cases v) simp_all

lemma unmarshal_marshal_device:
  assumes "in_int64 (uptime_seconds d)" "marshal_device d = Some j" shows "unmarshal_device j = Some d"
proof -
  from assms(2) have j: "j = device_json d" "finite_sample d"
    by (simp_all add: marshal_device_def split: if_splits)
  then show ?thesis
    using assms(1) by (simp add: finite_sample_def device_json_def json_field_def device_keys_lower Let_def)
qed

lemma unmarshal_marshal_strings [simp]: "unmarshal_strings (marshal_strings xs) = Some xs"
  unfolding marshal_strings_def by (induction xs) auto

end
