(* ===== verification/Sha1.thy ===== *)
theory Sha1
  imports GoLib "HOL-Library.Word"
begin

text \<open>
  \<open>crypto/sha1.Sum\<close> and \<open>encoding/hex.EncodeToString\<close>, which the program uses to build
  anomaly and incident identifiers: FIPS 180-4 SHA-1 on byte strings, with 32-bit words that
  wrap around. The message schedule is kept as a window of the next sixteen words.
\<close>

unbundle bit_operations_syntax

type_synonym u32 = "32 word"

definition rol :: "nat \<Rightarrow> u32 \<Rightarrow> u32" where
  "rol n x = push_bit n x OR drop_bit (32 - n) x"

fun be_bytes :: "nat \<Rightarrow> int \<Rightarrow> int list" where
  "be_bytes 0 n = []"
| "be_bytes (Suc k) n = be_bytes k (n div 256) @ [n mod 256]"

definition sha1_pad :: "int list \<Rightarrow> int list" where
  "sha1_pad bs =
     bs @ 128 # replicate ((119 - length bs mod 64) mod 64) 0 @ be_bytes 8 (8 * int (length bs))"

fun words_be :: "int list \<Rightarrow> u32 list" where
  "words_be (a # b # c # d # bs) =
     of_int (((a * 256 + b) * 256 + c) * 256 + d) # words_be bs"
| "words_be _ = []"

definition sha1_f :: "nat \<Rightarrow> u32 \<Rightarrow> u32 \<Rightarrow> u32 \<Rightarrow> u32 \<times> u32" where
  "sha1_f t b c d =
     (if t < 20 then ((b AND c) OR (NOT b AND d), 0x5A827999)
      else if t < 40 then (b XOR c XOR d, 0x6ED9EBA1)
      else if t < 60 then ((b AND c) OR (b AND d) OR (c AND d), 0x8F1BBCDC)
      else (b XOR c XOR d, 0xCA62C1D6))"

type_synonym sha1_state = "u32 \<times> u32 \<times> u32 \<times> u32 \<times> u32"

text \<open>\<open>n\<close> more rounds, starting with round \<open>80 - n\<close>.\<close>

fun sha1_rounds :: "nat \<Rightarrow> u32 list \<Rightarrow> sha1_state \<Rightarrow> sha1_state" where
  "sha1_rounds 0 ws s = s"
| "sha1_rounds (Suc n) ws (a, b, c, d, e) =
     (let (f, k) = sha1_f (79 - n) b c d;
          w = ws ! 0;
          w' = rol 1 (ws ! 13 XOR ws ! 8 XOR ws ! 2 XOR w)
      in sha1_rounds n (tl ws @ [w']) (rol 5 a + f + e + k + w, a, rol 30 b, c, d))"

definition sha1_block :: "sha1_state \<Rightarrow> u32 list \<Rightarrow> sha1_state" where
  "sha1_block s ws =
     (case (s, sha1_rounds 80 ws s) of
        ((a, b, c, d, e), (a', b', c', d', e')) \<Rightarrow> (a + a', b + b', c + c', d + d', e + e'))"

function sha1_blocks :: "sha1_state \<Rightarrow> u32 list \<Rightarrow> sha1_state" where
  "sha1_blocks s ws =
     (if length ws < 16 then s else sha1_blocks (sha1_block s (take 16 ws)) (drop 16 ws))"
  by pat_completeness auto
termination by (relation "measure (\<lambda>(s, ws). length ws)") auto

declare sha1_blocks.simps [simp del]

definition sha1_init :: sha1_state where
  "sha1_init = (0x67452301, 0xEFCDAB89, 0x98BADCFE, 0x10325476, 0xC3D2E1F0)"

definition sha1_digest :: "string \<Rightarrow> int list" where
  "sha1_digest s =
     (case sha1_blocks sha1_init (words_be (sha1_pad (map of_char s))) of
        (a, b, c, d, e) \<Rightarrow> concat (map (\<lambda>w. be_bytes 4 (uint w)) [a, b, c, d, e]))"

definition hex_digit :: "int \<Rightarrow> char" where
  "hex_digit d = (if d < 10 then char_of (48 + d) else char_of (87 + d))"

definition hex_encode :: "int list \<Rightarrow> string" where
  "hex_encode bs = concat (map (\<lambda>b. [hex_digit (b div 16), hex_digit (b mod 16)]) bs)"

definition sha1_hex :: "string \<Rightarrow> string" where
  "sha1_hex s = hex_encode (sha1_digest s)"

lemma length_be_bytes [simp]: "length (be_bytes k n) = k"
  by (induction k arbitrary: n) auto

lemma length_hex_encode [simp]: "length (hex_encode bs) = 2 * length bs"
  by (induction bs) (auto simp: hex_encode_def)

lemma length_sha1_hex [simp]: "length (sha1_hex s) = 40"
  by (simp add: sha1_hex_def sha1_digest_def split: prod.splits)

end
