(* ===== verification/Detection.thy ===== *)
theory Detection
  imports Telemetry Sha1
begin

text \<open>
  \<open>internal/detection/anomaly.go\<close>: the threshold table, \<open>Detect\<close>, the bucketed anomaly
  identifier and \<open>round3\<close>.
\<close>

datatype severity = SeverityLow | SeverityMedium | SeverityHigh | SeverityCritical

record anomaly =
  an_id :: string
  an_score :: f64
  an_severity :: severity
  an_device :: string
  an_signal :: string
  an_detected_at :: gotime

record signal_check =
  sc_name :: string
  sc_value :: "device_telemetry \<Rightarrow> f64"
  sc_warning :: f64
  sc_critical :: f64

definition checks :: "signal_check list" where
  "checks =
    [\<lparr>sc_name = ''cpu_saturation'', sc_value = cpu_percent, sc_warning = flit 88, sc_critical = flit 97\<rparr>,
     \<lparr>sc_name = ''memory_pressure'', sc_value = memory_percent, sc_warning = flit 86, sc_critical = flit 96\<rparr>,
     \<lparr>sc_name = ''high_latency'', sc_value = latency_ms, sc_warning = flit 85, sc_critical = flit 150\<rparr>,
     \<lparr>sc_name = ''packet_loss'', sc_value = packet_loss_percent, sc_warning = flit (7 / 2), sc_critical = flit 8\<rparr>,
     \<lparr>sc_name = ''thermal_drift'', sc_value = temperature_c, sc_warning = flit 72, sc_critical = flit 86\<rparr>]"

definition detection_window_seconds :: int where
  "detection_window_seconds = 20"

definition anomaly_id :: "string \<Rightarrow> string \<Rightarrow> int \<Rightarrow> string" where
  "anomaly_id host signal bucket =
     ''anom-'' @ take 10 (sha1_hex (host @ '':'' @ signal @ '':'' @ show_int bucket))"

definition round3 :: "f64 \<Rightarrow> f64" where
  "round3 v = f64_of_int (int_of_f64 (v * Fin 1000 + flit (1 / 2))) / Fin 1000"

text \<open>The body of the inner loop: \<open>None\<close> is the \<open>continue\<close> below the warning threshold.\<close>

definition check_device :: "int \<Rightarrow> gotime \<Rightarrow> device_telemetry \<Rightarrow> signal_check \<Rightarrow> anomaly option" where
  "check_device bucket now d c =
     (let v = sc_value c d in
      if v < sc_warning c then None
      else
        let score0 = v / sc_critical c;
            score = (if Fin 1 < score0 then Fin 1 else score0);
            sev = (if sc_critical c \<le> v then SeverityCritical
                   else if flit (82 / 100) < score then SeverityHigh
                   else SeverityMedium)
        in Some \<lparr>an_id = anomaly_id (hostname d) (sc_name c) bucket, an_score = round3 score,
             an_severity = sev, an_device = hostname d, an_signal = sc_name c,
             an_detected_at = now\<rparr>)"

definition detect :: "device_telemetry list \<Rightarrow> gotime \<Rightarrow> anomaly list" where
  "detect devices now =
     (let bucket = tdiv (unix now) detection_window_seconds in
      concat (map (\<lambda>d. List.map_filter (check_device bucket now d) checks) devices))"

section \<open>Evaluated thresholds\<close>

lemma flit_thresholds [f64_simps]:
  "flit 88 = Fin 88" "flit 97 = Fin 97" "flit 86 = Fin 86" "flit 96 = Fin 96" "flit 85 = Fin 85"
  "flit 150 = Fin 150" "flit (7 / 2) = Fin (7 / 2)" "flit 8 = Fin 8" "flit 72 = Fin 72"
  "flit (1 / 2) = Fin (1 / 2)"
  by (simp_all add: flit_def f64_simps)

lemma set_checks_cases:
  assumes "c \<in> set checks"
  shows "(sc_name c, sc_warning c, sc_critical c) \<in>
    {(''cpu_saturation'', Fin 88, Fin 97), (''memory_pressure'', Fin 86, Fin 96),
     (''high_latency'', Fin 85, Fin 150), (''packet_loss'', Fin (7 / 2), Fin 8),
     (''thermal_drift'', Fin 72, Fin 86)}"
proof -
  have "\<forall>c \<in> set checks. (sc_name c, sc_warning c, sc_critical c) \<in>
    {(''cpu_saturation'', Fin 88, Fin 97), (''memory_pressure'', Fin 86, Fin 96),
     (''high_latency'', Fin 85, Fin 150), (''packet_loss'', Fin (7 / 2), Fin 8),
     (''thermal_drift'', Fin 72, Fin 86)}"
    unfolding checks_def list.set ball_simps by (simp only: signal_check.simps flit_thresholds) simp
  with assms show ?thesis by blast
qed

lemma sc_value_finite:
  "c \<in> set checks \<Longrightarrow> finite_sample d \<Longrightarrow> finite64 (sc_value c d)"
  by (auto simp: checks_def finite_sample_def)

lemma detect_iff:
  "a \<in> set (detect devices now) \<longleftrightarrow>
   (\<exists>d \<in> set devices. \<exists>c \<in> set checks.
      check_device (tdiv (unix now) detection_window_seconds) now d c = Some a)"
  by (force simp: detect_def Let_def List.map_filter_def)

section \<open>Rounding a score\<close>

lemma round3_mono_bounds:
  assumes "l \<le> s" "s \<le> 1" "of_int n \<le> l * 1000 + 1 / 2" "0 \<le> n" "n \<le> 1000" "0 \<le> l"
  shows "\<exists>k. round3 (Fin s) = rnd (of_int k / 1000) \<and> n \<le> k \<and> k \<le> 1000"
proof -
  have s: "0 \<le> s * 1000" "s * 1000 \<le> 1000" using assms by auto
  have r1: "rnd (s * 1000) = Fin (roundq (s * 1000))" "0 \<le> roundq (s * 1000)" "roundq (s * 1000) \<le> 1000"
    using rnd_bounded [of 0 "s * 1000" 1000] s by auto
  let ?y = "roundq (s * 1000) + 1 / 2"
  have y2: "rnd ?y = Fin (roundq ?y)"
    using rnd_bounded(1) [of 0 ?y 1001] r1 by auto
  have "roundq ?y \<le> 2001 / 2"
    using roundq_mono [of ?y "2001 / 2"] roundq_exact [of 2001 "-1"] r1(3) by simp
  then have hi: "\<lfloor>roundq ?y\<rfloor> \<le> 1000" by linarith
  have "l * 1000 \<le> s * 1000" using assms(1) by simp
  with assms(3) have ns: "of_int n - 1 / 2 \<le> s * 1000" by linarith
  have lo0: "roundq (of_int n - 1 / 2) = of_int n - 1 / 2"
    using roundq_exact [of "2 * n - 1" "-1"] assms(4,5) by (simp add: field_simps abs_if)
  have "of_int n - 1 / 2 \<le> roundq (s * 1000)"
    using roundq_mono [OF ns] lo0 by simp
  then have "of_int n \<le> roundq ?y" using roundq_mono [of "of_int n" ?y] roundq_of_int [of n] assms by simp
  then have lo: "n \<le> \<lfloor>roundq ?y\<rfloor>" by linarith
  have k: "int_of_f64 (Fin (roundq ?y)) = \<lfloor>roundq ?y\<rfloor>"
    using lo hi assms(4) by (simp add: truncq_def Let_def) linarith
  have "round3 (Fin s) = f64_of_int \<lfloor>roundq ?y\<rfloor> / Fin 1000"
    by (simp only: round3_def times_f64_def mul64.simps r1(1) plus_f64_def flit_thresholds add64.simps y2 k)
  also have "\<bar>\<lfloor>roundq ?y\<rfloor>\<bar> \<le> 1000" using lo hi assms(4) by linarith
  then have "rnd (of_int \<lfloor>roundq ?y\<rfloor>) = Fin (of_int \<lfloor>roundq ?y\<rfloor>)"
    by (intro rnd_of_int_small) linarith
  then have "f64_of_int \<lfloor>roundq ?y\<rfloor> / Fin 1000 = rnd (of_int \<lfloor>roundq ?y\<rfloor> / 1000)"
    by (simp add: f64_of_int_def)
  finally show ?thesis using lo hi by blast
qed

lemma round3_one: "round3 (Fin 1) = Fin 1"
  using round3_mono_bounds [of 1 1 1000] by (auto simp: f64_simps)


section \<open>One threshold check\<close>

lemma thresholds_ratio:
  assumes "c \<in> set checks"
  obtains w k where "sc_warning c = Fin w" "sc_critical c = Fin k" "0 < w" "0 < k" "7 / 16 \<le> w / k"
    "sc_name c \<in> {''high_latency'', ''packet_loss''} \<or> 107 / 128 \<le> w / k"
proof -
  consider "sc_name c = ''cpu_saturation''" "sc_warning c = Fin 88" "sc_critical c = Fin 97"
    | "sc_name c = ''memory_pressure''" "sc_warning c = Fin 86" "sc_critical c = Fin 96"
    | "sc_name c = ''high_latency''" "sc_warning c = Fin 85" "sc_critical c = Fin 150"
    | "sc_name c = ''packet_loss''" "sc_warning c = Fin (7 / 2)" "sc_critical c = Fin 8"
    | "sc_name c = ''thermal_drift''" "sc_warning c = Fin 72" "sc_critical c = Fin 86"
    using set_checks_cases [OF assms] by auto
  then show thesis
  proof cases
    case 1 then show ?thesis by (intro that [of 88 97]) simp_all
  next
    case 2 then show ?thesis by (intro that [of 86 96]) simp_all
  next
    case 3 then show ?thesis by (intro that [of 85 150]) simp_all
  next
    case 4 then show ?thesis by (intro that [of "7 / 2" 8]) simp_all
  next
    case 5 then show ?thesis by (intro that [of 72 86]) simp_all
  qed
qed

text \<open>The score before rounding to three decimals.\<close>

definition raw_score :: "f64 \<Rightarrow> f64 \<Rightarrow> f64" where
  "raw_score v k = (if Fin 1 < v / k then Fin 1 else v / k)"

lemma raw_score_ge_critical:
  assumes "0 < k" "k \<le> x" shows "raw_score (Fin x) (Fin k) = Fin 1"
proof -
  have "Fin 1 \<le> rnd (x / k)" using rnd_mono [of 1 "x / k"] assms by (simp add: f64_simps)
  then show ?thesis using assms by (cases "rnd (x / k)") (auto simp: raw_score_def less_eq_f64_def)
qed

lemma raw_score_below:
  assumes "0 < k" "x < k" "0 \<le> q" "q \<le> x / k" "roundq q = q"
  shows "\<exists>r. raw_score (Fin x) (Fin k) = Fin r \<and> q \<le> r \<and> r \<le> 1"
proof -
  have "0 \<le> x / k" "x / k \<le> 1" using assms by auto
  then have "rnd (x / k) = Fin (roundq (x / k))" "roundq (x / k) \<le> 1"
    using rnd_bounded [of 0 "x / k" 1] by auto
  moreover have "q \<le> roundq (x / k)" using roundq_mono [OF assms(4)] assms(5) by simp
  ultimately show ?thesis using assms(1) by (auto simp: raw_score_def)
qed

lemma check_device_SomeD:
  assumes "check_device b now d c = Some a"
  shows "\<not> sc_value c d < sc_warning c" "an_device a = hostname d" "an_signal a = sc_name c"
    "an_id a = anomaly_id (hostname d) (sc_name c) b" "an_detected_at a = now"
    "an_score a = round3 (raw_score (sc_value c d) (sc_critical c))"
    "an_severity a = (if sc_critical c \<le> sc_value c d then SeverityCritical
       else if flit (82 / 100) < raw_score (sc_value c d) (sc_critical c) then SeverityHigh
       else SeverityMedium)"
  using assms by (auto simp: check_device_def Let_def raw_score_def split: if_splits)

lemma check_device_eq_None_iff: "check_device b now d c = None \<longleftrightarrow> sc_value c d < sc_warning c"
  by (simp add: check_device_def Let_def)

text \<open>What a recorded anomaly says about its reading, for a finite reading.\<close>

lemma check_device_graded:
  assumes "c \<in> set checks" "finite_sample d" "check_device b now d c = Some a"
  shows "\<exists>n. an_score a = rnd (of_int n / 1000) \<and> 438 \<le> n \<and> n \<le> 1000"
    and "an_severity a = SeverityCritical \<longleftrightarrow> sc_critical c \<le> sc_value c d"
    and "an_severity a = SeverityCritical \<Longrightarrow> an_score a = Fin 1"
    and "an_severity a \<noteq> SeverityLow"
    and "an_severity a = SeverityMedium \<Longrightarrow> an_signal a \<in> {''high_latency'', ''packet_loss''}"
proof -
  note f = check_device_SomeD [OF assms(3)]
  from sc_value_finite [OF assms(1,2)] obtain x where x: "sc_value c d = Fin x"
    by (cases "sc_value c d") auto
  from assms(1) obtain w k where wk: "sc_warning c = Fin w" "sc_critical c = Fin k" "0 < w" "0 < k"
      "7 / 16 \<le> w / k" "sc_name c \<in> {''high_latency'', ''packet_loss''} \<or> 107 / 128 \<le> w / k"
    by (rule thresholds_ratio)
  have "w \<le> x" using f(1) x wk(1) by simp
  then have wx: "w / k \<le> x / k" using wk(4) by (simp add: divide_right_mono)
  show crit: "an_severity a = SeverityCritical \<longleftrightarrow> sc_critical c \<le> sc_value c d"
    unfolding f by simp
  show "an_severity a \<noteq> SeverityLow" unfolding f by simp
  show one: "an_severity a = SeverityCritical \<Longrightarrow> an_score a = Fin 1"
    using crit raw_score_ge_critical [of k x] wk x f(6) by (simp add: round3_one)
  show "\<exists>n. an_score a = rnd (of_int n / 1000) \<and> 438 \<le> n \<and> n \<le> 1000"
  proof (cases "k \<le> x")
    case True
    then have "an_score a = rnd (of_int 1000 / 1000)"
      using crit one wk x by (simp add: f64_simps)
    then show ?thesis by (intro exI [of _ 1000]) simp
  next
    case False
    have q: "roundq (7 / 16) = 7 / 16" using roundq_exact [of 7 "-4"] by (simp add: power_int_minus_divide)
    have "x < k" "7 / 16 \<le> x / k" using False wk(5) wx by linarith+
    then obtain r where r: "raw_score (Fin x) (Fin k) = Fin r" "7 / 16 \<le> r" "r \<le> 1"
      using raw_score_below [OF wk(4) _ _ _ q] by auto
    have "an_score a = round3 (Fin r)" using f(6) x wk(2) r(1) by simp
    with round3_mono_bounds [of "7 / 16" r 438] r(2,3) show ?thesis by auto
  qed
  show "an_signal a \<in> {''high_latency'', ''packet_loss''}" if med: "an_severity a = SeverityMedium"
  proof (rule ccontr)
    assume "an_signal a \<notin> {''high_latency'', ''packet_loss''}"
    then have ge: "107 / 128 \<le> x / k" using f(3) wk(6) wx by (metis order.trans)
    from med have "\<not> sc_critical c \<le> sc_value c d"
        "\<not> flit (82 / 100) < raw_score (sc_value c d) (sc_critical c)"
      unfolding f(7) by (auto split: if_splits)
    then have lt: "x < k" and nh: "\<not> flit (82 / 100) < raw_score (Fin x) (Fin k)"
      using wk(2) x by simp_all
    have q: "roundq (107 / 128) = 107 / 128"
      using roundq_exact [of 107 "-7"] by (simp add: power_int_minus_divide)
    have "0 \<le> (107 / 128 :: rat)" by simp
    from raw_score_below [OF wk(4) lt this ge q]
    obtain r where r: "raw_score (Fin x) (Fin k) = Fin r" "107 / 128 \<le> r" by blast
    have "flit (82 / 100) \<le> Fin (105 / 128)"
      using rnd_mono [of "82 / 100" "105 / 128"] rnd_exact [of 105 "-7"]
      by (simp add: flit_def power_int_minus_divide)
    moreover have "Fin (105 / 128) < Fin r" using r(2) unfolding less_f64_def less64.simps by linarith
    ultimately have "flit (82 / 100) < Fin r" by (rule f64_le_less_trans)
    then show False using nh r(1) by simp
  qed
qed

lemma raw_score_cut:
  assumes "0 < k"
  shows "raw_score (Fin x) (Fin k) = (if Fin k \<le> Fin x then Fin 1 else Fin x / Fin k)"
proof (cases "k \<le> x")
  case True
  then show ?thesis using raw_score_ge_critical [OF assms] by simp
next
  case False
  then have "x / k \<le> 1" using assms by simp
  then have "rnd (x / k) \<le> Fin 1" using rnd_mono [of "x / k" 1] by (simp add: f64_simps)
  then have "\<not> Fin 1 < rnd (x / k)" using f64_le_less_trans by (cases "rnd (x / k)") fastforce+
  then show ?thesis using False assms by (simp add: raw_score_def)
qed

text \<open>Severity and score against the critical threshold, for a finite reading.\<close>

lemma check_device_grades:
  assumes "c \<in> set checks" "finite_sample d" "check_device b now d c = Some a"
  shows "an_device a = hostname d" "an_signal a = sc_name c" "\<not> sc_value c d < sc_warning c"
    "an_severity a = SeverityHigh \<longleftrightarrow> sc_value c d < sc_critical c \<and>
       flit (82 / 100) < sc_value c d / sc_critical c"
    "an_severity a = SeverityMedium \<longleftrightarrow> sc_value c d < sc_critical c \<and>
       sc_value c d / sc_critical c \<le> flit (82 / 100)"
    "an_score a = round3 (if sc_critical c \<le> sc_value c d then Fin 1
       else sc_value c d / sc_critical c)"
proof -
  note f = check_device_SomeD [OF assms(3)]
  from sc_value_finite [OF assms(1,2)] obtain x where x: "sc_value c d = Fin x"
    by (cases "sc_value c d") auto
  from assms(1) obtain w k where wk: "sc_warning c = Fin w" "sc_critical c = Fin k" "0 < w" "0 < k"
      "7 / 16 \<le> w / k"
    by (rule thresholds_ratio)
  have "w \<le> x" using f(1) x wk(1) by simp
  then have "w / k \<le> x / k" using wk(4) by (simp add: divide_right_mono)
  with wk(5) have wx: "7 / 16 \<le> x / k" by (rule order.trans)
  obtain l where l: "flit (82 / 100) = Fin l" using rnd_bounded(1) [of 0 "82 / 100" 1]
    by (auto simp: flit_def)
  have fin: "\<not> k \<le> x \<Longrightarrow> \<exists>r. rnd (x / k) = Fin r"
    using rnd_bounded(1) [of 0 "x / k" 1] wx wk(4) by auto
  show "an_device a = hostname d" "an_signal a = sc_name c" "\<not> sc_value c d < sc_warning c"
    by (rule f)+
  show "an_severity a = SeverityHigh \<longleftrightarrow> sc_value c d < sc_critical c \<and>
       flit (82 / 100) < sc_value c d / sc_critical c"
    "an_severity a = SeverityMedium \<longleftrightarrow> sc_value c d < sc_critical c \<and>
       sc_value c d / sc_critical c \<le> flit (82 / 100)"
    unfolding f(7) x wk(2) raw_score_cut [OF wk(4)] l using fin wk(4) by auto
  show "an_score a = round3 (if sc_critical c \<le> sc_value c d then Fin 1
       else sc_value c d / sc_critical c)"
    unfolding f(6) x wk(2) raw_score_cut [OF wk(4)] ..
qed

section \<open>Detect\<close>

lemma map_map_filter:
  assumes "\<And>x. x \<in> set xs \<Longrightarrow> map_option g (f x) = (if P x then Some (h x) else None)"
  shows "map g (List.map_filter f xs) = map h (filter P xs)"
  using assms
proof (induction xs)
  case (Cons x xs)
  have "map_option g (f x) = (if P x then Some (h x) else None)" by (rule Cons.prems) simp
  moreover have "map g (List.map_filter f xs) = map h (filter P xs)" by (rule Cons.IH, rule Cons.prems) simp
  ultimately show ?case by (cases "f x") (auto simp: List.map_filter_def split: if_splits)
qed (simp add: List.map_filter_def)

lemma check_device_reported:
  "map_option (\<lambda>a. (an_device a, an_signal a, an_id a, an_detected_at a)) (check_device b now d c) =
   (if \<not> sc_value c d < sc_warning c
    then Some (hostname d, sc_name c, anomaly_id (hostname d) (sc_name c) b, now) else None)"
  by (simp add: check_device_def Let_def)

text \<open>
  C5: \<open>Detect\<close> reports exactly the breaches, each once and in order: read off by device, signal,
  identifier and time, its output is, sample by sample, the list of those signals of the table whose
  reading in that sample is not below the warning threshold, in the order of the table. A batch with
  two samples of one device therefore has one anomaly per sample and signal.
\<close>

theorem detect_complete:
  "map (\<lambda>a. (an_device a, an_signal a, an_id a, an_detected_at a)) (detect devices now) =
   concat (map (\<lambda>d.
     map (\<lambda>(s, v, w). (hostname d, s, anomaly_id (hostname d) s (tdiv (unix now) 20), now))
       (filter (\<lambda>(s, v, w). \<not> v < w)
         [(''cpu_saturation'', cpu_percent d, Fin 88),
          (''memory_pressure'', memory_percent d, Fin 86),
          (''high_latency'', latency_ms d, Fin 85),
          (''packet_loss'', packet_loss_percent d, Fin (7 / 2)),
          (''thermal_drift'', temperature_c d, Fin 72)])) devices)"
proof -
  have tab: "map (\<lambda>c. (sc_name c, sc_value c d, sc_warning c)) checks =
     [(''cpu_saturation'', cpu_percent d, Fin 88), (''memory_pressure'', memory_percent d, Fin 86),
      (''high_latency'', latency_ms d, Fin 85), (''packet_loss'', packet_loss_percent d, Fin (7 / 2)),
      (''thermal_drift'', temperature_c d, Fin 72)]" for d
    unfolding checks_def list.map by (simp only: signal_check.simps flit_thresholds)
  show ?thesis
    unfolding tab [symmetric] detect_def Let_def map_concat map_map comp_def filter_map
      map_map_filter [OF check_device_reported] detection_window_seconds_def
    by simp
qed

text \<open>
  C6: Every anomaly comes from a reading of a sample of its device, and the severity grades that
  reading: for finite readings it is \<open>critical\<close> exactly when the reading is at or above the critical
  threshold of the signal, \<open>high\<close> exactly when it is below and its quotient by the critical threshold
  exceeds 0.82, and \<open>medium\<close> exactly in the remaining case, never \<open>low\<close>; \<open>medium\<close> occurs only for
  \<open>high_latency\<close> and \<open>packet_loss\<close>, since the warning thresholds of the three others are already
  above 0.82 of the critical ones. The score is that quotient, cut at 1 and rounded to thousandths:
  a number of thousandths between 0.438 and 1, and 1 for every critical anomaly.
\<close>

theorem detect_graded:
  assumes "\<forall>d \<in> set devices. finite_sample d" "a \<in> set (detect devices now)"
  shows "(\<exists>d \<in> set devices. \<exists>c \<in> set checks.
      an_device a = hostname d \<and> an_signal a = sc_name c \<and> \<not> sc_value c d < sc_warning c \<and>
      (an_severity a = SeverityCritical \<longleftrightarrow> sc_critical c \<le> sc_value c d) \<and>
      (an_severity a = SeverityHigh \<longleftrightarrow> sc_value c d < sc_critical c \<and>
         flit (82 / 100) < sc_value c d / sc_critical c) \<and>
      (an_severity a = SeverityMedium \<longleftrightarrow> sc_value c d < sc_critical c \<and>
         sc_value c d / sc_critical c \<le> flit (82 / 100)) \<and>
      an_score a = round3 (if sc_critical c \<le> sc_value c d then Fin 1
         else sc_value c d / sc_critical c)) \<and>
    (\<exists>n. an_score a = rnd (of_int n / 1000) \<and> 438 \<le> n \<and> n \<le> 1000) \<and>
    an_severity a \<noteq> SeverityLow \<and>
    (an_severity a = SeverityCritical \<longrightarrow> an_score a = Fin 1) \<and>
    (an_severity a = SeverityMedium \<longrightarrow> an_signal a \<in> {''high_latency'', ''packet_loss''})"
proof -
  from assms(2) obtain d c where dc: "d \<in> set devices" "c \<in> set checks"
      "check_device (tdiv (unix now) detection_window_seconds) now d c = Some a"
    by (auto simp: detect_iff)
  with assms(1) have fin: "finite_sample d" by blast
  show ?thesis
    using check_device_graded [OF dc(2) fin dc(3)] check_device_grades [OF dc(2) fin dc(3)] dc(1,2)
    by blast
qed

theorem detect_graded_witness:
  "\<exists>a. a \<in> set (detect [demo_device (Fin 98) (Fin 40) (Fin 15) (Fin 0)] demo_time) \<and>
    (\<exists>n. an_score a = rnd (of_int n / 1000) \<and> 438 \<le> n \<and> n \<le> 1000)"
proof -
  let ?d = "demo_device (Fin 98) (Fin 40) (Fin 15) (Fin 0)"
  let ?b = "tdiv (unix demo_time) detection_window_seconds"
  have fin: "\<forall>d \<in> set [?d]. finite_sample d" by (simp add: f64_simps)
  have "\<not> sc_value (checks ! 0) ?d < sc_warning (checks ! 0)"
    by (simp add: checks_def demo_device_def f64_simps)
  then obtain a where "check_device ?b demo_time ?d (checks ! 0) = Some a"
    unfolding check_device_eq_None_iff [symmetric, of _ _ ?b demo_time] by blast
  moreover have "checks ! 0 \<in> set checks" by (simp add: checks_def)
  ultimately have a: "a \<in> set (detect [?d] demo_time)" unfolding detect_iff by auto
  from detect_graded [OF fin a] a show ?thesis by blast
qed

end
