(* ===== verification/Forecast.thy ===== *)
theory Forecast
  imports Telemetry
begin

text \<open>
  \<open>internal/forecast/forecast.go\<close>: the linear extrapolation \<open>Build\<close> with its helpers
  \<open>project\<close>, \<open>clamp\<close>, \<open>riskFromScore\<close>, \<open>trendFromRisk\<close> and \<open>round1\<close>. A Go slice of samples is
  a list, oldest first.
\<close>

definition forecast_method :: string where
  "forecast_method = ''linear-extrapolation''"

definition horizon_minutes :: int where
  "horizon_minutes = 30"

datatype risk_level = RiskLow | RiskMedium | RiskHigh | RiskCritical

record forecast_point =
  fp_label_minutes :: int
  fp_cpu_percent :: f64
  fp_latency_ms :: f64
  fp_packet_loss_percent :: f64

record forecast_result =
  fr_device :: string
  fr_method :: string
  fr_horizon_mins :: int
  fr_current_trend :: string
  fr_confidence :: f64
  fr_risk_level :: risk_level
  fr_points :: "forecast_point list"

definition empty_result :: forecast_result where
  "empty_result =
     \<lparr>fr_device = ''pending'', fr_method = forecast_method, fr_horizon_mins = horizon_minutes,
      fr_current_trend = ''Awaiting telemetry'', fr_confidence = Fin 0, fr_risk_level = RiskLow,
      fr_points = map (\<lambda>i. \<lparr>fp_label_minutes = int i * 5, fp_cpu_percent = Fin 0,
        fp_latency_ms = Fin 0, fp_packet_loss_percent = Fin 0\<rparr>) [1..<7]\<rparr>"

definition extract_series :: "device_telemetry list \<Rightarrow> (device_telemetry \<Rightarrow> f64) \<Rightarrow> f64 list" where
  "extract_series h f = map f h"

definition project :: "f64 list \<Rightarrow> int \<Rightarrow> f64" where
  "project vs steps =
     (if length vs = 0 then Fin 0
      else if length vs < 2 then vs ! (length vs - 1)
      else
        let l = vs ! (length vs - 1);
            slope = (l - vs ! 0) / f64_of_int (int (length vs) - 1)
        in l + slope * f64_of_int steps)"

definition clamp :: "f64 \<Rightarrow> f64 \<Rightarrow> f64 \<Rightarrow> f64" where
  "clamp v lo hi = (if v < lo then lo else if hi < v then hi else v)"

definition risk_from_score :: "f64 \<Rightarrow> risk_level" where
  "risk_from_score score =
     (if flit 90 < score then RiskCritical
      else if flit 72 < score then RiskHigh
      else if flit 54 < score then RiskMedium
      else RiskLow)"

fun trend_from_risk :: "risk_level \<Rightarrow> string" where
  "trend_from_risk RiskHigh = ''Escalating''"
| "trend_from_risk RiskCritical = ''Escalating''"
| "trend_from_risk RiskMedium = ''Stable with watch conditions''"
| "trend_from_risk RiskLow = ''Healthy''"

definition round1 :: "f64 \<Rightarrow> f64" where
  "round1 v = round64 (v * Fin 10) / Fin 10"

definition forecast_point_at :: "f64 list \<Rightarrow> f64 list \<Rightarrow> f64 list \<Rightarrow> nat \<Rightarrow> forecast_point" where
  "forecast_point_at cpu latency loss i =
     \<lparr>fp_label_minutes = int i * 5,
      fp_cpu_percent = clamp (project cpu (int i)) (Fin 0) (Fin 100),
      fp_latency_ms = max64 (Fin 0) (project latency (int i)),
      fp_packet_loss_percent = max64 (Fin 0) (project loss (int i))\<rparr>"

definition build_forecast :: "string \<Rightarrow> device_telemetry list \<Rightarrow> forecast_result" where
  "build_forecast device history =
     (if device = '''' \<or> length history = 0 then empty_result
      else
        let recent = take_last 18 history;
            cpu = extract_series recent cpu_percent;
            latency = extract_series recent latency_ms;
            loss = extract_series recent packet_loss_percent;
            points = map (forecast_point_at cpu latency loss) [1..<7];
            terminal = points ! (length points - 1);
            score = fp_cpu_percent terminal * flit (4 / 10) + fp_latency_ms terminal * flit (25 / 100)
              + fp_packet_loss_percent terminal * flit 8;
            risk = risk_from_score score;
            confidence = min64 (flit 95) (flit 60 + f64_of_int (int (length recent)) * flit (15 / 10))
        in \<lparr>fr_device = device, fr_method = forecast_method, fr_horizon_mins = horizon_minutes,
            fr_current_trend = trend_from_risk risk, fr_confidence = round1 confidence,
            fr_risk_level = risk, fr_points = points\<rparr>)"

section \<open>Extrapolation of finite series\<close>

lemma upt_1_7: "[1..<7] = [1, 2, 3, 4, 5, 6]" "[Suc 0..<7] = [1, 2, 3, 4, 5, 6]"
  by (simp_all add: upt_rec)

text \<open>A float that is finite or an overflow, never NaN; the slope of a rising series is one.\<close>

lemma add64_mono_right:
  assumes "x = Fin a" "b \<le> c" "b \<noteq> NaN" "c \<noteq> NaN"
  shows "x + b \<le> x + c" "x + b \<noteq> NaN"
  using assms rnd_mono by (cases b; cases c; simp)+

lemma mul64_nonneg_mono:
  assumes "Fin 0 \<le> s" "0 < a" "a \<le> b"
  shows "s * Fin a \<le> s * Fin b" "Fin 0 \<le> s * Fin a"
proof -
  show "s * Fin a \<le> s * Fin b"
    using assms rnd_mono [of "x * a" "x * b" for x] by (cases s) (auto simp: inf_sgn_def mult_left_mono)
  show "Fin 0 \<le> s * Fin a"
    using assms rnd_mono [of 0 "x * a" for x] by (cases s) (auto simp: inf_sgn_def f64_simps)
qed

lemma f64_le_total: "x \<noteq> NaN \<Longrightarrow> y \<noteq> NaN \<Longrightarrow> x \<le> y \<or> y \<le> (x :: f64)"
  by (cases x; cases y) auto

lemma slope_notNaN:
  "(Fin l - Fin f) / Fin n \<noteq> NaN \<or> n = 0"
  by (cases "rnd (l + - f)") auto

lemma mul64_pos_notNaN: "s \<noteq> NaN \<Longrightarrow> 0 < a \<Longrightarrow> s * Fin a \<noteq> NaN"
  by (cases s) (auto simp: inf_sgn_def)

lemma project_notNaN:
  assumes "\<forall>v \<in> set vs. finite64 v" "0 < i" "i \<le> 6" "length vs \<le> 18"
  shows "project vs i \<noteq> NaN"
proof (cases "length vs < 2")
  case True
  then show ?thesis using assms(1)
    by (cases vs) (auto simp: project_def dest: finite64_Fin)
next
  case False
  then have "vs ! (length vs - 1) \<in> set vs" "vs ! 0 \<in> set vs" by (auto intro!: nth_mem)
  with assms(1) obtain l f where lf: "vs ! (length vs - 1) = Fin l" "vs ! 0 = Fin f"
    by (metis finite64_Fin)
  have n: "f64_of_int (int (length vs) - 1) = Fin (of_int (int (length vs) - 1))"
      "f64_of_int i = Fin (of_int i)"
    unfolding f64_of_int_def by (rule rnd_of_int_small, use assms(2-4) in simp)+
  let ?s = "(Fin l - Fin f) / Fin (of_int (int (length vs) - 1))"
  have "?s \<noteq> NaN" using slope_notNaN [of l f "of_int (int (length vs) - 1)"] False by auto
  then have "?s * Fin (of_int i) \<noteq> NaN" using assms(2) by (intro mul64_pos_notNaN) auto
  then have "Fin l + ?s * Fin (of_int i) \<noteq> NaN" by (cases "?s * Fin (of_int i)") auto
  then show ?thesis using False by (simp only: project_def Let_def lf n) simp
qed

text \<open>The first and the last value of a series, when there are two or more.\<close>

lemma project_split:
  assumes "\<forall>v \<in> set vs. finite64 v" "2 \<le> length vs" "length vs \<le> 18" "\<bar>i\<bar> \<le> 6"
  obtains f l where "vs ! 0 = Fin f" "vs ! (length vs - 1) = Fin l" "roundq l = l" "\<bar>l\<bar> < f64_limit"
    "project vs i = Fin l + (Fin l - Fin f) / Fin (of_int (int (length vs) - 1)) * Fin (of_int i)"
proof -
  from assms(2) have "vs ! (length vs - 1) \<in> set vs" "vs ! 0 \<in> set vs" by (auto intro!: nth_mem)
  with assms(1) obtain l f where lf: "vs ! (length vs - 1) = Fin l" "vs ! 0 = Fin f"
      "roundq l = l" "\<bar>l\<bar> < f64_limit"
    by (metis finite64_Fin)
  have n: "f64_of_int (int (length vs) - 1) = Fin (of_int (int (length vs) - 1))"
      "f64_of_int i = Fin (of_int i)"
    unfolding f64_of_int_def by (rule rnd_of_int_small, use assms(2-4) in simp)+
  have "(length vs = 0) = False" "(length vs < 2) = False" using assms(2) by auto
  then show thesis
    by (intro that [OF lf(2,1,3,4)]) (simp only: project_def Let_def lf n if_False)
qed

text \<open>A level series is projected level, and a rising one rises along the horizon.\<close>

lemma project_flat:
  assumes "\<forall>v \<in> set vs. finite64 v" "2 \<le> length vs" "length vs \<le> 18" "\<bar>i\<bar> \<le> 6"
    and "vs ! 0 = vs ! (length vs - 1)"
  shows "project vs i = vs ! (length vs - 1)"
proof -
  from assms(1-4) obtain f l where fl: "vs ! 0 = Fin f" "vs ! (length vs - 1) = Fin l" "roundq l = l"
      "\<bar>l\<bar> < f64_limit"
      "project vs i = Fin l + (Fin l - Fin f) / Fin (of_int (int (length vs) - 1)) * Fin (of_int i)"
    by (rule project_split)
  have "f = l" using assms(5) fl(1,2) by simp
  moreover have "(of_int (int (length vs) - 1) :: rat) \<noteq> 0" using assms(2) by simp
  ultimately show ?thesis using fl by (simp add: f64_simps rnd_id)
qed

lemma project_mono:
  assumes "\<forall>v \<in> set vs. finite64 v" "2 \<le> length vs" "length vs \<le> 18"
    and "vs ! 0 \<le> vs ! (length vs - 1)" "0 < i" "i \<le> j" "j \<le> 6"
  shows "project vs i \<le> project vs j" "vs ! (length vs - 1) \<le> project vs i"
proof -
  have j: "\<bar>j\<bar> \<le> 6" and i: "\<bar>i\<bar> \<le> 6" using assms by auto
  from assms(1-3) j obtain f l where fl: "vs ! 0 = Fin f" "vs ! (length vs - 1) = Fin l"
      "roundq l = l" "\<bar>l\<bar> < f64_limit"
      "project vs j = Fin l + (Fin l - Fin f) / Fin (of_int (int (length vs) - 1)) * Fin (of_int j)"
    by (rule project_split)
  from assms(1-3) i obtain f' l' where fl': "vs ! 0 = Fin f'" "vs ! (length vs - 1) = Fin l'"
      "roundq l' = l'" "\<bar>l'\<bar> < f64_limit"
      "project vs i = Fin l' + (Fin l' - Fin f') / Fin (of_int (int (length vs) - 1)) * Fin (of_int i)"
    by (rule project_split)
  define n where "n = (of_int (int (length vs) - 1) :: rat)"
  define s where "s = (Fin l - Fin f) / Fin n"
  have eqs: "project vs j = Fin l + s * Fin (of_int j)" "project vs i = Fin l + s * Fin (of_int i)"
    using fl fl' by (simp_all add: s_def n_def)
  have n: "0 < n" using assms(2) by (simp add: n_def)
  have fl0: "0 \<le> l - f" using assms(4) fl(1,2) by simp
  have "Fin 0 \<le> rnd (l - f)" using rnd_mono [OF fl0] by (simp add: f64_simps)
  then have s0: "Fin 0 \<le> s" using n
    by (cases "rnd (l - f)") (use rnd_mono [of 0 "x / n" for x] in \<open>auto simp: s_def f64_simps\<close>)
  have m: "s * Fin (of_int i) \<le> s * Fin (of_int j)" "Fin 0 \<le> s * Fin (of_int i)"
    using mul64_nonneg_mono [OF s0, of "of_int i" "of_int j"] assms(5,6) by simp_all
  then have nn: "s * Fin (of_int i) \<noteq> NaN" "s * Fin (of_int j) \<noteq> NaN" by auto
  show "project vs i \<le> project vs j" unfolding eqs by (rule add64_mono_right [OF refl m(1) nn])
  have "Fin l + Fin 0 \<le> Fin l + s * Fin (of_int i)"
    by (rule add64_mono_right [OF refl m(2) _ nn(1)]) simp
  then show "vs ! (length vs - 1) \<le> project vs i" unfolding eqs fl(2) using fl(3,4) by (simp add: rnd_id)
qed

section \<open>Bounds of the helpers\<close>

lemma clamp_bounds:
  "v \<noteq> NaN \<Longrightarrow> a \<le> b \<Longrightarrow> Fin a \<le> clamp v (Fin a) (Fin b) \<and> clamp v (Fin a) (Fin b) \<le> Fin b"
  by (cases v) (auto simp: clamp_def)

lemma clamp_mono: "u \<le> v \<Longrightarrow> a \<le> b \<Longrightarrow> clamp u (Fin a) (Fin b) \<le> clamp v (Fin a) (Fin b)"
  by (cases u; cases v) (auto simp: clamp_def)

lemma max64_0_bounds: "v \<noteq> NaN \<Longrightarrow> Fin 0 \<le> max64 (Fin 0) v"
  by (cases v) auto

lemma max64_0_mono: "u \<le> v \<Longrightarrow> max64 (Fin 0) u \<le> max64 (Fin 0) v"
  by (cases u; cases v) auto

lemma series_finite:
  assumes "\<forall>d \<in> set h. finite_sample d"
  shows "\<forall>v \<in> set (extract_series (take_last n h) cpu_percent). finite64 v"
    "\<forall>v \<in> set (extract_series (take_last n h) latency_ms). finite64 v"
    "\<forall>v \<in> set (extract_series (take_last n h) packet_loss_percent). finite64 v"
  using assms set_take_last [of n h] by (auto simp: extract_series_def finite_sample_def)

lemma length_extract_series [simp]: "length (extract_series h f) = length h"
  by (simp add: extract_series_def)

lemma build_forecast_points:
  "device \<noteq> '''' \<Longrightarrow> history \<noteq> [] \<Longrightarrow>
   fr_points (build_forecast device history) =
     map (forecast_point_at (extract_series (take_last 18 history) cpu_percent)
            (extract_series (take_last 18 history) latency_ms)
            (extract_series (take_last 18 history) packet_loss_percent)) [1..<7]"
  by (simp add: build_forecast_def Let_def)

section \<open>What a forecast guarantees\<close>

text \<open>
  C7: For a named device with at least one finite sample the forecast has six points labelled 5 to
  30 minutes, the last label being the announced horizon; every projected CPU value lies in
  [0, 100] and every latency and loss is at least 0 (none is NaN), whatever the slope.
\<close>

theorem forecast_bounds:
  assumes "device \<noteq> ''''" "history \<noteq> []" "\<forall>d \<in> set history. finite_sample d"
  defines "r \<equiv> build_forecast device history"
  shows "map fp_label_minutes (fr_points r) = [5, 10, 15, 20, 25, 30] \<and>
    fr_horizon_mins r = fp_label_minutes (last (fr_points r)) \<and>
    (\<forall>p \<in> set (fr_points r). Fin 0 \<le> fp_cpu_percent p \<and> fp_cpu_percent p \<le> Fin 100 \<and>
       Fin 0 \<le> fp_latency_ms p \<and> Fin 0 \<le> fp_packet_loss_percent p)"
proof -
  note pts = build_forecast_points [OF assms(1,2)]
  note fin = series_finite [OF assms(3), of 18]
  have "map fp_label_minutes (fr_points r) = [5, 10, 15, 20, 25, 30]"
    unfolding r_def pts by (simp add: upt_1_7 forecast_point_at_def)
  moreover have "fr_horizon_mins r = fp_label_minutes (last (fr_points r))"
    unfolding r_def pts using assms(1,2)
    by (simp add: upt_1_7 forecast_point_at_def build_forecast_def Let_def horizon_minutes_def)
  moreover have "Fin 0 \<le> fp_cpu_percent p \<and> fp_cpu_percent p \<le> Fin 100 \<and>
       Fin 0 \<le> fp_latency_ms p \<and> Fin 0 \<le> fp_packet_loss_percent p" if "p \<in> set (fr_points r)" for p
  proof -
    from that obtain i where i: "1 \<le> i" "i < 7"
        "p = forecast_point_at (extract_series (take_last 18 history) cpu_percent)
            (extract_series (take_last 18 history) latency_ms)
            (extract_series (take_last 18 history) packet_loss_percent) i"
      unfolding r_def pts by auto
    have "0 < int i" "int i \<le> 6" using i by auto
    note nn = project_notNaN [OF fin(1) this] project_notNaN [OF fin(2) this] project_notNaN [OF fin(3) this]
    show ?thesis
      using clamp_bounds [of _ 0 100, OF nn(1)] max64_0_bounds [OF nn(2)] max64_0_bounds [OF nn(3)]
      unfolding i(3) by (simp add: forecast_point_at_def del: max64.simps)
  qed
  ultimately show ?thesis by blast
qed

text \<open>
  C8: The projection follows the trend of the window: with two or more samples, if the newest CPU,
  latency or loss value is not below the oldest of the last 18 samples, the projected values
  never fall along the horizon.
\<close>

theorem forecast_follows_trend:
  assumes "\<forall>d \<in> set history. finite_sample d" "2 \<le> length history" "device \<noteq> ''''"
  defines "w \<equiv> take_last 18 history" and "pts \<equiv> fr_points (build_forecast device history)"
  assumes "i \<le> j" "j < 6"
  shows "(cpu_percent (hd w) \<le> cpu_percent (last w) \<longrightarrow>
      fp_cpu_percent (pts ! i) \<le> fp_cpu_percent (pts ! j)) \<and>
    (latency_ms (hd w) \<le> latency_ms (last w) \<longrightarrow>
      fp_latency_ms (pts ! i) \<le> fp_latency_ms (pts ! j)) \<and>
    (packet_loss_percent (hd w) \<le> packet_loss_percent (last w) \<longrightarrow>
      fp_packet_loss_percent (pts ! i) \<le> fp_packet_loss_percent (pts ! j))"
proof -
  have ne: "history \<noteq> []" "w \<noteq> []" using assms(2) by (auto simp: w_def)
  have len: "2 \<le> length w" "length w \<le> 18" using assms(2) by (auto simp: w_def)
  have ends: "extract_series w f ! 0 = f (hd w)"
      "extract_series w f ! (length (extract_series w f) - 1) = f (last w)" for f
    using ne(2) by (auto simp: extract_series_def hd_conv_nth last_conv_nth)
  have ij: "0 < int (Suc i)" "int (Suc i) \<le> int (Suc j)" "int (Suc j) \<le> 6" using assms by auto
  have mono: "f (hd w) \<le> f (last w) \<Longrightarrow>
      project (extract_series w f) (int (Suc i)) \<le> project (extract_series w f) (int (Suc j))"
    if "\<forall>v \<in> set (extract_series w f). finite64 v" for f
    using project_mono(1) [OF that _ _ _ ij] len unfolding ends by simp
  have pt: "pts ! k = forecast_point_at (extract_series w cpu_percent) (extract_series w latency_ms)
      (extract_series w packet_loss_percent) (Suc k)" if "k < 6" for k
    unfolding pts_def build_forecast_points [OF assms(3) ne(1)] w_def using that by (simp add: nth_map)
  have k: "i < 6" "j < 6" using assms by auto
  note fin = series_finite [OF assms(1), of 18, folded w_def]
  show ?thesis
    unfolding pt [OF k(1)] pt [OF k(2)] forecast_point_at_def forecast_point.simps
    using clamp_mono [OF mono [OF fin(1)], of 0 100] max64_0_mono [OF mono [OF fin(2)]]
      max64_0_mono [OF mono [OF fin(3)]] by simp
qed

text \<open>
  The reported confidence is exactly 60 + 1.5 times the number of samples used, at most 18; the
  cap of 95 is never reached, the value lies between 61.5 and 87. Older samples do not matter.
\<close>

lemma forecast_confidence:
  assumes "device \<noteq> ''''" "history \<noteq> []"
  shows "fr_confidence (build_forecast device history) =
      Fin (60 + 3 / 2 * of_nat (min (length history) 18)) \<and>
    build_forecast device (older @ history) =
      (if length history < 18 then build_forecast device (older @ history)
       else build_forecast device history)"
proof -
  define n where "n = int (min (length history) 18)"
  have n: "1 \<le> n" "n \<le> 18" using assms(2) by (cases history; simp add: n_def)+
  have dy: "rnd (of_int m / 2) = Fin (of_int m / 2)" if "\<bar>m\<bar> \<le> 1000" for m
    using rnd_exact [of m "-1"] that by (simp add: power_int_minus_divide)
  have f: "f64_of_int n = Fin (of_int n)" unfolding f64_of_int_def by (rule rnd_of_int_small) (use n in simp)
  have lits: "flit 60 = Fin 60" "flit (15 / 10) = Fin (3 / 2)" "flit (3 / 2) = Fin (3 / 2)"
      "flit 95 = Fin 95"
    by (simp_all add: flit_def f64_simps)
  have m1: "rnd (of_int n * (3 / 2)) = Fin (of_int n * (3 / 2))"
    using dy [of "3 * n"] n by (simp add: mult.commute)
  have m2: "rnd (60 + of_int n * (3 / 2)) = Fin (60 + of_int n * (3 / 2))"
    using dy [of "120 + 3 * n"] n by (simp add: add_divide_distrib mult.commute)
  have c: "flit 60 + f64_of_int n * flit (15 / 10) = Fin (60 + of_int n * (3 / 2))"
    by (simp only: lits f times_f64_def mul64.simps m1 plus_f64_def add64.simps m2)
  have "(of_int n :: rat) \<le> of_int 18" using n(2) by (simp only: of_int_le_iff)
  then have lt: "min64 (flit 95) (Fin (60 + of_int n * (3 / 2))) = Fin (60 + of_int n * (3 / 2))"
    by (simp add: lits)
  have t: "rnd ((60 + of_int n * (3 / 2)) * 10) = Fin (of_int (600 + 15 * n))"
    using rnd_of_int_small [of "600 + 15 * n"] n by (simp add: algebra_simps)
  have fl: "\<lfloor>of_int (600 + 15 * n) + 1 / 2 :: rat\<rfloor> = 600 + 15 * n" by linarith
  have "round1 (Fin (60 + of_int n * (3 / 2))) = Fin (60 + of_int n * (3 / 2))"
  proof -
    have nn: "(0::rat) \<le> of_int (600 + 15 * n)" using n by (simp only: of_int_0_le_iff)
    have "rnd (of_int (600 + 15 * n)) = Fin (of_int (600 + 15 * n))"
      by (rule rnd_of_int_small) (use n in simp)
    then have r: "round64 (Fin (of_int (600 + 15 * n))) = Fin (of_int (600 + 15 * n))"
      by (simp only: round64.simps if_P [OF nn] fl)
    have q: "of_int (600 + 15 * n) / 10 = (60 + of_int n * (3 / 2) :: rat)" by simp
    have "(10 :: rat) \<noteq> 0" by simp
    then show ?thesis
      by (simp only: round1_def times_f64_def mul64.simps t r divide_f64_def div64.simps if_False q m2)
  qed
  moreover have "fr_confidence (build_forecast device history) =
      round1 (min64 (flit 95) (flit 60 + f64_of_int n * flit (15 / 10)))"
    using assms by (simp add: build_forecast_def Let_def n_def del: min64.simps)
  ultimately have "fr_confidence (build_forecast device history) = Fin (60 + of_int n * (3 / 2))"
    by (simp only: c lt)
  moreover have "take_last 18 (older @ history) = take_last 18 history" if "\<not> length history < 18"
    using that by (simp add: take_last_alt)
  then have "build_forecast device (older @ history) = build_forecast device history"
    if "\<not> length history < 18"
    using that assms(2) by (simp add: build_forecast_def)
  ultimately show ?thesis by (simp add: n_def mult.commute)
qed

section \<open>Witnesses\<close>

lemma demo_history_finite:
  "\<forall>d \<in> set [demo_device (Fin 40) (Fin 40) (Fin 15) (Fin 0), demo_device (Fin 50) (Fin 40) (Fin 20) (Fin 0)].
     finite_sample d"
  by (simp add: f64_simps)

theorem forecast_bounds_witness:
  "map fp_label_minutes (fr_points (build_forecast ''rtr-01''
     [demo_device (Fin 40) (Fin 40) (Fin 15) (Fin 0), demo_device (Fin 50) (Fin 40) (Fin 20) (Fin 0)])) =
   [5, 10, 15, 20, 25, 30]"
  using forecast_bounds [OF _ _ demo_history_finite, of "''rtr-01''"] by simp

theorem forecast_follows_trend_witness:
  "fp_latency_ms (fr_points (build_forecast ''rtr-01''
     [demo_device (Fin 40) (Fin 40) (Fin 15) (Fin 0), demo_device (Fin 50) (Fin 40) (Fin 20) (Fin 0)]) ! 0) \<le>
   fp_latency_ms (fr_points (build_forecast ''rtr-01''
     [demo_device (Fin 40) (Fin 40) (Fin 15) (Fin 0), demo_device (Fin 50) (Fin 40) (Fin 20) (Fin 0)]) ! 5)"
  using forecast_follows_trend [OF demo_history_finite, of "''rtr-01''" 0 5]
  by (simp add: demo_device_def)

lemma forecast_confidence_witness:
  "fr_confidence (build_forecast ''rtr-01'' [demo_device (Fin 40) (Fin 40) (Fin 15) (Fin 0)]) =
     Fin (123 / 2)"
  using forecast_confidence [of "''rtr-01''" "[demo_device (Fin 40) (Fin 40) (Fin 15) (Fin 0)]"]
  by simp

end
