(* ===== verification/Correlation.thy ===== *)
theory Correlation
  imports Telemetry Sha1
begin

text \<open>
  The correlation half of \<open>internal/incidents/incidents.go\<close>: the rule table, \<open>Correlate\<close> with
  its helpers \<open>maxLatency\<close>, \<open>maxLoss\<close>, \<open>dedupe\<close>, \<open>minF\<close>, \<open>round2\<close>, the neighbour heuristic
  (\<open>resolveNeighbors\<close>, \<open>numericSuffix\<close>) and the identifiers (\<open>occurrenceKey\<close>,
  \<open>NewIncidentID\<close>). The Go map \<open>byHost\<close> is a map, a \<open>map[string]bool\<close> that is only tested for
  membership is a set.
\<close>

datatype inc_severity = IncLow | IncMedium | IncHigh | IncCritical

record candidate =
  cd_occurrence_key :: string
  cd_root_cause :: string
  cd_severity :: inc_severity
  cd_affected_devices :: "string list"
  cd_confidence :: f64
  cd_sla_breach_minutes :: int
  cd_recommended_action :: string

record corr_rule =
  rl_root_cause :: string
  rl_severity :: inc_severity
  rl_sla_mins :: int
  rl_action :: string
  rl_matches :: "device_telemetry \<Rightarrow> device_telemetry list \<Rightarrow> bool"

section \<open>The rule table\<close>

text \<open>The running maximum of the Go loop: replaced only by a strictly larger value.\<close>

definition max_step :: "('a \<Rightarrow> f64) \<Rightarrow> 'a \<Rightarrow> f64 \<Rightarrow> f64" where
  "max_step f n m = (if m < f n then f n else m)"

fun max_latency :: "device_telemetry list \<Rightarrow> f64 \<Rightarrow> f64" where
  "max_latency [] fallback = fallback"
| "max_latency (n # ns) fallback = fold (max_step latency_ms) ns (latency_ms n)"

fun max_loss :: "device_telemetry list \<Rightarrow> f64 \<Rightarrow> f64" where
  "max_loss [] fallback = fallback"
| "max_loss (n # ns) fallback = fold (max_step packet_loss_percent) ns (packet_loss_percent n)"

definition rules :: "corr_rule list" where
  "rules =
    [\<lparr>rl_root_cause = ''Congestion Incident'', rl_severity = IncCritical, rl_sla_mins = 22,
      rl_action = ''Drain traffic from the affected path and apply QoS shaping.'',
      rl_matches = \<lambda>d n. role d = RoleRouter \<and> flit 95 < cpu_percent d \<and>
        flit 100 < max_latency n (latency_ms d) \<and> flit 5 < max_loss n (packet_loss_percent d)\<rparr>,
     \<lparr>rl_root_cause = ''Firewall Saturation'', rl_severity = IncHigh, rl_sla_mins = 18,
      rl_action = ''Move inspection-heavy flows to standby firewall and verify policy hit counters.'',
      rl_matches = \<lambda>d n. role d = RoleFirewall \<and>
        (flit 90 < cpu_percent d \<or> flit 92 < bandwidth_percent d) \<and> flit 90 < latency_ms d\<rparr>,
     \<lparr>rl_root_cause = ''Memory Leak'', rl_severity = IncHigh, rl_sla_mins = 22,
      rl_action = ''Fail over services, collect process table, and restart the affected network daemon.'',
      rl_matches = \<lambda>d n. flit 94 < memory_percent d \<and> flit 80 < cpu_percent d\<rparr>,
     \<lparr>rl_root_cause = ''Packet Loss Degradation'', rl_severity = IncHigh, rl_sla_mins = 22,
      rl_action = ''Check interface errors, optical levels, and upstream queue drops.'',
      rl_matches = \<lambda>d n. flit 7 < packet_loss_percent d \<and> flit 120 < latency_ms d\<rparr>,
     \<lparr>rl_root_cause = ''Switch Overheating'', rl_severity = IncHigh, rl_sla_mins = 12,
      rl_action = ''Shift access load, validate fan telemetry, and inspect rack airflow.'',
      rl_matches = \<lambda>d n. flit 84 < temperature_c d \<and> role d = RoleSwitch\<rparr>,
     \<lparr>rl_root_cause = ''BGP Edge Instability'', rl_severity = IncCritical, rl_sla_mins = 15,
      rl_action = ''Prefer secondary edge route, verify BGP timers, and compare route dampening events.'',
      rl_matches = \<lambda>d n. role d = RoleGateway \<and> flit 140 < latency_ms d \<and>
        flit 4 < packet_loss_percent d\<rparr>]"

section \<open>Neighbours\<close>

definition suffix_step :: "char \<Rightarrow> int \<times> bool \<Rightarrow> int \<times> bool" where
  "suffix_step c s =
     (if is_digit c then (wrap64 (fst s * 10 + int (digit_val c)), True) else s)"

definition numeric_suffix :: "string \<Rightarrow> int" where
  "numeric_suffix host =
     (let (n, found) = fold suffix_step host (0, False) in if found then n else 1)"

definition neighbor_prefixes :: "string list" where
  "neighbor_prefixes = [''rtr'', ''sw'', ''fw'', ''gw'']"

definition neighbor_offsets :: "int list" where
  "neighbor_offsets = [0, 1, -1]"

definition neighbor_name :: "int \<Rightarrow> string \<times> int \<Rightarrow> string" where
  "neighbor_name index po =
     (let i = wrap64 (index + snd po);
          j = (if i < 1 then 1 else i)
      in fst po @ ''-'' @ show_int0 2 j)"

definition neighbor_step ::
  "(string \<rightharpoonup> device_telemetry) \<Rightarrow> int \<Rightarrow> string \<times> int \<Rightarrow>
   device_telemetry list \<times> string set \<Rightarrow> device_telemetry list \<times> string set" where
  "neighbor_step by_host index po s =
     (let name = neighbor_name index po; (out, seen) = s in
      if name \<in> seen then (out, seen)
      else case by_host name of
        None \<Rightarrow> (out, seen)
      | Some n \<Rightarrow> (out @ [n], insert name seen))"

definition resolve_neighbors ::
  "device_telemetry \<Rightarrow> (string \<rightharpoonup> device_telemetry) \<Rightarrow> device_telemetry list" where
  "resolve_neighbors d by_host =
     fst (fold (neighbor_step by_host (numeric_suffix (hostname d)))
       (List.product neighbor_prefixes neighbor_offsets) ([], {hostname d}))"

section \<open>Correlate\<close>

definition by_host :: "device_telemetry list \<Rightarrow> (string \<rightharpoonup> device_telemetry)" where
  "by_host devices = fold (\<lambda>d m. m(hostname d \<mapsto> d)) devices Map.empty"

definition dedupe_step :: "string \<Rightarrow> string list \<times> string set \<Rightarrow> string list \<times> string set" where
  "dedupe_step v s = (if v \<in> snd s then s else (fst s @ [v], insert v (snd s)))"

definition dedupe :: "string list \<Rightarrow> string list" where
  "dedupe xs = fst (fold dedupe_step xs ([], {}))"

definition min_f :: "f64 \<Rightarrow> f64 \<Rightarrow> f64" where
  "min_f a b = (if a < b then a else b)"

definition round2 :: "f64 \<Rightarrow> f64" where
  "round2 v = f64_of_int (int_of_f64 (v * Fin 100 + flit (1 / 2))) / Fin 100"

definition occurrence_key :: "string \<Rightarrow> string \<Rightarrow> string" where
  "occurrence_key root_cause host = root_cause @ '':'' @ host"

definition rule_confidence :: "device_telemetry \<Rightarrow> f64" where
  "rule_confidence d =
     flit (78 / 100) + min_f (flit (18 / 100))
       ((cpu_percent d + latency_ms d / Fin 2 + packet_loss_percent d * Fin 6) / Fin 1000)"

definition candidate_of :: "corr_rule \<Rightarrow> device_telemetry \<Rightarrow> device_telemetry list \<Rightarrow> candidate" where
  "candidate_of r d neighbors =
     \<lparr>cd_occurrence_key = occurrence_key (rl_root_cause r) (hostname d),
      cd_root_cause = rl_root_cause r, cd_severity = rl_severity r,
      cd_affected_devices = dedupe (hostname d # map hostname (take 2 neighbors)),
      cd_confidence = round2 (rule_confidence d), cd_sla_breach_minutes = rl_sla_mins r,
      cd_recommended_action = rl_action r\<rparr>"

text \<open>The inner loop: \<open>continue\<close> on a rule that does not match, \<open>break\<close> after the first that does.\<close>

fun first_match :: "corr_rule list \<Rightarrow> device_telemetry \<Rightarrow> device_telemetry list \<Rightarrow> candidate option" where
  "first_match [] d neighbors = None"
| "first_match (r # rs) d neighbors =
     (if \<not> rl_matches r d neighbors then first_match rs d neighbors
      else Some (candidate_of r d neighbors))"

definition correlate :: "device_telemetry list \<Rightarrow> candidate list" where
  "correlate devices =
     List.map_filter
       (\<lambda>d. first_match rules d (resolve_neighbors d (by_host devices))) devices"

definition new_incident_id :: "string \<Rightarrow> int \<Rightarrow> gotime \<Rightarrow> string" where
  "new_incident_id key seq now =
     ''INC-'' @ take 6 (sha1_hex (key @ '':'' @ show_int seq @ '':'' @ show_int (unix_nano now)))
       @ ''-'' @ show_int0 6 seq"

section \<open>Helpers\<close>

lemma fold_max_step:
  assumes "\<forall>n \<in> set ns. finite64 (f n)" "finite64 m"
  shows "Fin a < fold (max_step f) ns m \<longleftrightarrow> Fin a < m \<or> (\<exists>n \<in> set ns. Fin a < f n)"
  using assms
proof (induction ns arbitrary: m)
  case (Cons n ns)
  from Cons.prems have fin: "finite64 (f n)" "finite64 (max_step f n m)"
    by (simp_all add: max_step_def)
  from finite64_Fin [OF fin(1)] finite64_Fin [OF Cons.prems(2)]
  have "Fin a < max_step f n m \<longleftrightarrow> Fin a < m \<or> Fin a < f n"
    by (auto simp: max_step_def)
  then show ?case using Cons.IH [OF _ fin(2)] Cons.prems(1) by auto
qed simp

lemma dedupe_fold:
  "distinct out \<Longrightarrow>
   distinct (fst (fold dedupe_step xs (out, set out))) \<and>
   set (fst (fold dedupe_step xs (out, set out))) = set out \<union> set xs"
proof (induction xs arbitrary: out)
  case (Cons x xs)
  show ?case
  proof (cases "x \<in> set out")
    case True
    then have "dedupe_step x (out, set out) = (out, set out)" by (simp add: dedupe_step_def)
    with Cons.IH [OF Cons.prems] True show ?thesis by auto
  next
    case False
    then have "dedupe_step x (out, set out) = (out @ [x], set (out @ [x]))" by (simp add: dedupe_step_def)
    with Cons.IH [of "out @ [x]"] Cons.prems False show ?thesis by auto
  qed
qed simp

lemma dedupe_distinct [simp]: "distinct (dedupe xs)" and set_dedupe [simp]: "set (dedupe xs) = set xs"
  using dedupe_fold [of "[]" xs] by (simp_all add: dedupe_def)

lemma dedupe_id: "distinct xs \<Longrightarrow> dedupe xs = xs"
proof -
  have "distinct (out @ xs) \<Longrightarrow> fst (fold dedupe_step xs (out, set out)) = out @ xs" for out
  proof (induction xs arbitrary: out)
    case (Cons x xs)
    then have "fold dedupe_step (x # xs) (out, set out) = fold dedupe_step xs (out @ [x], set (out @ [x]))"
      by (simp add: dedupe_step_def)
    with Cons.IH [of "out @ [x]"] Cons.prems show ?case by simp
  qed simp
  from this [of "[]"] show "distinct xs \<Longrightarrow> dedupe xs = xs" by (simp add: dedupe_def)
qed

lemma by_host_Some:
  "by_host devices h = Some d \<Longrightarrow> d \<in> set devices \<and> hostname d = h"
proof -
  have "fold (\<lambda>d m. m(hostname d \<mapsto> d)) devices m h = Some d \<Longrightarrow>
      m h = Some d \<or> d \<in> set devices \<and> hostname d = h" for m
    by (induction devices arbitrary: m) (fastforce split: if_splits)+
  from this [of Map.empty] show "by_host devices h = Some d \<Longrightarrow> d \<in> set devices \<and> hostname d = h"
    by (simp add: by_host_def)
qed

lemma by_host_distinct:
  assumes "distinct (map hostname devices)" "d \<in> set devices"
  shows "by_host devices (hostname d) = Some d"
proof -
  have keep: "h \<notin> hostname ` set ds \<Longrightarrow> fold (\<lambda>d m. m(hostname d \<mapsto> d)) ds m h = m h" for ds m h
    by (induction ds arbitrary: m) auto
  have "distinct (map hostname ds) \<Longrightarrow> d \<in> set ds \<Longrightarrow>
      fold (\<lambda>d m. m(hostname d \<mapsto> d)) ds m (hostname d) = Some d" for ds m
    by (induction ds arbitrary: m) (auto simp: keep)
  then show ?thesis using assms by (simp add: by_host_def)
qed

section \<open>The neighbour heuristic\<close>

lemma neighbor_step_seen:
  assumes "m = by_host devices"
  shows "\<exists>out'.
    neighbor_step m i po (out, insert h (hostname ` set out)) = (out', insert h (hostname ` set out')) \<and>
    (distinct (map hostname out) \<and> h \<notin> hostname ` set out \<longrightarrow>
      distinct (map hostname out') \<and> h \<notin> hostname ` set out') \<and>
    set out' = set out \<union> {n. m (neighbor_name i po) = Some n \<and> hostname n \<noteq> h \<and>
      hostname n \<notin> hostname ` set out}"
proof -
  let ?name = "neighbor_name i po"
  have name: "m ?name = Some n \<Longrightarrow> hostname n = ?name" for n
    using by_host_Some [of devices ?name n] assms by simp
  show ?thesis
  proof (cases "?name \<in> insert h (hostname ` set out) \<or> m ?name = None")
    case True
    then show ?thesis
      by (intro exI [of _ out])
        (auto simp: neighbor_step_def Let_def dest: name intro: rev_image_eqI split: option.splits)
  next
    case False
    then obtain n where n: "m ?name = Some n" "?name \<noteq> h" "?name \<notin> hostname ` set out" by auto
    then show ?thesis using name [OF n(1)]
      by (intro exI [of _ "out @ [n]"]) (auto simp: neighbor_step_def Let_def intro: rev_image_eqI)
  qed
qed

lemma neighbor_fold:
  assumes "m = by_host devices" "distinct (map hostname out)" "h \<notin> hostname ` set out"
  shows "distinct (map hostname (fst (fold (neighbor_step m i) pos (out, insert h (hostname ` set out))))) \<and>
    hostname ` set (fst (fold (neighbor_step m i) pos (out, insert h (hostname ` set out)))) =
      hostname ` set out \<union> {x. x \<noteq> h \<and> x \<in> neighbor_name i ` set pos \<and> m x \<noteq> None} \<and>
    set (fst (fold (neighbor_step m i) pos (out, insert h (hostname ` set out)))) \<subseteq>
      set out \<union> {n. m (hostname n) = Some n}"
  using assms(2,3)
proof (induction pos arbitrary: out)
  case (Cons po pos)
  obtain out' where
    "neighbor_step m i po (out, insert h (hostname ` set out)) = (out', insert h (hostname ` set out')) \<and>
    (distinct (map hostname out) \<and> h \<notin> hostname ` set out \<longrightarrow>
      distinct (map hostname out') \<and> h \<notin> hostname ` set out') \<and>
    set out' = set out \<union> {n. m (neighbor_name i po) = Some n \<and> hostname n \<noteq> h \<and>
      hostname n \<notin> hostname ` set out}"
    using neighbor_step_seen [OF assms(1), of i po out h] by (rule exE)
  note o = this [THEN conjunct1] this [THEN conjunct2, THEN conjunct1]
    this [THEN conjunct2, THEN conjunct2]
  have name: "m x = Some n \<Longrightarrow> hostname n = x" for n x
    using by_host_Some [of devices x n] assms(1) by simp
  have h': "hostname ` set out' =
      hostname ` set out \<union> {x. x \<noteq> h \<and> x = neighbor_name i po \<and> m x \<noteq> None}"
  proof (cases "m (neighbor_name i po)")
    case None
    then show ?thesis unfolding o(3) by auto
  next
    case (Some n)
    then have n: "hostname n = neighbor_name i po" by (rule name)
    show ?thesis
    proof (cases "hostname n \<noteq> h \<and> hostname n \<notin> hostname ` set out")
      case True
      then have "{n'. Some n = Some n' \<and> hostname n' \<noteq> h \<and> hostname n' \<notin> hostname ` set out} = {n}" by blast
      then have "set out' = insert n (set out)" unfolding o(3) Some by (simp only:) simp
      moreover have "{x. x \<noteq> h \<and> x = neighbor_name i po \<and> m x \<noteq> None} = {hostname n}"
        using True Some n by auto
      ultimately show ?thesis by simp
    next
      case False
      then have "{n'. Some n = Some n' \<and> hostname n' \<noteq> h \<and> hostname n' \<notin> hostname ` set out} = {}" by blast
      then have "set out' = set out" unfolding o(3) Some by (simp only: Un_empty_right)
      moreover have "{x. x \<noteq> h \<and> x = neighbor_name i po \<and> m x \<noteq> None} \<subseteq> hostname ` set out"
        using False unfolding n by blast
      ultimately show ?thesis by blast
    qed
  qed
  have "set out' \<subseteq> set out \<union> {n. m (hostname n) = Some n}"
    unfolding o(3) using name by auto
  moreover have "distinct (map hostname out')" "h \<notin> hostname ` set out'" using o(2) Cons.prems by auto
  note Cons.IH [OF this]
  ultimately show ?case
    unfolding fold_simps o(1) h' by (simp only: list.set image_insert) blast
qed auto

lemma neighbors_characterised:
  fixes devices :: "device_telemetry list" and d :: device_telemetry
  defines "ns \<equiv> resolve_neighbors d (by_host devices)"
  shows "distinct (map hostname ns)" "hostname d \<notin> hostname ` set ns"
    "hostname ` set ns = {x. x \<noteq> hostname d \<and> by_host devices x \<noteq> None \<and>
       x \<in> neighbor_name (numeric_suffix (hostname d)) ` (set neighbor_prefixes \<times> {0, 1, -1})}"
    "n \<in> set ns \<Longrightarrow> by_host devices (hostname n) = Some n"
proof -
  have f: "distinct (map hostname ns) \<and> hostname ` set ns = {x. x \<noteq> hostname d \<and>
        x \<in> neighbor_name (numeric_suffix (hostname d)) ` (set neighbor_prefixes \<times> {0, 1, -1}) \<and>
        by_host devices x \<noteq> None} \<and>
      set ns \<subseteq> {n. by_host devices (hostname n) = Some n}"
    using neighbor_fold [OF refl, of "[]" "hostname d" devices "numeric_suffix (hostname d)"
      "List.product neighbor_prefixes neighbor_offsets"]
    unfolding ns_def resolve_neighbors_def by (simp add: neighbor_offsets_def)
  then show "distinct (map hostname ns)" by blast
  show s: "hostname ` set ns = {x. x \<noteq> hostname d \<and> by_host devices x \<noteq> None \<and>
      x \<in> neighbor_name (numeric_suffix (hostname d)) ` (set neighbor_prefixes \<times> {0, 1, -1})}"
    using f by blast
  show "hostname d \<notin> hostname ` set ns" unfolding s by simp
  show "by_host devices (hostname n) = Some n" if "n \<in> set ns"
    using f that by blast
qed

definition canonical_host :: "string \<Rightarrow> int \<Rightarrow> string" where
  "canonical_host p i = p @ ''-'' @ show_int0 2 i"

lemma digits_val_ge: "digits_val acc ds = Some v \<Longrightarrow> acc \<le> v"
  by (induction acc ds rule: digits_val.induct) (auto split: if_splits)

lemma fold_suffix_digits:
  "digits_val acc ds = Some v \<Longrightarrow> int v < 2 ^ 63 \<Longrightarrow>
   fold suffix_step ds (int acc, b) = (int v, b \<or> ds \<noteq> [])"
proof (induction acc ds arbitrary: b rule: digits_val.induct)
  case (2 acc c cs)
  then have c: "is_digit c" "digits_val (acc * 10 + digit_val c) cs = Some v" by (auto split: if_splits)
  from digits_val_ge [OF c(2)] 2(3) have "in_int64 (int acc * 10 + int (digit_val c))" by simp
  then have "suffix_step c (int acc, b) = (int (acc * 10 + digit_val c), True)"
    using c(1) by (simp add: suffix_step_def)
  with 2(1) [OF c(1,2) 2(3)] show ?case by simp
qed simp

lemma numeric_suffix_canonical:
  assumes "p \<in> set neighbor_prefixes" "0 \<le> i" "i < 2 ^ 63"
  shows "numeric_suffix (canonical_host p i) = i"
proof -
  have "fold suffix_step (p @ ''-'') (0, False) = (0, False)"
    using assms(1) by (auto simp: neighbor_prefixes_def suffix_step_def is_digit_def)
  moreover have "fold suffix_step (pad0 2 (show_nat (nat i))) (int 0, False) = (int (nat i), True)"
    using fold_suffix_digits [OF digits_val_pad0, of "nat i" 2 False] assms by (simp add: pad0_def)
  ultimately show ?thesis
    using assms by (simp add: numeric_suffix_def canonical_host_def show_int0_def)
qed

lemma canonical_host_inject:
  assumes "p \<in> set neighbor_prefixes" "q \<in> set neighbor_prefixes" "0 \<le> i" "0 \<le> j"
  shows "canonical_host p i = canonical_host q j \<longleftrightarrow> p = q \<and> i = j"
proof -
  have d: "digits_val 0 (show_int0 2 k) = Some (nat k)" if "0 \<le> k" for k
    using that by (simp add: show_int0_def digits_val_pad0)
  have num: "i = j" if "show_int0 2 i = show_int0 2 j"
    using arg_cong [OF that, of "digits_val 0"] unfolding d [OF assms(3)] d [OF assms(4)]
    using assms(3,4) by simp
  have "p = q \<and> a = b" if "p @ ''-'' @ a = q @ ''-'' @ b" for a b
  proof -
    have "takeWhile (\<lambda>c. c \<noteq> CHR ''-'') (p @ ''-'' @ a) = p" "takeWhile (\<lambda>c. c \<noteq> CHR ''-'') (q @ ''-'' @ b) = q"
      using assms(1,2) by (auto simp: neighbor_prefixes_def)
    with that have "p = q" by simp
    with that show ?thesis by simp
  qed
  then show ?thesis unfolding canonical_host_def using num by metis
qed

lemma neighbor_name_canonical:
  assumes "1 \<le> i" "i < 2 ^ 63 - 1" "off \<in> {0, 1, -1}"
  shows "neighbor_name i (p, off) = canonical_host p (max 1 (i + off))"
proof -
  have "in_int64 (i + off)" using assms by auto
  then show ?thesis by (auto simp: neighbor_name_def canonical_host_def Let_def max_def)
qed

text \<open>
  C9: On a fleet whose hosts are named by the convention (prefix rtr, sw, fw or gw and a number of
  at least 1, printed with two digits or more) the neighbours of a device are exactly the other
  devices of the fleet whose numbers differ by at most 1; adjacency is therefore symmetric.
\<close>

theorem neighbors_adjacent:
  assumes "distinct (map hostname devices)" "d \<in> set devices" "e \<in> set devices" "d \<noteq> e"
    and "p \<in> set neighbor_prefixes" "1 \<le> i" "i < 2 ^ 63 - 1" "hostname d = canonical_host p i"
    and "q \<in> set neighbor_prefixes" "1 \<le> j" "j < 2 ^ 63 - 1" "hostname e = canonical_host q j"
  shows "(e \<in> set (resolve_neighbors d (by_host devices)) \<longleftrightarrow> \<bar>i - j\<bar> \<le> 1) \<and>
    (e \<in> set (resolve_neighbors d (by_host devices)) \<longleftrightarrow>
     d \<in> set (resolve_neighbors e (by_host devices)))"
proof -
  have adj: "y \<in> set (resolve_neighbors x (by_host devices)) \<longleftrightarrow> \<bar>k - l\<bar> \<le> 1"
    if "x \<in> set devices" "y \<in> set devices" "x \<noteq> y" "1 \<le> k" "k < 2 ^ 63 - 1" "1 \<le> l"
      "pk \<in> set neighbor_prefixes" "pl \<in> set neighbor_prefixes"
      "hostname x = canonical_host pk k" "hostname y = canonical_host pl l" for x y k l pk pl
  proof -
    note c = neighbors_characterised [where d = x and devices = devices]
    have y: "by_host devices (hostname y) = Some y" by (rule by_host_distinct [OF assms(1) that(2)])
    have ne: "hostname y \<noteq> hostname x"
      using assms(1) that(1-3) by (auto simp: distinct_map inj_on_def)
    have num: "numeric_suffix (hostname x) = k"
      unfolding that(9) by (rule numeric_suffix_canonical) (use that in auto)
    have "y \<in> set (resolve_neighbors x (by_host devices)) \<longleftrightarrow>
        hostname y \<in> hostname ` set (resolve_neighbors x (by_host devices))"
      using c(4) y by force
    also have "\<dots> \<longleftrightarrow> (\<exists>p' \<in> set neighbor_prefixes. \<exists>off \<in> {0, 1, -1}. hostname y = neighbor_name k (p', off))"
      unfolding c(3) num using ne y by (auto simp del: insert_iff)
    also have "\<dots> \<longleftrightarrow> (\<exists>p' \<in> set neighbor_prefixes. \<exists>off \<in> {0, 1, -1}.
        canonical_host pl l = canonical_host p' (max 1 (k + off)))"
      using neighbor_name_canonical [OF that(4,5)] unfolding that(10) by (metis (no_types))
    also have "\<dots> \<longleftrightarrow> (\<exists>p' \<in> set neighbor_prefixes. \<exists>off \<in> {0, 1, -1}. pl = p' \<and> l = max 1 (k + off))"
      using canonical_host_inject [OF that(8)] that(6) by (intro bex_cong refl) auto
    also have "\<dots> \<longleftrightarrow> \<bar>k - l\<bar> \<le> 1" using that(4,6,8) by auto
    finally show ?thesis .
  qed
  show ?thesis
    using adj [of d e i j p q] adj [of e d j i q p] assms by (auto simp: abs_minus_commute)
qed

theorem neighbors_adjacent_witness:
  "(demo_device (Fin 40) (Fin 40) (Fin 15) (Fin 0))\<lparr>hostname := ''sw-02''\<rparr> \<in>
     set (resolve_neighbors (demo_device (Fin 40) (Fin 40) (Fin 15) (Fin 0))
       (by_host [demo_device (Fin 40) (Fin 40) (Fin 15) (Fin 0),
                 (demo_device (Fin 40) (Fin 40) (Fin 15) (Fin 0))\<lparr>hostname := ''sw-02''\<rparr>]))"
proof -
  let ?d = "demo_device (Fin 40) (Fin 40) (Fin 15) (Fin 0)"
  let ?e = "?d\<lparr>hostname := ''sw-02''\<rparr>"
  have h: "hostname ?d = canonical_host ''rtr'' 1" "hostname ?e = canonical_host ''sw'' 2"
    by code_simp+
  have n: "?d \<noteq> ?e" "distinct (map hostname [?d, ?e])" by (simp_all add: demo_device_def)
  show ?thesis
    using neighbors_adjacent [OF n(2) _ _ n(1) _ _ _ h(1) _ _ _ h(2)]
    by (simp add: neighbor_prefixes_def)
qed

section \<open>What Correlate reports\<close>

text \<open>The fault a device shows, as a decision list over the compared numbers.\<close>

definition fault_of :: "device_telemetry list \<Rightarrow> device_telemetry \<Rightarrow> (string \<times> inc_severity) option" where
  "fault_of ns d =
     (if role d = ''router'' \<and> Fin 95 < cpu_percent d \<and>
         (if ns = [] then Fin 100 < latency_ms d \<and> Fin 5 < packet_loss_percent d
          else (\<exists>n \<in> set ns. Fin 100 < latency_ms n) \<and> (\<exists>n \<in> set ns. Fin 5 < packet_loss_percent n))
      then Some (''Congestion Incident'', IncCritical)
      else if role d = ''firewall'' \<and> (Fin 90 < cpu_percent d \<or> Fin 92 < bandwidth_percent d) \<and>
         Fin 90 < latency_ms d then Some (''Firewall Saturation'', IncHigh)
      else if Fin 94 < memory_percent d \<and> Fin 80 < cpu_percent d then Some (''Memory Leak'', IncHigh)
      else if Fin 7 < packet_loss_percent d \<and> Fin 120 < latency_ms d
        then Some (''Packet Loss Degradation'', IncHigh)
      else if Fin 84 < temperature_c d \<and> role d = ''switch'' then Some (''Switch Overheating'', IncHigh)
      else if role d = ''gateway'' \<and> Fin 140 < latency_ms d \<and> Fin 4 < packet_loss_percent d
        then Some (''BGP Edge Instability'', IncCritical)
      else None)"

lemma flit_rule_thresholds [f64_simps]:
  "flit 95 = Fin 95" "flit 100 = Fin 100" "flit 5 = Fin 5" "flit 90 = Fin 90" "flit 92 = Fin 92"
  "flit 94 = Fin 94" "flit 80 = Fin 80" "flit 7 = Fin 7" "flit 120 = Fin 120" "flit 84 = Fin 84"
  "flit 140 = Fin 140" "flit 4 = Fin 4"
  by (simp_all add: flit_def f64_simps)

lemma max_latency_less:
  "\<forall>n \<in> set ns. finite_sample n \<Longrightarrow>
   Fin a < max_latency ns fb \<longleftrightarrow> (if ns = [] then Fin a < fb else \<exists>n \<in> set ns. Fin a < latency_ms n)"
  using fold_max_step [of "tl ns" latency_ms "latency_ms (hd ns)" a]
  by (cases ns) (auto simp del: less_f64_def simp: finite_sample_def)

lemma max_loss_less:
  "\<forall>n \<in> set ns. finite_sample n \<Longrightarrow>
   Fin a < max_loss ns fb \<longleftrightarrow> (if ns = [] then Fin a < fb else \<exists>n \<in> set ns. Fin a < packet_loss_percent n)"
  using fold_max_step [of "tl ns" packet_loss_percent "packet_loss_percent (hd ns)" a]
  by (cases ns) (auto simp del: less_f64_def simp: finite_sample_def)

lemma first_match_fault:
  assumes "\<forall>n \<in> set ns. finite_sample n"
  shows "map_option (\<lambda>c. (cd_root_cause c, cd_severity c)) (first_match rules d ns) = fault_of ns d"
proof -
  have mo: "map_option (\<lambda>c. (cd_root_cause c, cd_severity c)) (if \<not> A then x else Some (candidate_of r d ns)) =
      (if A then Some (rl_root_cause r, rl_severity r)
       else map_option (\<lambda>c. (cd_root_cause c, cd_severity c)) x)" for A x r
    by (simp add: candidate_of_def)
  have ifs: "((if ns = [] then a else b) \<and> (if ns = [] then a' else b')) = (if ns = [] then a \<and> a' else b \<and> b')"
    for a b a' b' by simp
  show ?thesis
    unfolding rules_def first_match.simps mo fault_of_def
    by (simp only: corr_rule.simps flit_rule_thresholds role_defs option.map
        max_latency_less [OF assms] max_loss_less [OF assms] ifs)
qed

lemma first_match_candidate:
  "first_match rs d ns = Some c \<Longrightarrow> \<exists>r \<in> set rs. c = candidate_of r d ns"
  by (induction rs) (auto split: if_splits)

lemma neighbors_in_fleet:
  "n \<in> set (resolve_neighbors d (by_host devices)) \<Longrightarrow> n \<in> set devices"
  using neighbors_characterised(4) [of n d devices] by_host_Some by blast

lemma candidate_affected:
  "cd_affected_devices (candidate_of r d (resolve_neighbors d (by_host devices))) =
   hostname d # map hostname (take 2 (resolve_neighbors d (by_host devices)))"
proof -
  let ?ns = "resolve_neighbors d (by_host devices)"
  have "distinct (hostname d # map hostname (take 2 ?ns))"
    using neighbors_characterised(1,2) [where d = d and devices = devices]
    by (auto simp: distinct_take simp flip: take_map dest: in_set_takeD)
  then show ?thesis by (simp add: candidate_of_def dedupe_id)
qed

lemma map_filter_map_option:
  "map g (List.map_filter f xs) = List.map_filter (\<lambda>x. map_option g (f x)) xs"
  by (induction xs) (auto simp: List.map_filter_simps split: option.splits)

lemma map_filter_cong_set:
  "(\<And>x. x \<in> set xs \<Longrightarrow> f x = g x) \<Longrightarrow> List.map_filter f xs = List.map_filter g xs"
  by (induction xs) (auto simp: List.map_filter_simps split: option.splits)

text \<open>
  C4: On decoded telemetry the table-driven loop with its running maxima reports, device by device
  and in order, exactly the fault of the decision list: the key is the fault's name and the
  host, and the affected devices are the host itself followed by its first two neighbours.
\<close>

theorem correlate_faults:
  assumes "\<forall>d \<in> set devices. finite_sample d"
  shows "map (\<lambda>c. (cd_occurrence_key c, cd_severity c, cd_affected_devices c)) (correlate devices) =
    List.map_filter (\<lambda>d. let ns = resolve_neighbors d (by_host devices) in
      map_option (\<lambda>(cause, sev).
        (cause @ '':'' @ hostname d, sev, hostname d # map hostname (take 2 ns))) (fault_of ns d)) devices"
  unfolding correlate_def map_filter_map_option
proof (rule map_filter_cong_set)
  fix d assume "d \<in> set devices"
  let ?ns = "resolve_neighbors d (by_host devices)"
  have fin: "\<forall>n \<in> set ?ns. finite_sample n" using assms neighbors_in_fleet by blast
  show "map_option (\<lambda>c. (cd_occurrence_key c, cd_severity c, cd_affected_devices c)) (first_match rules d ?ns) =
    (let ns = ?ns in map_option (\<lambda>(cause, sev).
        (cause @ '':'' @ hostname d, sev, hostname d # map hostname (take 2 ns))) (fault_of ns d))"
  proof (cases "first_match rules d ?ns")
    case None
    then show ?thesis using first_match_fault [OF fin, of d] by (auto simp: Let_def)
  next
    case (Some c)
    then obtain r where r: "c = candidate_of r d ?ns" using first_match_candidate by blast
    have "fault_of ?ns d = Some (cd_root_cause c, cd_severity c)"
      using first_match_fault [OF fin, of d] Some by simp
    moreover have "cd_occurrence_key c = cd_root_cause c @ '':'' @ hostname d"
      by (simp add: r candidate_of_def occurrence_key_def)
    ultimately show ?thesis using Some candidate_affected by (simp add: r Let_def)
  qed
qed

lemma no_neighbors_singleton [simp]: "resolve_neighbors d (by_host [d]) = []"
proof -
  have "n \<notin> set (resolve_neighbors d (by_host [d]))" for n
    using neighbors_in_fleet [of n d "[d]"] neighbors_characterised(2) [where d = d and devices = "[d]"]
    by auto
  then show ?thesis by (meson last_in_set)
qed

theorem correlate_faults_witness:
  "map (\<lambda>c. (cd_occurrence_key c, cd_severity c, cd_affected_devices c))
     (correlate [demo_device (Fin 85) (Fin 95) (Fin 15) (Fin 0)]) =
   [(''Memory Leak:rtr-01'', IncHigh, [''rtr-01''])]"
proof -
  have fin: "\<forall>d \<in> set [demo_device (Fin 85) (Fin 95) (Fin 15) (Fin 0)]. finite_sample d"
    by (simp add: f64_simps)
  show ?thesis
    unfolding correlate_faults [OF fin]
    by (simp add: List.map_filter_simps fault_of_def Let_def) (simp add: demo_device_def role_defs)
qed

lemma correlate_cases:
  assumes "c \<in> set (correlate devices)"
  obtains d r where "d \<in> set devices" "c = candidate_of r d (resolve_neighbors d (by_host devices))"
proof -
  from assms obtain d where "d \<in> set devices"
      "first_match rules d (resolve_neighbors d (by_host devices)) = Some c"
    by (auto simp: correlate_def List.map_filter_def)
  then show thesis using first_match_candidate that by blast
qed

lemma rnd_between:
  assumes "of_int a * 2 powi - 10 \<le> x" "x \<le> of_int b * 2 powi - 10" "\<bar>a\<bar> \<le> 2 ^ 50" "\<bar>b\<bar> \<le> 2 ^ 50"
  obtains y where "rnd x = Fin y" "of_int a * 2 powi - 10 \<le> y" "y \<le> of_int b * 2 powi - 10"
proof -
  have "\<bar>a\<bar> \<le> 2 ^ 53" "\<bar>b\<bar> \<le> 2 ^ 53" using assms(3,4) by simp_all
  then have "rnd (of_int a * 2 powi - 10) = Fin (of_int a * 2 powi - 10)"
      "rnd (of_int b * 2 powi - 10) = Fin (of_int b * 2 powi - 10)"
    by (intro rnd_exact; simp)+
  with rnd_mono [OF assms(1)] rnd_mono [OF assms(2)] show thesis
    by (cases "rnd x") (auto intro: that)
qed

lemma rule_confidence_range:
  assumes "sample_ok d"
  obtains q where "rule_confidence d = Fin q" "798 / 1024 \<le> q" "q \<le> 984 / 1024"
proof -
  define x where "x = (cpu_percent d + latency_ms d / Fin 2 + packet_loss_percent d * Fin 6) / Fin 1000"
  have "Fin 0 \<le> cpu_percent d" "Fin 0 \<le> latency_ms d" "Fin 0 \<le> packet_loss_percent d"
    using sample_okD [OF assms] by auto
  then have x: "Fin 0 \<le> x" unfolding x_def by (intro f64_nonneg) auto
  obtain a where a: "flit (78 / 100) = Fin a" "798 / 1024 \<le> a" "a \<le> 799 / 1024"
    using rnd_between [of 798 "78 / 100" 799] by (auto simp: flit_def power_int_minus)
  obtain b where b: "flit (18 / 100) = Fin b" "0 \<le> b" "b \<le> 185 / 1024"
    using rnd_between [of 0 "18 / 100" 185] by (auto simp: flit_def power_int_minus)
  have "\<exists>m. min_f (Fin b) x = Fin m \<and> 0 \<le> m \<and> m \<le> 185 / 1024"
    using x b(2,3) by (cases x) (auto simp: min_f_def)
  then obtain m where m: "min_f (Fin b) x = Fin m" "0 \<le> m" "m \<le> 185 / 1024" by blast
  obtain q where "rnd (a + m) = Fin q" "798 / 1024 \<le> q" "q \<le> 984 / 1024"
    using rnd_between [of 798 "a + m" 984] a m by (auto simp: power_int_minus)
  moreover have "rule_confidence d = rnd (a + m)"
    unfolding rule_confidence_def x_def [symmetric] a(1) b(1) m(1) by simp
  ultimately show thesis using that by simp
qed

text \<open>
  Every candidate correlated from validated telemetry has a confidence of whole percents between
  0.78 and 0.96, however large the latencies and losses are.
\<close>

lemma correlate_confidence:
  assumes "\<forall>d \<in> set devices. finite_sample d \<and> validate d = None" "c \<in> set (correlate devices)"
  shows "\<exists>k :: int. 78 \<le> k \<and> k \<le> 96 \<and> cd_confidence c = rnd (of_int k / 100)"
proof -
  from assms(2) obtain d r where d: "d \<in> set devices"
      "c = candidate_of r d (resolve_neighbors d (by_host devices))"
    by (rule correlate_cases)
  with assms(1) have "sample_ok d" using validate_None_iff by blast
  then obtain q where q: "rule_confidence d = Fin q" "798 / 1024 \<le> q" "q \<le> 984 / 1024"
    by (rule rule_confidence_range)
  obtain y where y: "rnd (q * 100) = Fin y" "79360 / 1024 \<le> y" "y \<le> 98560 / 1024"
    using rnd_between [of 79360 "q * 100" 98560] q by (auto simp: power_int_minus)
  obtain z where z: "rnd (y + 1 / 2) = Fin z" "79872 / 1024 \<le> z" "z \<le> 99072 / 1024"
    using rnd_between [of 79872 "y + 1 / 2" 99072] y by (auto simp: power_int_minus)
  define k where "k = \<lfloor>z\<rfloor>"
  have k: "78 \<le> k" "k \<le> 96" using z(2,3) unfolding k_def by linarith+
  have "int_of_f64 (Fin z) = k" using z(2) k by (simp add: truncq_def k_def Let_def)
  moreover have "flit (1 / 2) = Fin (1 / 2)" by (simp add: flit_def f64_simps)
  moreover have "f64_of_int k = Fin (of_int k)"
    unfolding f64_of_int_def by (rule rnd_of_int_small) (use k in simp)
  ultimately have "round2 (Fin q) = rnd (of_int k / 100)"
    by (simp add: round2_def y(1) z(1))
  then show ?thesis using k q(1) d(2) by (auto simp: candidate_of_def)
qed

lemma demo_device_validates:
  "0 \<le> c \<Longrightarrow> c \<le> 100 \<Longrightarrow> 0 \<le> m \<Longrightarrow> m \<le> 100 \<Longrightarrow> 0 \<le> l \<Longrightarrow> 0 \<le> p \<Longrightarrow>
   finite_sample (demo_device (Fin c) (Fin m) (Fin l) (Fin p)) \<Longrightarrow>
   validate (demo_device (Fin c) (Fin m) (Fin l) (Fin p)) = None"
  by (simp add: validate_None_iff demo_device_ok)

lemma correlate_confidence_witness:
  "\<exists>c. correlate [demo_device (Fin 85) (Fin 95) (Fin 15) (Fin 0)] = [c] \<and>
     (\<exists>k :: int. 78 \<le> k \<and> k \<le> 96 \<and> cd_confidence c = rnd (of_int k / 100))"
proof -
  let ?ds = "[demo_device (Fin 85) (Fin 95) (Fin 15) (Fin 0)]"
  have ok: "\<forall>d \<in> set ?ds. finite_sample d \<and> validate d = None"
    using demo_device_validates [of 85 95 15 0] by (simp add: f64_simps)
  have "first_match rules (hd ?ds) [] \<noteq> None"
    using first_match_fault [of "[]" "hd ?ds"]
    by (auto simp add: fault_of_def demo_device_def role_defs)
  then obtain c where "correlate ?ds = [c]" by (auto simp: correlate_def List.map_filter_simps)
  with correlate_confidence [OF ok, of c] show ?thesis by simp
qed

text \<open>
  C10: In a batch whose hosts are distinct the candidates never collide: their occurrence keys are
  distinct, there is at most one candidate per device, and the affected devices of every candidate are
  one to three distinct hosts of the batch, the faulty host first. A batch that names a host twice,
  which the API accepts, is not meant: both samples can then yield the same key, and the second
  upsert finds the incident of the first active.
\<close>

theorem correlate_keys_distinct:
  assumes "distinct (map hostname devices)"
  shows "distinct (map cd_occurrence_key (correlate devices)) \<and>
    length (correlate devices) \<le> length devices \<and>
    (\<forall>c \<in> set (correlate devices). distinct (cd_affected_devices c) \<and>
       length (cd_affected_devices c) \<in> {1..3} \<and> set (cd_affected_devices c) \<subseteq> hostname ` set devices \<and>
       cd_occurrence_key c = cd_root_cause c @ '':'' @ hd (cd_affected_devices c))"
proof (intro conjI ballI)
  have colon: "r \<in> set rules \<Longrightarrow> CHR '':'' \<notin> set (rl_root_cause r)" for r
    by (auto simp: rules_def)
  have key: "h = h'" if "occurrence_key (rl_root_cause r) h = occurrence_key (rl_root_cause r') h'"
      "r \<in> set rules" "r' \<in> set rules" for r r' h h'
    using that(1) append_separator_inject [OF colon [OF that(2)] colon [OF that(3)]]
    by (simp add: occurrence_key_def)
  have "distinct (map cd_occurrence_key (List.map_filter (\<lambda>d. first_match rules d (f d)) ds)) \<and>
      (\<forall>c \<in> set (List.map_filter (\<lambda>d. first_match rules d (f d)) ds).
        \<exists>r \<in> set rules. \<exists>d \<in> set ds. cd_occurrence_key c = occurrence_key (rl_root_cause r) (hostname d))"
    if "distinct (map hostname ds)" for f ds
    using that
  proof (induction ds)
    case (Cons d ds)
    then show ?case
    proof (cases "first_match rules d (f d)")
      case (Some c)
      then obtain r where r: "r \<in> set rules" "cd_occurrence_key c = occurrence_key (rl_root_cause r) (hostname d)"
        using first_match_candidate by (fastforce simp: candidate_of_def)
      then have "cd_occurrence_key c \<notin> cd_occurrence_key ` set (List.map_filter (\<lambda>d. first_match rules d (f d)) ds)"
        using Cons key by (fastforce simp: image_iff)
      moreover have "\<forall>c \<in> set (List.map_filter (\<lambda>d. first_match rules d (f d)) (d # ds)).
          \<exists>r \<in> set rules. \<exists>d \<in> set (d # ds). cd_occurrence_key c = occurrence_key (rl_root_cause r) (hostname d)"
        using Cons r Some by (fastforce simp: List.map_filter_simps)
      ultimately show ?thesis using Cons Some by (simp add: List.map_filter_simps)
    qed (fastforce simp: List.map_filter_simps)
  qed (simp add: List.map_filter_simps)
  then show "distinct (map cd_occurrence_key (correlate devices))"
    using assms by (simp add: correlate_def)
  show "length (correlate devices) \<le> length devices"
    by (simp add: correlate_def List.map_filter_def)
next
  fix c assume "c \<in> set (correlate devices)"
  then obtain d r where d: "d \<in> set devices" "c = candidate_of r d (resolve_neighbors d (by_host devices))"
    by (rule correlate_cases)
  note a = candidate_affected [of r d devices, folded d(2)]
  show "distinct (cd_affected_devices c)" by (simp add: d(2) candidate_of_def)
  show "length (cd_affected_devices c) \<in> {1..3}" unfolding a by simp
  show "set (cd_affected_devices c) \<subseteq> hostname ` set devices"
    unfolding a using d(1) neighbors_in_fleet by (auto dest: in_set_takeD)
  show "cd_occurrence_key c = cd_root_cause c @ '':'' @ hd (cd_affected_devices c)"
    unfolding a by (simp add: d(2) candidate_of_def occurrence_key_def)
qed

theorem correlate_keys_distinct_witness:
  "distinct (map cd_occurrence_key (correlate
     [demo_device (Fin 85) (Fin 95) (Fin 15) (Fin 0),
      (demo_device (Fin 85) (Fin 95) (Fin 15) (Fin 0))\<lparr>hostname := ''sw-02''\<rparr>]))"
proof -
  have "distinct (map hostname [demo_device (Fin 85) (Fin 95) (Fin 15) (Fin 0),
      (demo_device (Fin 85) (Fin 95) (Fin 15) (Fin 0))\<lparr>hostname := ''sw-02''\<rparr>])"
    by (simp add: demo_device_def)
  from correlate_keys_distinct [OF this] show ?thesis by blast
qed

section \<open>Incident identifiers\<close>

lemma show_int0_inject:
  assumes "0 \<le> i" "0 \<le> j" "show_int0 w i = show_int0 w j" shows "i = j"
proof -
  have d: "digits_val 0 (show_int0 w k) = Some (nat k)" if "0 \<le> k" for k
    using that by (simp add: show_int0_def digits_val_pad0)
  show ?thesis using arg_cong [OF assms(3), of "digits_val 0"] assms(1,2) by (simp add: d)
qed

lemma new_incident_id_neq:
  assumes "0 \<le> i" "0 \<le> j" "i \<noteq> j" shows "new_incident_id key i t \<noteq> new_incident_id key' j u"
proof -
  have dr: "drop 11 (new_incident_id k n v) = show_int0 6 n" for k n v
    by (simp add: new_incident_id_def)
  have "drop 11 (new_incident_id key i t) \<noteq> drop 11 (new_incident_id key' j u)"
    unfolding dr using show_int0_inject [OF assms(1,2)] assms(3) by blast
  then show ?thesis by auto
qed

text \<open>
  An incident identifier is INC-, six hexadecimal digits, a dash and the sequence number; two
  occurrences with different sequence numbers never share one, whatever their keys and times.
  (Equal numbers leave only the 24 hash bits.)
\<close>

lemma incident_id_sequence:
  assumes "0 \<le> i" "0 \<le> j" "i \<noteq> j"
  shows "new_incident_id key i t \<noteq> new_incident_id key' j u \<and>
    drop 11 (new_incident_id key i t) = show_int0 6 i"
  using new_incident_id_neq [OF assms] by (simp add: new_incident_id_def)

lemma incident_id_sequence_witness:
  "new_incident_id ''Memory Leak:rtr-01'' 1 demo_time \<noteq> new_incident_id ''Memory Leak:rtr-01'' 2 demo_time"
  using incident_id_sequence [of 1 2 "''Memory Leak:rtr-01''" demo_time "''Memory Leak:rtr-01''" demo_time]
  by simp

end
