(* ===== verification/IncidentStore.thy ===== *)
theory IncidentStore
  imports Correlation
begin

text \<open>
  \<open>internal/incidents/store.go\<close>: the in-memory incident store with its recurrence rules. The three
  Go maps are maps; the pointers in \<open>incidents\<close> never leave the store (every result is a copy), so
  an incident is a value. The mutex serialises the operations, each of which is one function here.
  Ranging over a Go map visits its entries in an unspecified order: \<open>Active\<close> and \<open>List\<close> take that
  order as an argument, a list of the identifiers.
\<close>

datatype inc_status = IncActive | IncResolved | IncIgnored

record incident =
  in_id :: string
  in_occurrence_key :: string
  in_occurrence_sequence :: int
  in_severity :: inc_severity
  in_affected_devices :: "string list"
  in_root_cause :: string
  in_status :: inc_status
  in_created_at :: gotime
  in_updated_at :: gotime
  in_confidence :: f64
  in_predicted_sla_breach_minutes :: int
  in_recommended_action :: string

record decision =
  de_incident_id :: string
  de_status :: inc_status
  de_actor :: string
  de_decided_at :: gotime

record incident_store =
  is_incidents :: "string \<rightharpoonup> incident"
  is_by_occurrence :: "string \<rightharpoonup> string list"
  is_decisions :: "string \<rightharpoonup> decision list"

text \<open>Indexing a Go map of slices: the nil slice for an absent key.\<close>

definition lookup_list :: "('k \<rightharpoonup> 'v list) \<Rightarrow> 'k \<Rightarrow> 'v list" where
  "lookup_list m k = (case m k of None \<Rightarrow> [] | Some xs \<Rightarrow> xs)"

definition new_incident_store :: incident_store where
  "new_incident_store =
     \<lparr>is_incidents = Map.empty, is_by_occurrence = Map.empty, is_decisions = Map.empty\<rparr>"

section \<open>Upsert and Decide\<close>

definition new_incident :: "candidate \<Rightarrow> int \<Rightarrow> gotime \<Rightarrow> incident" where
  "new_incident c seq now =
     \<lparr>in_id = new_incident_id (cd_occurrence_key c) seq now, in_occurrence_key = cd_occurrence_key c,
      in_occurrence_sequence = seq, in_severity = cd_severity c,
      in_affected_devices = cd_affected_devices c, in_root_cause = cd_root_cause c,
      in_status = IncActive, in_created_at = now, in_updated_at = now,
      in_confidence = cd_confidence c, in_predicted_sla_breach_minutes = cd_sla_breach_minutes c,
      in_recommended_action = cd_recommended_action c\<rparr>"

definition active_last :: "incident_store \<Rightarrow> string list \<Rightarrow> incident option" where
  "active_last s history =
     (if history = [] then None
      else case is_incidents s (last history) of
        None \<Rightarrow> None
      | Some l \<Rightarrow> if in_status l = IncActive then Some l else None)"

definition inc_upsert :: "candidate \<Rightarrow> gotime \<Rightarrow> incident_store \<Rightarrow> incident_store \<times> incident \<times> bool" where
  "inc_upsert c now s =
     (let history = lookup_list (is_by_occurrence s) (cd_occurrence_key c) in
      case active_last s history of
        Some l \<Rightarrow> (s, l, False)
      | None \<Rightarrow>
          let inc = new_incident c (int (length history) + 1) now in
          (s\<lparr>is_incidents := (is_incidents s)(in_id inc \<mapsto> inc),
             is_by_occurrence := (is_by_occurrence s)(cd_occurrence_key c \<mapsto> history @ [in_id inc])\<rparr>,
           inc, True))"

datatype incident_error = IncidentNotFound string

definition inc_decide ::
  "string \<Rightarrow> inc_status \<Rightarrow> string \<Rightarrow> gotime \<Rightarrow> incident_store \<Rightarrow>
   incident_store \<times> (incident_error + incident \<times> bool)" where
  "inc_decide iid status actor now s =
     (case is_incidents s iid of
        None \<Rightarrow> (s, Inl (IncidentNotFound iid))
      | Some existing \<Rightarrow>
          let was_active = (in_status existing = IncActive);
              updated = existing\<lparr>in_status := status, in_updated_at := now\<rparr>;
              d = \<lparr>de_incident_id = iid, de_status = status, de_actor = actor, de_decided_at = now\<rparr>
          in (s\<lparr>is_incidents := (is_incidents s)(iid \<mapsto> updated),
                is_decisions := (is_decisions s)(iid \<mapsto> lookup_list (is_decisions s) iid @ [d])\<rparr>,
              Inr (updated, was_active)))"

definition inc_decisions :: "incident_store \<Rightarrow> string \<Rightarrow> decision list" where
  "inc_decisions s iid = lookup_list (is_decisions s) iid"

definition inc_history :: "incident_store \<Rightarrow> string \<Rightarrow> string list" where
  "inc_history s key = lookup_list (is_by_occurrence s) key"

section \<open>Active, List and Restore\<close>

text \<open>The loop of \<open>Active\<close> over the incidents in map order.\<close>

fun latest_active :: "incident list \<Rightarrow> incident option \<Rightarrow> incident option" where
  "latest_active [] latest = latest"
| "latest_active (i # is) latest =
     (if in_status i \<noteq> IncActive then latest_active is latest
      else case latest of
        None \<Rightarrow> latest_active is (Some i)
      | Some l \<Rightarrow> latest_active is (if after (in_created_at i) (in_created_at l) then Some i else latest))"

definition visit :: "incident_store \<Rightarrow> string list \<Rightarrow> incident list" where
  "visit s order = List.map_filter (is_incidents s) order"

definition inc_active :: "string list \<Rightarrow> incident_store \<Rightarrow> incident option" where
  "inc_active order s = latest_active (visit s order) None"

text \<open>The insertion sort of \<open>List\<close> on an array: the inner loop swaps \<open>out[j]\<close> down.\<close>

fun sink :: "incident list \<Rightarrow> nat \<Rightarrow> incident list" where
  "sink out 0 = out"
| "sink out (Suc j) =
     (if after (in_created_at (out ! Suc j)) (in_created_at (out ! j))
      then sink (out[Suc j := out ! j, j := out ! Suc j]) j
      else out)"

function sort_from :: "nat \<Rightarrow> incident list \<Rightarrow> incident list" where
  "sort_from i out = (if i < length out then sort_from (i + 1) (sink out i) else out)"
  by pat_completeness auto

lemma length_sink [simp]: "length (sink out j) = length out"
  by (induction out j rule: sink.induct) auto

termination sort_from
  by (relation "measure (\<lambda>(i, out). length out - i)") auto

declare sort_from.simps [simp del]

definition inc_list :: "string list \<Rightarrow> incident_store \<Rightarrow> incident list" where
  "inc_list order s = sort_from 1 (visit s order)"

definition restore_incident :: "incident \<Rightarrow> incident_store \<Rightarrow> incident_store" where
  "restore_incident i s =
     s\<lparr>is_incidents := (is_incidents s)(in_id i \<mapsto> i),
       is_by_occurrence := (is_by_occurrence s)
         (in_occurrence_key i \<mapsto> lookup_list (is_by_occurrence s) (in_occurrence_key i) @ [in_id i])\<rparr>"

definition inc_restore ::
  "incident list \<Rightarrow> (string \<rightharpoonup> decision list) \<Rightarrow> incident_store \<Rightarrow> incident_store" where
  "inc_restore all ds s =
     (let s' = fold restore_incident all s in s'\<lparr>is_decisions := is_decisions s' ++ ds\<rparr>)"

section \<open>The invariant\<close>

text \<open>Identifiers and histories agree, and the occurrences of a key are numbered 1, 2, 3, ...\<close>

definition linked :: "incident_store \<Rightarrow> bool" where
  "linked s \<longleftrightarrow>
     (\<forall>iid inc. is_incidents s iid = Some inc \<longrightarrow>
        in_id inc = iid \<and> iid \<in> set (inc_history s (in_occurrence_key inc))) \<and>
     (\<forall>k i. i < length (inc_history s k) \<longrightarrow>
        (\<exists>inc. is_incidents s (inc_history s k ! i) = Some inc \<and> in_occurrence_key inc = k \<and>
           in_occurrence_sequence inc = int i + 1))"

text \<open>Only the newest occurrence of a key can be active.\<close>

definition active_is_last :: "incident_store \<Rightarrow> bool" where
  "active_is_last s \<longleftrightarrow>
     (\<forall>iid inc. is_incidents s iid = Some inc \<and> in_status inc = IncActive \<longrightarrow>
        iid = last (inc_history s (in_occurrence_key inc)))"

text \<open>The audit trail explains the status: active without decisions, else the newest decision.\<close>

definition audited :: "incident_store \<Rightarrow> bool" where
  "audited s \<longleftrightarrow>
     (\<forall>iid. is_incidents s iid = None \<longrightarrow> inc_decisions s iid = []) \<and>
     (\<forall>iid inc. is_incidents s iid = Some inc \<longrightarrow>
        (let ds = inc_decisions s iid in
         in_status inc = (if ds = [] then IncActive else de_status (last ds)) \<and>
         in_updated_at inc = (if ds = [] then in_created_at inc else de_decided_at (last ds)) \<and>
         (\<forall>d \<in> set ds. de_incident_id d = iid \<and> de_status d \<noteq> IncActive)))"

definition store_ok :: "incident_store \<Rightarrow> bool" where
  "store_ok s \<longleftrightarrow> linked s \<and> active_is_last s \<and> audited s"

lemma lookup_list_simps [simp]:
  "lookup_list Map.empty k = []"
  "lookup_list (m(k \<mapsto> xs)) k' = (if k' = k then xs else lookup_list m k')"
  by (simp_all add: lookup_list_def)

lemma linkedD1:
  "linked s \<Longrightarrow> is_incidents s iid = Some inc \<Longrightarrow>
   in_id inc = iid \<and> iid \<in> set (inc_history s (in_occurrence_key inc))"
  by (simp add: linked_def)

lemma linkedD2:
  "linked s \<Longrightarrow> i < length (inc_history s k) \<Longrightarrow>
   \<exists>inc. is_incidents s (inc_history s k ! i) = Some inc \<and> in_occurrence_key inc = k \<and>
     in_occurrence_sequence inc = int i + 1"
  by (simp add: linked_def)

lemma linked_history_known:
  assumes "linked s" "iid \<in> set (inc_history s k)"
  obtains inc where "is_incidents s iid = Some inc" "in_occurrence_key inc = k"
  using assms linkedD2 by (metis in_set_conv_nth)

lemma linked_last:
  assumes "linked s" "inc_history s k \<noteq> []"
  obtains inc where "is_incidents s (last (inc_history s k)) = Some inc" "in_occurrence_key inc = k"
    "in_occurrence_sequence inc = int (length (inc_history s k))"
proof -
  let ?h = "inc_history s k"
  have "length ?h - 1 < length ?h" "last ?h = ?h ! (length ?h - 1)"
    using assms(2) by (simp_all add: last_conv_nth)
  with linkedD2 [OF assms(1) this(1)] that assms(2) show thesis by (cases ?h) auto
qed

lemma linked_distinct:
  assumes "linked s" shows "distinct (inc_history s k)"
proof (unfold distinct_conv_nth, intro allI impI)
  fix i j assume "i < length (inc_history s k)" "j < length (inc_history s k)" "i \<noteq> j"
  with linkedD2 [OF assms, of i k] linkedD2 [OF assms, of j k]
  show "inc_history s k ! i \<noteq> inc_history s k ! j" by auto
qed

text \<open>The active occurrence of a key, found at the end of its history.\<close>

lemma active_last_iff:
  assumes "linked s" "active_is_last s"
  shows "active_last s (inc_history s k) = Some l \<longleftrightarrow>
    (\<exists>iid. is_incidents s iid = Some l \<and> in_occurrence_key l = k \<and> in_status l = IncActive)"
proof
  assume a: "active_last s (inc_history s k) = Some l"
  then have "inc_history s k \<noteq> []" by (auto simp: active_last_def)
  from linked_last [OF assms(1) this] a
  show "\<exists>iid. is_incidents s iid = Some l \<and> in_occurrence_key l = k \<and> in_status l = IncActive"
    by (auto simp: active_last_def split: option.splits if_splits)
next
  assume "\<exists>iid. is_incidents s iid = Some l \<and> in_occurrence_key l = k \<and> in_status l = IncActive"
  then obtain iid where i: "is_incidents s iid = Some l" "in_occurrence_key l = k" "in_status l = IncActive"
    by blast
  with assms(2) have "iid = last (inc_history s k)" by (auto simp: active_is_last_def)
  moreover have "inc_history s k \<noteq> []" using linkedD1 [OF assms(1) i(1)] i(2) by auto
  ultimately show "active_last s (inc_history s k) = Some l" using i by (simp add: active_last_def)
qed

section \<open>Every operation keeps the invariant\<close>

lemma store_ok_new [simp]: "store_ok new_incident_store"
  by (simp add: store_ok_def linked_def active_is_last_def audited_def new_incident_store_def
      inc_history_def inc_decisions_def)

lemma inc_upsert_cases:
  obtains (dup) l where "active_last s (inc_history s (cd_occurrence_key c)) = Some l"
    "inc_upsert c now s = (s, l, False)"
  | (new) inc where "active_last s (inc_history s (cd_occurrence_key c)) = None"
    "inc = new_incident c (int (length (inc_history s (cd_occurrence_key c))) + 1) now"
    "inc_upsert c now s =
      (s\<lparr>is_incidents := (is_incidents s)(in_id inc \<mapsto> inc),
         is_by_occurrence := (is_by_occurrence s)
           (cd_occurrence_key c \<mapsto> inc_history s (cd_occurrence_key c) @ [in_id inc])\<rparr>, inc, True)"
  by (cases "active_last s (inc_history s (cd_occurrence_key c))")
    (auto simp: inc_upsert_def inc_history_def Let_def)

definition fresh_id :: "candidate \<Rightarrow> gotime \<Rightarrow> incident_store \<Rightarrow> bool" where
  "fresh_id c now s \<longleftrightarrow>
     is_incidents s (new_incident_id (cd_occurrence_key c)
       (int (length (inc_history s (cd_occurrence_key c))) + 1) now) = None"

lemma new_incident_simps [simp]:
  "in_id (new_incident c n now) = new_incident_id (cd_occurrence_key c) n now"
  "in_occurrence_key (new_incident c n now) = cd_occurrence_key c"
  "in_occurrence_sequence (new_incident c n now) = n"
  "in_status (new_incident c n now) = IncActive"
  "in_created_at (new_incident c n now) = now" "in_updated_at (new_incident c n now) = now"
  by (simp_all add: new_incident_def)

lemma linked_upsert:
  assumes "linked s" "fresh_id c now s" "inc_upsert c now s = (s', inc, created)"
  shows "linked s'"
proof (cases rule: inc_upsert_cases [of s c now])
  case (new i)
  define k where "k = cd_occurrence_key c"
  define h where "h = inc_history s k"
  have i: "in_id i = new_incident_id k (int (length h) + 1) now" "in_occurrence_key i = k"
      "in_occurrence_sequence i = int (length h) + 1"
    using new(2) by (simp_all add: k_def h_def)
  have fresh: "is_incidents s (in_id i) = None"
    using assms(2) i by (simp add: fresh_id_def k_def h_def)
  have s': "is_incidents s' = (is_incidents s)(in_id i \<mapsto> i)"
      "\<And>k'. inc_history s' k' = (if k' = k then h @ [in_id i] else inc_history s k')"
    using new(3) assms(3) by (auto simp: inc_history_def k_def h_def)
  have old: "in_id i \<notin> set (inc_history s k')" for k'
    using linked_history_known [OF assms(1), of "in_id i" k'] fresh by auto
  show ?thesis
    unfolding linked_def s'
  proof (intro conjI allI impI)
    fix iid inc'
    assume "((is_incidents s)(in_id i \<mapsto> i)) iid = Some inc'"
    then show "in_id inc' = iid" "iid \<in> set (if in_occurrence_key inc' = k then h @ [in_id i]
        else inc_history s (in_occurrence_key inc'))"
      using linkedD1 [OF assms(1), of iid inc'] i by (auto simp: h_def split: if_splits)
  next
    fix k' j
    assume j: "j < length (if k' = k then h @ [in_id i] else inc_history s k')"
    show "\<exists>inc. ((is_incidents s)(in_id i \<mapsto> i))
        ((if k' = k then h @ [in_id i] else inc_history s k') ! j) = Some inc \<and>
        in_occurrence_key inc = k' \<and> in_occurrence_sequence inc = int j + 1"
    proof (cases "k' = k \<and> j = length h")
      case True
      then show ?thesis using i by simp
    next
      case False
      then have j': "j < length (inc_history s k')"
          "(if k' = k then h @ [in_id i] else inc_history s k') ! j = inc_history s k' ! j"
        using j by (auto simp: h_def nth_append split: if_splits)
      have "inc_history s k' ! j \<noteq> in_id i" using old [of k'] nth_mem [OF j'(1)] by metis
      then show ?thesis using linkedD2 [OF assms(1) j'(1)] j'(2) by simp
    qed
  qed
qed (use assms in simp)

lemma store_ok_upsert:
  assumes ok: "store_ok s" and "fresh_id c now s" "inc_upsert c now s = (s', inc, created)"
  shows "store_ok s'"
proof (cases rule: inc_upsert_cases [of s c now])
  case (new i)
  define k where "k = cd_occurrence_key c"
  have L: "linked s" "active_is_last s" "audited s" using ok by (simp_all add: store_ok_def)
  have i: "in_occurrence_key i = k" "in_status i = IncActive" "in_updated_at i = in_created_at i"
      and fresh: "is_incidents s (in_id i) = None"
    using new(2) assms(2) by (simp_all add: k_def fresh_id_def)
  have s': "is_incidents s' = (is_incidents s)(in_id i \<mapsto> i)"
      "\<And>k'. inc_history s' k' = (if k' = k then inc_history s k @ [in_id i] else inc_history s k')"
      "\<And>d. inc_decisions s' d = inc_decisions s d"
    using new(3) assms(3) by (auto simp: inc_history_def inc_decisions_def k_def)
  have none: "in_status l \<noteq> IncActive" if "is_incidents s iid = Some l" "in_occurrence_key l = k" for iid l
    using active_last_iff [OF L(1,2), of k l] new(1) that by (auto simp: k_def)
  have "active_is_last s'"
    unfolding active_is_last_def s'
  proof (intro allI impI)
    fix iid inc'
    assume a: "((is_incidents s)(in_id i \<mapsto> i)) iid = Some inc' \<and> in_status inc' = IncActive"
    show "iid = last (if in_occurrence_key inc' = k then inc_history s k @ [in_id i]
        else inc_history s (in_occurrence_key inc'))"
      using a i none L(2) by (auto simp: active_is_last_def split: if_splits)
  qed
  moreover have "audited s'"
    using L(3) fresh i by (auto simp: audited_def s' Let_def)
  ultimately show ?thesis using linked_upsert [OF L(1) assms(2,3)] by (simp add: store_ok_def)
qed (use assms in simp)

lemma store_ok_decide:
  assumes ok: "store_ok s" and "status \<noteq> IncActive" "inc_decide iid status actor now s = (s', r)"
  shows "store_ok s'"
proof (cases "is_incidents s iid")
  case None
  with assms show ?thesis by (simp add: inc_decide_def)
next
  case (Some e)
  define u where "u = e\<lparr>in_status := status, in_updated_at := now\<rparr>"
  have L: "linked s" "active_is_last s" "audited s" using ok by (simp_all add: store_ok_def)
  have u: "in_id u = in_id e" "in_occurrence_key u = in_occurrence_key e" "in_status u = status"
      "in_occurrence_sequence u = in_occurrence_sequence e" "in_updated_at u = now"
    by (simp_all add: u_def)
  have s': "is_incidents s' = (is_incidents s)(iid \<mapsto> u)" "\<And>k. inc_history s' k = inc_history s k"
      "\<And>d. inc_decisions s' d = (if d = iid then inc_decisions s iid @
         [\<lparr>de_incident_id = iid, de_status = status, de_actor = actor, de_decided_at = now\<rparr>]
         else inc_decisions s d)"
    using assms(3) Some by (auto simp: inc_decide_def Let_def u_def inc_history_def inc_decisions_def)
  have "linked s'"
    unfolding linked_def s'
  proof (intro conjI allI impI)
    fix id' inc' assume "((is_incidents s)(iid \<mapsto> u)) id' = Some inc'"
    then show "in_id inc' = id'" "id' \<in> set (inc_history s (in_occurrence_key inc'))"
      using linkedD1 [OF L(1)] Some u by (auto split: if_splits)
  next
    fix k j assume "j < length (inc_history s k)"
    from linkedD2 [OF L(1) this] show "\<exists>inc. ((is_incidents s)(iid \<mapsto> u)) (inc_history s k ! j) = Some inc \<and>
        in_occurrence_key inc = k \<and> in_occurrence_sequence inc = int j + 1"
      using Some u by auto
  qed
  moreover have "active_is_last s'"
    using L(2) assms(2) u by (auto simp: active_is_last_def s')
  moreover have "audited s'"
    using L(3) assms(2) u Some by (auto simp: audited_def s' Let_def)
  ultimately show ?thesis by (simp add: store_ok_def)
qed

section \<open>Runs of the store\<close>

text \<open>One step of a store that is driven by the correlation loop and by operators. A fresh
  identifier is the assumption the code makes of its 24-bit hash; a decision resolves or ignores.\<close>

inductive store_step :: "incident_store \<Rightarrow> incident_store \<Rightarrow> bool" where
  step_upsert: "fresh_id c now s \<Longrightarrow> inc_upsert c now s = (s', inc, created) \<Longrightarrow> store_step s s'"
| step_decide: "status \<noteq> IncActive \<Longrightarrow> inc_decide iid status actor now s = (s', r) \<Longrightarrow> store_step s s'"

inductive_cases store_stepE: "store_step s s'"

inductive store_reachable :: "incident_store \<Rightarrow> bool" where
  reach_new: "store_reachable new_incident_store"
| reach_step: "store_reachable s \<Longrightarrow> store_step s s' \<Longrightarrow> store_reachable s'"

lemma store_reachable_ok: "store_reachable s \<Longrightarrow> store_ok s"
  by (induction rule: store_reachable.induct) (auto elim!: store_stepE intro: store_ok_upsert store_ok_decide)

section \<open>Sorting and searching the incidents\<close>

definition newer_eq :: "incident \<Rightarrow> incident \<Rightarrow> bool" where
  "newer_eq x y \<longleftrightarrow> in_created_at y \<le> in_created_at x"

text \<open>Where the inner loop puts an element behind a sorted prefix.\<close>

definition sunk :: "incident \<Rightarrow> incident list \<Rightarrow> incident list" where
  "sunk x A = rev (dropWhile (\<lambda>y. after (in_created_at x) (in_created_at y)) (rev A)) @
     x # rev (takeWhile (\<lambda>y. after (in_created_at x) (in_created_at y)) (rev A))"

lemma sink_sunk: "sink (A @ x # C) (length A) = sunk x A @ C"
proof (induction A arbitrary: C rule: rev_induct)
  case (snoc a A)
  have "(A @ a # x # C)[Suc (length A) := a, length A := x] = A @ x # a # C"
    by (simp add: list_update_append)
  then show ?case using snoc.IH [of "a # C"] by (simp add: nth_append sunk_def)
qed (simp add: sunk_def)

lemma mset_sunk: "mset (sunk x A) = add_mset x (mset A)"
proof -
  have "mset (takeWhile P (rev A)) + mset (dropWhile P (rev A)) = mset A" for P
    by (metis mset_append mset_rev takeWhile_dropWhile_id)
  then show ?thesis by (simp add: sunk_def) (metis add.commute)
qed

lemma length_sunk [simp]: "length (sunk x A) = Suc (length A)"
  by (metis mset_sunk size_add_mset size_mset)

lemma sorted_sunk:
  assumes "sorted_wrt newer_eq A" shows "sorted_wrt newer_eq (sunk x A)"
proof -
  let ?P = "\<lambda>y. after (in_created_at x) (in_created_at y)"
  define U V where "U = rev (dropWhile ?P (rev A))" and "V = rev (takeWhile ?P (rev A))"
  have A: "A = U @ V" unfolding U_def V_def by (metis rev_append rev_rev_ident takeWhile_dropWhile_id)
  have V: "newer_eq x v" if "v \<in> set V" for v
    using that by (auto simp: V_def newer_eq_def after_def dest: set_takeWhileD)
  have U: "newer_eq u x" if u: "u \<in> set U" for u
  proof -
    from u obtain U' d where Ud: "U = U' @ [d]" by (cases U rule: rev_cases) auto
    then have "hd (dropWhile ?P (rev A)) = d" "dropWhile ?P (rev A) \<noteq> []"
      by (auto simp: U_def rev_eq_append_conv)
    then have "\<not> ?P d" using hd_dropWhile by metis
    moreover have "newer_eq u d" if "u \<noteq> d"
      using assms u that unfolding A Ud by (auto simp: sorted_wrt_append)
    ultimately show ?thesis by (cases "u = d") (auto simp: newer_eq_def after_def)
  qed
  have "newer_eq u v" if "u \<in> set U" "v \<in> set V" for u v
    using assms that unfolding A by (simp add: sorted_wrt_append)
  moreover have "sorted_wrt newer_eq U" "sorted_wrt newer_eq V"
    using assms unfolding A by (simp_all add: sorted_wrt_append)
  ultimately show ?thesis
    using U V unfolding sunk_def U_def [symmetric] V_def [symmetric] by (auto simp: sorted_wrt_append)
qed

lemma sort_from_correct:
  "sorted_wrt newer_eq A \<Longrightarrow>
   sorted_wrt newer_eq (sort_from (length A) (A @ C)) \<and> mset (sort_from (length A) (A @ C)) = mset (A @ C)"
proof (induction C arbitrary: A)
  case Nil
  then show ?case by (simp add: sort_from.simps)
next
  case (Cons x C)
  have "sort_from (length A) (A @ x # C) = sort_from (length (sunk x A)) (sunk x A @ C)"
    by (subst sort_from.simps) (simp add: sink_sunk)
  with Cons.IH [OF sorted_sunk [OF Cons.prems], of x] show ?case by (simp add: mset_sunk)
qed

lemma sort_from_1: "sorted_wrt newer_eq (sort_from 1 xs) \<and> mset (sort_from 1 xs) = mset xs"
  using sort_from_correct [of "[hd xs]" "tl xs"] by (cases xs) (simp_all add: sort_from.simps)

lemma latest_active_Some:
  "in_status l = IncActive \<Longrightarrow>
   \<exists>r. latest_active is (Some l) = Some r \<and> (r = l \<or> r \<in> set is) \<and> in_status r = IncActive \<and>
     in_created_at l \<le> in_created_at r \<and>
     (\<forall>i \<in> set is. in_status i = IncActive \<longrightarrow> in_created_at i \<le> in_created_at r)"
proof (induction "is" arbitrary: l)
  case (Cons i "is")
  show ?case
  proof (cases "in_status i = IncActive \<and> after (in_created_at i) (in_created_at l)")
    case True
    from Cons.IH [of i] True obtain r where r: "latest_active is (Some i) = Some r" "r = i \<or> r \<in> set is"
        "in_status r = IncActive" "in_created_at i \<le> in_created_at r"
        "\<forall>i \<in> set is. in_status i = IncActive \<longrightarrow> in_created_at i \<le> in_created_at r" by blast
    show ?thesis
      by (rule exI [of _ r]) (use True r in \<open>auto simp: after_def\<close>)
  next
    case False
    from Cons.IH [OF Cons.prems] obtain r where r: "latest_active is (Some l) = Some r" "r = l \<or> r \<in> set is"
        "in_status r = IncActive" "in_created_at l \<le> in_created_at r"
        "\<forall>i \<in> set is. in_status i = IncActive \<longrightarrow> in_created_at i \<le> in_created_at r" by blast
    show ?thesis
      by (rule exI [of _ r]) (use False r in \<open>auto simp: after_def\<close>)
  qed
qed simp

lemma latest_active_None:
  "(latest_active is None = None \<longleftrightarrow> (\<forall>i \<in> set is. in_status i \<noteq> IncActive)) \<and>
   (\<forall>r. latest_active is None = Some r \<longrightarrow> r \<in> set is \<and> in_status r = IncActive \<and>
     (\<forall>i \<in> set is. in_status i = IncActive \<longrightarrow> in_created_at i \<le> in_created_at r))"
proof (induction "is")
  case (Cons i "is")
  show ?case
  proof (cases "in_status i = IncActive")
    case True
    from latest_active_Some [OF True, of "is"] True show ?thesis by auto
  qed (use Cons in auto)
qed simp

lemma inc_decide_Inr:
  assumes "inc_decide iid status actor now s = (s', Inr (u, was))"
  obtains e where "is_incidents s iid = Some e" "u = e\<lparr>in_status := status, in_updated_at := now\<rparr>"
    "was \<longleftrightarrow> in_status e = IncActive" "is_incidents s' = (is_incidents s)(iid \<mapsto> u)"
    "\<forall>k. inc_history s' k = inc_history s k"
    "\<forall>d. inc_decisions s' d = (if d = iid then inc_decisions s iid @
         [\<lparr>de_incident_id = iid, de_status = status, de_actor = actor, de_decided_at = now\<rparr>]
         else inc_decisions s d)"
  using assms
  by (cases "is_incidents s iid")
    (auto simp: inc_decide_def Let_def inc_history_def inc_decisions_def intro!: that)

lemma inc_upsert_True:
  assumes "inc_upsert c now s = (s', i, True)"
  shows "active_last s (inc_history s (cd_occurrence_key c)) = None"
    "i = new_incident c (int (length (inc_history s (cd_occurrence_key c))) + 1) now"
    "is_incidents s' = (is_incidents s)(in_id i \<mapsto> i)"
    "inc_history s' k = (if k = cd_occurrence_key c then inc_history s k @ [in_id i] else inc_history s k)"
    "is_decisions s' = is_decisions s"
  using assms by (cases rule: inc_upsert_cases [of s c now]; auto simp: inc_history_def)+

section \<open>What the store guarantees\<close>

text \<open>
  C3: In every reachable store the occurrences of a fault are numbered 1, 2, 3, ... in its history,
  at most one of them is active and then it is the newest, and the status of every incident is the
  one its newest audit entry records (active if it has none).
\<close>

theorem store_invariant:
  assumes "store_reachable s"
  shows "map (\<lambda>iid. map_option (\<lambda>i. (in_occurrence_key i, in_occurrence_sequence i)) (is_incidents s iid))
      (inc_history s k) = map (\<lambda>n. Some (k, int n)) [1..<Suc (length (inc_history s k))] \<and>
    (is_incidents s a = Some i \<and> is_incidents s b = Some j \<and>
       in_occurrence_key i = in_occurrence_key j \<and> in_status i = IncActive \<and> in_status j = IncActive
       \<longrightarrow> a = b \<and> a = last (inc_history s (in_occurrence_key i))) \<and>
    (is_incidents s a = Some i \<longrightarrow>
       in_status i = (if inc_decisions s a = [] then IncActive else de_status (last (inc_decisions s a))))"
proof (intro conjI impI)
  have L: "linked s" "active_is_last s" "audited s"
    using store_reachable_ok [OF assms] by (simp_all add: store_ok_def)
  show "map (\<lambda>iid. map_option (\<lambda>i. (in_occurrence_key i, in_occurrence_sequence i)) (is_incidents s iid))
      (inc_history s k) = map (\<lambda>n. Some (k, int n)) [1..<Suc (length (inc_history s k))]"
    using linkedD2 [OF L(1), of _ k] by (intro nth_equalityI) (force simp del: upt_Suc)+
  have al: "iid = last (inc_history s (in_occurrence_key l))"
    if "is_incidents s iid = Some l" "in_status l = IncActive" for iid l
    using L(2) that by (simp add: active_is_last_def)
  show "a = b" "a = last (inc_history s (in_occurrence_key i))"
    if "is_incidents s a = Some i \<and> is_incidents s b = Some j \<and>
       in_occurrence_key i = in_occurrence_key j \<and> in_status i = IncActive \<and> in_status j = IncActive"
    using al [of a i] al [of b j] that by simp_all
  show "in_status i = (if inc_decisions s a = [] then IncActive else de_status (last (inc_decisions s a)))"
    if "is_incidents s a = Some i"
    using L(3) that by (simp add: audited_def Let_def)
qed

text \<open>
  C1: An upsert creates an occurrence exactly when the fault has no active one. A duplicate leaves
  the store alone and returns the active occurrence; a creation appends one active occurrence with
  the next number to the history of its key and touches nothing else.
\<close>

theorem upsert_recurrence:
  assumes "store_reachable s" "fresh_id c now s" "inc_upsert c now s = (s', inc, created)"
  defines "k \<equiv> cd_occurrence_key c"
  shows "(created \<longleftrightarrow> (\<forall>i \<in> ran (is_incidents s). in_occurrence_key i = k \<longrightarrow> in_status i \<noteq> IncActive)) \<and>
    (\<not> created \<longrightarrow> s' = s \<and> is_incidents s (in_id inc) = Some inc \<and> in_occurrence_key inc = k \<and>
       in_status inc = IncActive) \<and>
    (created \<longrightarrow> is_incidents s' = (is_incidents s)(in_id inc \<mapsto> inc) \<and> is_incidents s (in_id inc) = None \<and>
       in_status inc = IncActive \<and> in_created_at inc = now \<and>
       in_occurrence_sequence inc = int (length (inc_history s k)) + 1 \<and>
       (\<forall>k'. inc_history s' k' = (if k' = k then inc_history s k @ [in_id inc] else inc_history s k')) \<and>
       is_decisions s' = is_decisions s)"
proof -
  have L: "linked s" "active_is_last s"
    using store_reachable_ok [OF assms(1)] by (simp_all add: store_ok_def)
  note act = active_last_iff [OF L, of k]
  show ?thesis
  proof (cases rule: inc_upsert_cases [of s c now])
    case (dup l)
    then have e: "s' = s" "inc = l" "\<not> created" using assms(3) by auto
    from dup(1) act obtain iid where i: "is_incidents s iid = Some l" "in_occurrence_key l = k"
        "in_status l = IncActive" by (auto simp: k_def)
    then have "in_id l = iid" using linkedD1 [OF L(1)] by blast
    with e i show ?thesis by (auto simp: ran_def)
  next
    case (new i)
    then have e: "inc = i" "created" using assms(3) by auto
    have "in_status j \<noteq> IncActive" if "j \<in> ran (is_incidents s)" "in_occurrence_key j = k" for j
      using act [of j] new(1) that by (auto simp: k_def ran_def)
    moreover have "is_incidents s (in_id i) = None" using assms(2) new(2) by (simp add: fresh_id_def)
    ultimately show ?thesis
      using e new(2,3) assms(3) by (auto simp: k_def inc_history_def)
  qed
qed

text \<open>
  C2: A resolved or ignored fault can fire again: after a creation, a decision that closes it and a
  new detection of the same key, a second active occurrence exists whose number is the next one,
  and the closed occurrence is still there with its decision.
\<close>

theorem closed_fault_recurs:
  assumes "inc_upsert c t1 s = (s1, i1, True)"
    and "status \<noteq> IncActive" "inc_decide (in_id i1) status actor t2 s1 = (s2, Inr (d, was))"
    and "cd_occurrence_key c' = cd_occurrence_key c" "fresh_id c' t3 s2"
    and "inc_upsert c' t3 s2 = (s3, i3, again)"
  shows "was \<and> again \<and> in_status i3 = IncActive \<and>
    in_occurrence_sequence i3 = in_occurrence_sequence i1 + 1 \<and>
    is_incidents s3 (in_id i1) = Some (i1\<lparr>in_status := status, in_updated_at := t2\<rparr>) \<and>
    inc_decisions s3 (in_id i1) = inc_decisions s1 (in_id i1) @
      [\<lparr>de_incident_id = in_id i1, de_status = status, de_actor = actor, de_decided_at = t2\<rparr>] \<and>
    inc_history s3 (cd_occurrence_key c) = inc_history s (cd_occurrence_key c) @ [in_id i1, in_id i3]"
proof -
  let ?k = "cd_occurrence_key c"
  note i1 = inc_upsert_True [OF assms(1)]
  from assms(3) obtain e where e: "is_incidents s1 (in_id i1) = Some e"
      "d = e\<lparr>in_status := status, in_updated_at := t2\<rparr>" "was \<longleftrightarrow> in_status e = IncActive"
      "is_incidents s2 = (is_incidents s1)(in_id i1 \<mapsto> d)" "\<forall>k. inc_history s2 k = inc_history s1 k"
      "\<forall>x. inc_decisions s2 x = (if x = in_id i1 then inc_decisions s1 (in_id i1) @
         [\<lparr>de_incident_id = in_id i1, de_status = status, de_actor = actor, de_decided_at = t2\<rparr>]
         else inc_decisions s1 x)"
    by (rule inc_decide_Inr)
  have ei: "e = i1" using e(1) i1(3) by simp
  have act: "in_status i1 = IncActive" by (simp add: i1(2))
  have "active_last s2 (inc_history s2 (cd_occurrence_key c')) = None"
    using assms(2) by (simp add: active_last_def assms(4) e(4,5) i1(4) e(2))
  then have again: "again" using assms(6) by (cases rule: inc_upsert_cases [of s2 c' t3]) auto
  note i3 = inc_upsert_True [OF assms(6) [unfolded eqTrueI [OF again]]]
  have "is_incidents s2 (in_id i3) = None"
    using assms(5) i3(2) by (simp add: fresh_id_def)
  then have ne: "in_id i3 \<noteq> in_id i1" using e(4) by auto
  have seq: "in_occurrence_sequence i1 = int (length (inc_history s ?k)) + 1"
      "in_occurrence_sequence i3 = int (length (inc_history s2 ?k)) + 1" "in_status i3 = IncActive"
    unfolding i1(2) i3(2) assms(4) by simp_all
  have h: "inc_history s2 ?k = inc_history s ?k @ [in_id i1]" by (simp add: e(5) i1(4))
  have "is_incidents s3 (in_id i1) = Some d" "inc_decisions s3 (in_id i1) = inc_decisions s2 (in_id i1)"
      "inc_history s3 ?k = inc_history s2 ?k @ [in_id i3]"
    using ne e(4) by (simp_all add: i3(3,4,5) inc_decisions_def assms(4))
  then show ?thesis using again act seq h e(2,3,6) ei by simp
qed

section \<open>Counting the active incidents\<close>

definition active_count :: "incident_store \<Rightarrow> int" where
  "active_count s = int (card {iid. \<exists>i. is_incidents s iid = Some i \<and> in_status i = IncActive})"

definition store_wf :: "incident_store \<Rightarrow> bool" where
  "store_wf s \<longleftrightarrow> store_ok s \<and> finite (dom (is_incidents s))"

lemma store_wf_new [simp]: "store_wf new_incident_store"
  by (simp add: store_wf_def) (simp add: new_incident_store_def)

lemma finite_active: "finite (dom (is_incidents s)) \<Longrightarrow>
    finite {iid. \<exists>i. is_incidents s iid = Some i \<and> in_status i = IncActive}"
  by (rule finite_subset [rotated]) auto

lemma upsert_wf_count:
  assumes "store_wf s" "fresh_id c now s" "inc_upsert c now s = (s', i, created)"
  shows "store_wf s'" "active_count s' = active_count s + (if created then 1 else 0)"
proof -
  have ok: "store_ok s'" by (rule store_ok_upsert [OF _ assms(2,3)]) (use assms(1) in \<open>simp add: store_wf_def\<close>)
  have fin: "finite (dom (is_incidents s))" using assms(1) by (simp add: store_wf_def)
  have "store_wf s' \<and> active_count s' = active_count s + (if created then 1 else 0)"
  proof (cases created)
    case False
    then have "s' = s" using assms(3) by (cases rule: inc_upsert_cases [of s c now]) auto
    then show ?thesis using False assms(1) by simp
  next
    case True
    note u = inc_upsert_True [OF assms(3) [unfolded eqTrueI [OF True]]]
    have new: "is_incidents s (in_id i) = None" "in_status i = IncActive"
      using assms(2) u(2) by (simp_all add: fresh_id_def)
    have "{iid. \<exists>i. is_incidents s' iid = Some i \<and> in_status i = IncActive} =
        insert (in_id i) {iid. \<exists>i. is_incidents s iid = Some i \<and> in_status i = IncActive}"
      unfolding u(3) using new by auto
    then have "active_count s' = active_count s + 1"
      using finite_active [OF fin] new by (simp add: active_count_def)
    then show ?thesis using ok fin True by (simp add: store_wf_def u(3))
  qed
  then show "store_wf s'" "active_count s' = active_count s + (if created then 1 else 0)" by auto
qed

lemma decide_count:
  assumes "finite (dom (is_incidents s))" "status \<noteq> IncActive"
    and "inc_decide iid status actor now s = (s', Inr (u, was))"
  shows "active_count s' = active_count s - (if was then 1 else 0)" "finite (dom (is_incidents s'))"
proof -
  let ?A = "\<lambda>s. {iid. \<exists>i. is_incidents s iid = Some i \<and> in_status i = IncActive}"
  from assms(3) obtain e where e: "is_incidents s iid = Some e"
      "u = e\<lparr>in_status := status, in_updated_at := now\<rparr>" "was \<longleftrightarrow> in_status e = IncActive"
      "is_incidents s' = (is_incidents s)(iid \<mapsto> u)"
    by (rule inc_decide_Inr)
  have "?A s' = ?A s - {iid}" using e(2,4) assms(2) by auto
  moreover have "iid \<in> ?A s \<longleftrightarrow> was" using e(1,3) by simp
  ultimately show "active_count s' = active_count s - (if was then 1 else 0)"
    using finite_active [OF assms(1)] card_gt_0_iff [of "?A s"]
    by (auto simp: active_count_def card_Diff_singleton_if of_nat_diff Suc_le_eq)
  show "finite (dom (is_incidents s'))" using assms(1) by (simp add: e(4))
qed

lemma decide_wf_count:
  assumes "store_wf s" "status \<noteq> IncActive" "inc_decide iid status actor now s = (s', r)"
  shows "store_wf s'"
    "active_count s' = active_count s - (case r of Inr (u, was) \<Rightarrow> if was then 1 else 0 | Inl e \<Rightarrow> 0)"
proof -
  have ok: "store_ok s'" by (rule store_ok_decide [OF _ assms(2,3)]) (use assms(1) in \<open>simp add: store_wf_def\<close>)
  have fin: "finite (dom (is_incidents s))" using assms(1) by (simp add: store_wf_def)
  have "store_wf s' \<and>
    active_count s' = active_count s - (case r of Inr (u, was) \<Rightarrow> if was then 1 else 0 | Inl e \<Rightarrow> 0)"
  proof (cases r)
    case (Inl e)
    then have "s' = s" using assms(3) by (auto simp: inc_decide_def Let_def split: option.splits)
    then show ?thesis using Inl assms(1) by simp
  next
    case (Inr uw)
    obtain u was where uw: "uw = (u, was)" by (cases uw)
    from decide_count [OF fin assms(2) assms(3) [unfolded Inr uw]] show ?thesis
      using ok by (simp add: store_wf_def Inr uw)
  qed
  then show "store_wf s'"
    "active_count s' = active_count s - (case r of Inr (u, was) \<Rightarrow> if was then 1 else 0 | Inl e \<Rightarrow> 0)"
    by auto
qed

text \<open>The operations of the store with the change of the gauge \<open>vyomm_incidents_active\<close> their
  callers apply: plus one for a created incident, minus one for a decision that left active.\<close>

datatype store_op = OpUpsert candidate gotime | OpDecide string inc_status string gotime

fun store_op_step :: "store_op \<Rightarrow> incident_store \<Rightarrow> incident_store \<times> int" where
  "store_op_step (OpUpsert c now) s =
     (let (s', i, created) = inc_upsert c now s in (s', if created then 1 else 0))"
| "store_op_step (OpDecide iid status actor now) s =
     (let (s', r) = inc_decide iid status actor now s in
      (s', case r of Inr (u, was) \<Rightarrow> if was then - 1 else 0 | Inl e \<Rightarrow> 0))"

fun store_op_legal :: "store_op \<Rightarrow> incident_store \<Rightarrow> bool" where
  "store_op_legal (OpUpsert c now) s \<longleftrightarrow> fresh_id c now s"
| "store_op_legal (OpDecide iid status actor now) s \<longleftrightarrow> status \<noteq> IncActive"

lemma store_op_step_wf:
  assumes "store_wf s" "store_op_legal op s"
  shows "store_wf (fst (store_op_step op s)) \<and>
    active_count (fst (store_op_step op s)) = active_count s + snd (store_op_step op s)"
proof (cases op)
  case (OpUpsert c now)
  obtain s' i b where u: "inc_upsert c now s = (s', i, b)" by (cases "inc_upsert c now s")
  from upsert_wf_count [OF assms(1) _ u] assms(2) show ?thesis by (simp add: OpUpsert u)
next
  case (OpDecide iid status actor now)
  obtain s' r where d: "inc_decide iid status actor now s = (s', r)"
    by (cases "inc_decide iid status actor now s")
  from decide_wf_count [OF assms(1) _ d] assms(2) show ?thesis
    by (auto simp: OpDecide d split: sum.splits prod.splits)
qed

interpretation gauge: tallied store_wf store_op_legal store_op_step active_count
  using store_op_step_wf by unfold_locales blast+

text \<open>
  A counter that starts at zero and follows \<open>created\<close> and \<open>wasActive\<close> equals the number of
  active incidents after every run of the store, so it is never negative; repeated decisions on the
  same incident are counted once.
\<close>

lemma gauge_counts_active:
  assumes "legal_run store_op_step store_op_legal ops new_incident_store"
    and "tally_run store_op_step ops (new_incident_store, 0) = (s, n)"
  shows "n = active_count s \<and> 0 \<le> n"
proof -
  have "active_count new_incident_store = 0" by (simp add: active_count_def new_incident_store_def)
  then have "n = active_count s"
    using gauge.counter_tracks [OF store_wf_new assms(1), of 0] assms(2) by simp
  then show ?thesis by (simp add: active_count_def)
qed

section \<open>Listing, the active incident and the restart\<close>

lemma visit_all:
  assumes "set order = dom (is_incidents s)"
  shows "visit s order = map (\<lambda>iid. the (is_incidents s iid)) order"
proof -
  have "set xs \<subseteq> dom m \<Longrightarrow> List.map_filter m xs = map (\<lambda>x. the (m x)) xs" for m :: "string \<rightharpoonup> incident" and xs
    by (induction xs) (auto simp: List.map_filter_simps)
  then show ?thesis using assms by (simp add: visit_def)
qed

lemma set_visit: "set order = dom (is_incidents s) \<Longrightarrow> set (visit s order) = ran (is_incidents s)"
proof -
  assume a: "set order = dom (is_incidents s)"
  have "(\<lambda>iid. the (is_incidents s iid)) ` dom (is_incidents s) = ran (is_incidents s)"
    by (force simp: ran_def image_iff)
  then show ?thesis by (simp add: visit_all [OF a] a)
qed

text \<open>
  C11: Whatever order the map is visited in, \<open>List\<close> returns every incident once, the newest
  first, and \<open>Active\<close> returns an active incident created no earlier than any other active one,
  or nothing exactly when none is active.
\<close>

theorem list_and_active:
  assumes "distinct order" "set order = dom (is_incidents s)"
  shows "sorted_wrt (\<lambda>x y. in_created_at y \<le> in_created_at x) (inc_list order s) \<and>
    mset (inc_list order s) = {#the (is_incidents s iid). iid \<in># mset order#} \<and>
    (inc_active order s = None \<longleftrightarrow> (\<forall>i \<in> ran (is_incidents s). in_status i \<noteq> IncActive)) \<and>
    (\<forall>r. inc_active order s = Some r \<longrightarrow> r \<in> ran (is_incidents s) \<and> in_status r = IncActive \<and>
       (\<forall>i \<in> ran (is_incidents s). in_status i = IncActive \<longrightarrow> in_created_at i \<le> in_created_at r))"
  using sort_from_1 [of "visit s order"] latest_active_None [of "visit s order"]
  by (simp add: inc_list_def inc_active_def set_visit [OF assms(2)] newer_eq_def [abs_def])
    (simp add: visit_all [OF assms(2)])

lemma fold_restore:
  "is_incidents (fold restore_incident all s) = is_incidents s ++ map_of (rev (map (\<lambda>i. (in_id i, i)) all))"
  "inc_history (fold restore_incident all s) k =
     inc_history s k @ map in_id (filter (\<lambda>i. in_occurrence_key i = k) all)"
  "is_decisions (fold restore_incident all s) = is_decisions s"
proof -
  have "is_incidents (fold restore_incident all s) =
      is_incidents s ++ map_of (rev (map (\<lambda>i. (in_id i, i)) all)) \<and>
    inc_history (fold restore_incident all s) k =
      inc_history s k @ map in_id (filter (\<lambda>i. in_occurrence_key i = k) all) \<and>
    is_decisions (fold restore_incident all s) = is_decisions s"
  proof (induction all arbitrary: s)
    case (Cons i all)
    have "is_incidents (restore_incident i s) = (is_incidents s)(in_id i \<mapsto> i)"
        "inc_history (restore_incident i s) k = (if k = in_occurrence_key i then inc_history s k @ [in_id i]
           else inc_history s k)" "is_decisions (restore_incident i s) = is_decisions s"
      by (auto simp: restore_incident_def inc_history_def)
    with Cons [of "restore_incident i s"] show ?case
      by (auto simp: map_add_def fun_eq_iff split: option.splits)
  qed simp
  then show "is_incidents (fold restore_incident all s) =
      is_incidents s ++ map_of (rev (map (\<lambda>i. (in_id i, i)) all))"
    "inc_history (fold restore_incident all s) k =
      inc_history s k @ map in_id (filter (\<lambda>i. in_occurrence_key i = k) all)"
    "is_decisions (fold restore_incident all s) = is_decisions s" by auto
qed

lemma map_of_ids:
  assumes "linked s" "set all = ran (is_incidents s)"
  shows "map_of (rev (map (\<lambda>i. (in_id i, i)) all)) = is_incidents s"
proof
  fix iid
  let ?xs = "rev (map (\<lambda>i. (in_id i, i)) all)"
  have inj: "inj_on in_id (set all)"
    using linkedD1 [OF assms(1)] unfolding assms(2) ran_def by (fastforce simp: inj_on_def)
  show "map_of ?xs iid = is_incidents s iid"
  proof (cases "is_incidents s iid")
    case None
    then have "iid \<notin> in_id ` set all" using linkedD1 [OF assms(1)] unfolding assms(2) by (auto simp: ran_def)
    then show ?thesis using None by (auto simp: map_of_eq_None_iff image_image)
  next
    case (Some i)
    then have i: "i \<in> set all" "in_id i = iid" using linkedD1 [OF assms(1)] unfolding assms(2) by (auto simp: ran_def)
    have "map_of ?xs iid \<noteq> None" using i by (auto simp: map_of_eq_None_iff image_image)
    then obtain j where j: "map_of ?xs iid = Some j" by blast
    then have "j \<in> set all" "in_id j = iid" by (auto dest!: map_of_SomeD)
    with inj i have "j = i" by (auto simp: inj_on_def)
    with j Some show ?thesis by simp
  qed
qed

lemma restore_law:
  fixes s :: incident_store and ds :: "string \<rightharpoonup> decision list"
  assumes "linked s" "distinct all" "set all = ran (is_incidents s)"
    and "\<forall>k. sorted (map in_occurrence_sequence (filter (\<lambda>i. in_occurrence_key i = k) all))"
  defines "s' \<equiv> inc_restore all ds new_incident_store"
  shows "is_incidents s' = is_incidents s" "inc_history s' k = inc_history s k" "is_decisions s' = ds"
proof -
  note L = assms(1)
  show "is_incidents s' = is_incidents s"
    using map_of_ids [OF L(1) assms(3)]
    by (simp add: s'_def inc_restore_def Let_def fold_restore new_incident_store_def)
  show "is_decisions s' = ds"
    by (simp add: s'_def inc_restore_def Let_def fold_restore new_incident_store_def)
  show "inc_history s' k = inc_history s k"
  proof -
    let ?F = "filter (\<lambda>i. in_occurrence_key i = k) all"
    let ?H = "map (\<lambda>iid. the (is_incidents s iid)) (inc_history s k)"
    have seqs: "map in_occurrence_sequence ?H = map (\<lambda>n. int n + 1) [0..<length (inc_history s k)]"
      using linkedD2 [OF L(1), of _ k] by (intro nth_equalityI) (force simp del: upt_Suc)+
    have setH: "set ?H = set ?F"
    proof (intro equalityI subsetI)
      fix i assume "i \<in> set ?H"
      then obtain iid where "iid \<in> set (inc_history s k)" "i = the (is_incidents s iid)" by auto
      moreover from this(1) obtain inc where "is_incidents s iid = Some inc" "in_occurrence_key inc = k"
        by (rule linked_history_known [OF L(1)])
      ultimately show "i \<in> set ?F" using assms(3) by (auto simp: ran_def)
    next
      fix i assume "i \<in> set ?F"
      then obtain iid where "is_incidents s iid = Some i" "in_occurrence_key i = k"
        using assms(3) by (auto simp: ran_def)
      then show "i \<in> set ?H" using linkedD1 [OF L(1)] by force
    qed
    have dH: "distinct (map in_occurrence_sequence ?H)" unfolding seqs by (simp add: distinct_map inj_on_def)
    have sH: "sorted (map in_occurrence_sequence ?H)"
      unfolding seqs by (simp add: sorted_iff_nth_mono)
    have inj: "inj_on in_occurrence_sequence (set ?H)" using dH by (simp only: distinct_map)
    have "distinct (map in_occurrence_sequence ?F)"
      using inj assms(2) unfolding setH by (simp add: distinct_map)
    with sH dH assms(4) inj setH have "?H = ?F"
      by (intro map_sorted_distinct_set_unique [of in_occurrence_sequence]) auto
    moreover have "map in_id ?H = inc_history s k"
      using linkedD2 [OF L(1), of _ k] linkedD1 [OF L(1)] by (intro nth_equalityI) force+
    moreover have "inc_history s' k = map in_id ?F"
      unfolding s'_def inc_restore_def Let_def
      using fold_restore(2) [of all new_incident_store k]
      by (simp add: inc_history_def new_incident_store_def)
    ultimately show ?thesis by simp
  qed
qed

text \<open>
  A restart loses nothing of the incident store: restoring all incidents, ordered by sequence
  number within each key, and the audit trails gives the same incidents, histories and decisions,
  whatever the order of the keys.
\<close>

lemma restore_rebuilds:
  assumes "store_ok s" "distinct all" "set all = ran (is_incidents s)"
    and "\<forall>k. sorted (map in_occurrence_sequence (filter (\<lambda>i. in_occurrence_key i = k) all))"
  defines "s' \<equiv> inc_restore all (is_decisions s) new_incident_store"
  shows "is_incidents s' = is_incidents s \<and> (\<forall>k. inc_history s' k = inc_history s k) \<and>
    is_decisions s' = is_decisions s \<and> store_ok s'"
proof -
  have L: "linked s" using assms(1) by (simp add: store_ok_def)
  note r = restore_law [OF L assms(2-4), of "is_decisions s", folded s'_def]
  then have "store_ok s'"
    using assms(1) by (simp add: store_ok_def linked_def active_is_last_def audited_def inc_decisions_def)
  with r show ?thesis by blast
qed

section \<open>Witnesses\<close>

definition demo_candidate :: candidate where
  "demo_candidate =
     \<lparr>cd_occurrence_key = ''Memory Leak:rtr-01'', cd_root_cause = ''Memory Leak'', cd_severity = IncHigh,
      cd_affected_devices = [''rtr-01''], cd_confidence = Fin (7 / 8), cd_sla_breach_minutes = 22,
      cd_recommended_action = ''restart''\<rparr>"

definition demo_incident :: "int \<Rightarrow> incident" where
  "demo_incident n = new_incident demo_candidate n (demo_time + n)"

text \<open>A store after one detection, after its resolution, and after the second detection.\<close>

definition demo_store1 :: incident_store where
  "demo_store1 = fst (inc_upsert demo_candidate (demo_time + 1) new_incident_store)"

definition demo_store2 :: incident_store where
  "demo_store2 = fst (inc_decide (in_id (demo_incident 1)) IncResolved ''op'' demo_time demo_store1)"

lemma demo_upsert1:
  "inc_upsert demo_candidate (demo_time + 1) new_incident_store = (demo_store1, demo_incident 1, True)"
  by (simp add: demo_store1_def inc_upsert_def new_incident_store_def active_last_def demo_incident_def
      lookup_list_def Let_def)

lemma demo_fresh1: "fresh_id demo_candidate (demo_time + 1) new_incident_store"
  by (simp add: fresh_id_def new_incident_store_def)

lemma demo_store1:
  "is_incidents demo_store1 = [in_id (demo_incident 1) \<mapsto> demo_incident 1]"
  "inc_history demo_store1 ''Memory Leak:rtr-01'' = [in_id (demo_incident 1)]"
  "is_decisions demo_store1 = Map.empty"
  by (simp_all add: demo_store1_def inc_upsert_def new_incident_store_def active_last_def
      demo_incident_def lookup_list_def Let_def inc_history_def demo_candidate_def)

lemma demo_reachable1: "store_reachable demo_store1"
  by (rule reach_step [OF reach_new step_upsert [OF demo_fresh1 demo_upsert1]])

lemma demo_decide:
  "inc_decide (in_id (demo_incident 1)) IncResolved ''op'' demo_time demo_store1 =
    (demo_store2, Inr ((demo_incident 1)\<lparr>in_status := IncResolved, in_updated_at := demo_time\<rparr>, True))"
proof -
  have "in_status (demo_incident 1) = IncActive" by (simp add: demo_incident_def)
  then show ?thesis by (simp add: demo_store2_def inc_decide_def demo_store1 Let_def)
qed

lemma demo_store2:
  "is_incidents demo_store2 = [in_id (demo_incident 1) \<mapsto>
     (demo_incident 1)\<lparr>in_status := IncResolved, in_updated_at := demo_time\<rparr>]"
  "inc_history demo_store2 ''Memory Leak:rtr-01'' = [in_id (demo_incident 1)]"
proof -
  from demo_decide obtain e where e: "is_incidents demo_store2 = (is_incidents demo_store1)
        (in_id (demo_incident 1) \<mapsto> (demo_incident 1)\<lparr>in_status := IncResolved, in_updated_at := demo_time\<rparr>)"
      "\<forall>k. inc_history demo_store2 k = inc_history demo_store1 k"
    by (rule inc_decide_Inr)
  show "is_incidents demo_store2 = [in_id (demo_incident 1) \<mapsto>
     (demo_incident 1)\<lparr>in_status := IncResolved, in_updated_at := demo_time\<rparr>]"
    by (simp only: e(1) demo_store1 fun_upd_upd)
  show "inc_history demo_store2 ''Memory Leak:rtr-01'' = [in_id (demo_incident 1)]"
    by (simp only: e(2) demo_store1)
qed

lemma demo_fresh2: "fresh_id demo_candidate (demo_time + 2) demo_store2"
proof -
  have "cd_occurrence_key demo_candidate = ''Memory Leak:rtr-01''" by (simp add: demo_candidate_def)
  then show ?thesis
    using new_incident_id_neq [of 2 1]
    by (simp add: fresh_id_def demo_store2 demo_incident_def)
qed

theorem store_invariant_witness:
  "in_status (demo_incident 1) = IncActive \<and>
   map (\<lambda>iid. map_option (\<lambda>i. (in_occurrence_key i, in_occurrence_sequence i)) (is_incidents demo_store1 iid))
     (inc_history demo_store1 ''Memory Leak:rtr-01'') = [Some (''Memory Leak:rtr-01'', 1)]"
  using store_invariant [OF demo_reachable1, of "''Memory Leak:rtr-01''" "in_id (demo_incident 1)"
      "demo_incident 1"]
  by (simp add: demo_store1 inc_decisions_def)

theorem upsert_recurrence_witness:
  "in_occurrence_sequence (demo_incident 1) = 1 \<and> in_status (demo_incident 1) = IncActive"
  using upsert_recurrence [OF reach_new demo_fresh1 demo_upsert1]
  by (simp add: inc_history_def new_incident_store_def)

theorem closed_fault_recurs_witness:
  "\<exists>s3 i3. inc_upsert demo_candidate (demo_time + 2) demo_store2 = (s3, i3, True) \<and>
     in_occurrence_sequence i3 = in_occurrence_sequence (demo_incident 1) + 1"
proof -
  obtain s3 i3 b where u: "inc_upsert demo_candidate (demo_time + 2) demo_store2 = (s3, i3, b)"
    by (cases "inc_upsert demo_candidate (demo_time + 2) demo_store2")
  show ?thesis
    using closed_fault_recurs [OF demo_upsert1 _ demo_decide refl demo_fresh2 u] u by simp
qed

lemma demo_legal:
  "legal_run store_op_step store_op_legal
     [OpUpsert demo_candidate (demo_time + 1), OpDecide (in_id (demo_incident 1)) IncResolved ''op'' demo_time]
     new_incident_store"
  by (simp add: demo_fresh1 demo_upsert1)

lemma gauge_counts_active_witness: "active_count demo_store2 = 0"
  using gauge_counts_active [OF demo_legal, of demo_store2 0] by (simp add: demo_upsert1 demo_decide)

theorem list_and_active_witness:
  "inc_active [in_id (demo_incident 1)] demo_store2 = None \<and>
   mset (inc_list [in_id (demo_incident 1)] demo_store2) =
     {#(demo_incident 1)\<lparr>in_status := IncResolved, in_updated_at := demo_time\<rparr>#}"
  using list_and_active [of "[in_id (demo_incident 1)]" demo_store2] by (simp add: demo_store2)

lemma restore_rebuilds_witness:
  "is_incidents (inc_restore [demo_incident 1] (is_decisions demo_store1) new_incident_store) =
   is_incidents demo_store1"
  using restore_rebuilds [of demo_store1 "[demo_incident 1]"] store_reachable_ok [OF demo_reachable1]
  by (simp add: demo_store1)

end
