(* ===== verification/Runbooks.thy ===== *)
theory Runbooks
  imports GoLib "HOL-Library.Product_Lexorder"
begin

text \<open>
  \<open>internal/runbooks/runbooks.go\<close>: loading the markdown library and keyword-overlap retrieval. The
  file system is a parameter: \<open>read_dir\<close> lists a directory, \<open>read_file dir name\<close> reads the file
  \<open>filepath.Join(dir, name)\<close>; both may fail. The case functions are the ASCII ones of GoLib.
\<close>

record rb_document =
  rd_title :: string
  rd_source :: string
  rd_content :: string
  rd_lower :: string
  rd_stem :: string

record library =
  lib_dir :: string
  lib_docs :: "rb_document list"

record rb_result =
  rr_title :: string
  rr_source :: string
  rr_content :: string
  rr_match_method :: string
  rr_score :: int

record dir_entry =
  de_name :: string
  de_is_dir :: bool

definition match_method :: string where
  "match_method = ''keyword-overlap''"

text \<open>\<open>w[:1]\<close> is one byte: for a word that starts with a longer character \<open>ToUpper\<close> turns it into U+FFFD.\<close>

definition title_word :: "string \<Rightarrow> string" where
  "title_word w =
     (case w of
        [] \<Rightarrow> []
      | c # cs \<Rightarrow> (if of_char c < (128 :: nat) then [upper_char c] else [CHR 0xEF, CHR 0xBF, CHR 0xBD]) @ cs)"

definition title_case :: "string \<Rightarrow> string" where
  "title_case stem = join_space (map title_word (fields_func (\<lambda>c. c = CHR ''_'' \<or> c = CHR ''-'') stem))"

definition query_terms :: "string \<Rightarrow> string list" where
  "query_terms query = GoLib.fields (to_lower (replace_char (CHR ''_'') (CHR '' '') query))"

section \<open>Load\<close>

definition document_of :: "string \<Rightarrow> string \<Rightarrow> rb_document" where
  "document_of name content =
     (let stem = trim_suffix name ''.md'' in
      \<lparr>rd_title = title_case stem, rd_source = name, rd_content = content,
       rd_lower = to_lower content, rd_stem = to_lower stem\<rparr>)"

definition is_markdown :: "dir_entry \<Rightarrow> bool" where
  "is_markdown e \<longleftrightarrow> \<not> de_is_dir e \<and> has_suffix (de_name e) ''.md''"

fun load_docs ::
  "(string \<Rightarrow> string \<Rightarrow> string + string) \<Rightarrow> string \<Rightarrow> dir_entry list \<Rightarrow> string + rb_document list" where
  "load_docs read_file dir [] = Inr []"
| "load_docs read_file dir (e # es) =
     (if \<not> is_markdown e then load_docs read_file dir es
      else case read_file dir (de_name e) of
        Inl err \<Rightarrow> Inl err
      | Inr content \<Rightarrow>
          (case load_docs read_file dir es of
             Inl err \<Rightarrow> Inl err
           | Inr docs \<Rightarrow> Inr (document_of (de_name e) content # docs)))"

definition load_library ::
  "(string \<Rightarrow> string + dir_entry list) \<Rightarrow> (string \<Rightarrow> string \<Rightarrow> string + string) \<Rightarrow> string \<Rightarrow> string + library" where
  "load_library read_dir read_file dir =
     (case read_dir dir of
        Inl err \<Rightarrow> Inl err
      | Inr entries \<Rightarrow>
          (case load_docs read_file dir entries of
             Inl err \<Rightarrow> Inl err
           | Inr docs \<Rightarrow> Inr \<lparr>lib_dir = dir, lib_docs = sort_key rd_source docs\<rparr>))"

section \<open>Retrieve\<close>

definition doc_matches :: "rb_document \<Rightarrow> string \<Rightarrow> bool" where
  "doc_matches d t \<longleftrightarrow> contains (rd_lower d) t \<or> contains (rd_stem d) t"

definition doc_score :: "string list \<Rightarrow> rb_document \<Rightarrow> int" where
  "doc_score ts d = fold (\<lambda>t score. if t = '''' then score else if doc_matches d t then score + 1 else score) ts 0"

text \<open>The stable sort with \<open>higher score first, then source\<close> as the order.\<close>

definition rank_key :: "rb_document \<times> int \<Rightarrow> int \<times> string" where
  "rank_key ds = (- snd ds, rd_source (fst ds))"

definition retrieve :: "library \<Rightarrow> string \<Rightarrow> int \<Rightarrow> rb_result list" where
  "retrieve l query limit =
     (let ts = query_terms query;
          candidates = sort_key rank_key (map (\<lambda>d. (d, doc_score ts d)) (lib_docs l));
          n = (if limit \<le> 0 \<or> limit > int (length candidates) then int (length candidates) else limit)
      in map (\<lambda>(d, score). \<lparr>rr_title = rd_title d, rr_source = rd_source d, rr_content = rd_content d,
           rr_match_method = match_method, rr_score = score\<rparr>) (take (nat n) candidates))"

section \<open>Properties\<close>

lemma doc_score_count: "doc_score ts d = int (length (filter (\<lambda>t. t \<noteq> '''' \<and> doc_matches d t) ts))"
proof -
  have "fold (\<lambda>t score. if t = '''' then score else if doc_matches d t then score + 1 else score) ts n =
      n + int (length (filter (\<lambda>t. t \<noteq> '''' \<and> doc_matches d t) ts))" for n
    by (induction ts arbitrary: n) auto
  from this [of 0] show ?thesis by (simp add: doc_score_def)
qed

lemma query_terms_nonempty: "t \<in> set (query_terms q) \<Longrightarrow> t \<noteq> ''''"
  using fields_func_clean by (fastforce simp: query_terms_def GoLib.fields_def)

definition term_hits :: "string \<Rightarrow> rb_document \<Rightarrow> nat" where
  "term_hits q d = length (filter (doc_matches d) (query_terms q))"

definition readable :: "(string \<Rightarrow> string \<Rightarrow> string + string) \<Rightarrow> string \<Rightarrow> dir_entry list \<Rightarrow> bool" where
  "readable read_file dir es \<longleftrightarrow> (\<forall>e \<in> set es. is_markdown e \<longrightarrow> (\<exists>c. read_file dir (de_name e) = Inr c))"

lemma load_docs_readable:
  "readable read_file dir es \<Longrightarrow> load_docs read_file dir es =
     Inr (map (\<lambda>e. document_of (de_name e) (projr (read_file dir (de_name e)))) (filter is_markdown es))"
  by (induction es) (auto simp: readable_def)

lemma load_docs_unreadable: "\<not> readable read_file dir es \<Longrightarrow> \<exists>err. load_docs read_file dir es = Inl err"
proof (induction es)
  case (Cons e es)
  show ?case
  proof (cases "readable read_file dir es")
    case True
    then have "is_markdown e" "\<not> (\<exists>c. read_file dir (de_name e) = Inr c)"
      using Cons.prems by (auto simp: readable_def)
    then show ?thesis by (cases "read_file dir (de_name e)") auto
  next
    case False
    with Cons.IH show ?thesis by (auto split: sum.splits)
  qed
qed (simp add: readable_def)

lemma document_of_source [simp]: "rd_source (document_of n c) = n"
  by (simp add: document_of_def Let_def)

text \<open>
  C19: Retrieval returns at most \<open>limit\<close> documents (all when the limit is not positive), the ones
  with the highest overlap: every returned score is the number of query terms that occur in the
  document's text or name, the results are ordered by score and then by file name, and no document
  left out ranks before one returned.
\<close>

theorem retrieve_ranked:
  "length (retrieve l q limit) =
      (if limit \<le> 0 then length (lib_docs l) else min (nat limit) (length (lib_docs l))) \<and>
    sorted_wrt (\<lambda>x y. rr_score x > rr_score y \<or> (rr_score x = rr_score y \<and> rr_source x \<le> rr_source y))
      (retrieve l q limit) \<and>
    (\<exists>out rest. mset (out @ rest) = mset (lib_docs l) \<and>
       map (\<lambda>x. (rr_source x, rr_content x, rr_match_method x, rr_score x)) (retrieve l q limit) =
         map (\<lambda>d. (rd_source d, rd_content d, ''keyword-overlap'', int (term_hits q d))) out \<and>
       (\<forall>d \<in> set out. \<forall>e \<in> set rest. term_hits q d > term_hits q e \<or>
          (term_hits q d = term_hits q e \<and> rd_source d \<le> rd_source e)))"
proof -
  let ?ts = "query_terms q"
  define C where "C = sort_key rank_key (map (\<lambda>d. (d, doc_score ?ts d)) (lib_docs l))"
  define n where "n = (if limit \<le> 0 \<or> limit > int (length C) then int (length C) else limit)"
  let ?R = "\<lambda>(d, score). \<lparr>rr_title = rd_title d, rr_source = rd_source d, rr_content = rd_content d,
      rr_match_method = match_method, rr_score = score\<rparr>"
  have r: "retrieve l q limit = map ?R (take (nat n) C)"
    by (simp add: retrieve_def C_def n_def Let_def)
  have lenC: "length C = length (lib_docs l)" by (simp add: C_def)
  have score: "doc_score ?ts d = int (term_hits q d)" for d
    unfolding doc_score_count term_hits_def using query_terms_nonempty [of _ q]
    by (metis (mono_tags, lifting) filter_cong)
  have setC: "set C = (\<lambda>d. (d, int (term_hits q d))) ` set (lib_docs l)" by (simp add: C_def score)
  have "sorted (map rank_key C)" unfolding C_def by (rule sorted_sort_key)
  then have "sorted_wrt (\<lambda>x y. rank_key x \<le> rank_key y) C" by (simp add: sorted_map)
  then have sC: "sorted_wrt (\<lambda>x y. snd x > snd y \<or> (snd x = snd y \<and> rd_source (fst x) \<le> rd_source (fst y))) C"
    by (rule sorted_wrt_mono_rel [rotated]) (auto simp: rank_key_def less_eq_prod_simp)
  define out rest where "out = map fst (take (nat n) C)" and "rest = map fst (drop (nat n) C)"
  have "mset (out @ rest) = mset (map fst C)"
    unfolding out_def rest_def by (metis append_take_drop_id map_append)
  also have "\<dots> = mset (lib_docs l)" by (simp add: C_def multiset.map_comp o_def mset_map)
  finally have perm: "mset (out @ rest) = mset (lib_docs l)" .
  have pair: "x \<in> set C \<Longrightarrow> snd x = int (term_hits q (fst x))" for x using setC by auto
  have "map (\<lambda>x. (rr_source x, rr_content x, rr_match_method x, rr_score x)) (map ?R (take (nat n) C)) =
      map (\<lambda>d. (rd_source d, rd_content d, ''keyword-overlap'', int (term_hits q d))) out"
    unfolding out_def map_map
    by (rule map_cong [OF refl]) (use pair in \<open>auto simp: match_method_def split_beta dest!: in_set_takeD\<close>)
  moreover have "\<forall>d \<in> set out. \<forall>e \<in> set rest. term_hits q d > term_hits q e \<or>
      (term_hits q d = term_hits q e \<and> rd_source d \<le> rd_source e)"
  proof (intro ballI)
    fix d e assume "d \<in> set out" "e \<in> set rest"
    then obtain x y where xy: "x \<in> set (take (nat n) C)" "y \<in> set (drop (nat n) C)" "d = fst x" "e = fst y"
      by (auto simp: out_def rest_def)
    have "sorted_wrt (\<lambda>x y. snd x > snd y \<or> (snd x = snd y \<and> rd_source (fst x) \<le> rd_source (fst y)))
        (take (nat n) C @ drop (nat n) C)" using sC by simp
    then have "snd x > snd y \<or> (snd x = snd y \<and> rd_source (fst x) \<le> rd_source (fst y))"
      using xy(1,2) unfolding sorted_wrt_append by blast
    then show "term_hits q d > term_hits q e \<or> (term_hits q d = term_hits q e \<and> rd_source d \<le> rd_source e)"
      using pair [OF in_set_takeD [OF xy(1)]] pair [OF in_set_dropD [OF xy(2)]] xy(3,4) by simp
  qed
  moreover have "sorted_wrt (\<lambda>x y. rr_score x > rr_score y \<or> (rr_score x = rr_score y \<and> rr_source x \<le> rr_source y))
      (map ?R (take (nat n) C))"
    unfolding sorted_wrt_map
    by (rule sorted_wrt_mono_rel [OF _ sorted_wrt_take [OF sC]]) (auto simp: split_beta)
  moreover have "length (map ?R (take (nat n) C)) =
      (if limit \<le> 0 then length (lib_docs l) else min (nat limit) (length (lib_docs l)))"
    by (auto simp: n_def lenC min_def)
  ultimately show ?thesis unfolding r using perm by blast
qed

lemma retrieve_ranked_witness:
  "length (retrieve \<lparr>lib_dir = ''rb'', lib_docs = [document_of ''bgp_flap.md'' ''reset the bgp peer'',
      document_of ''latency.md'' ''reroute'']\<rparr> ''BGP latency_peer'' 1) = 1"
  using retrieve_ranked [of "\<lparr>lib_dir = ''rb'', lib_docs = [document_of ''bgp_flap.md'' ''reset the bgp peer'',
      document_of ''latency.md'' ''reroute'']\<rparr>" "''BGP latency_peer''" 1]
  by simp

text \<open>
  Loading keeps exactly the readable markdown files, sorted by name: the library does not depend
  on the order in which the file system lists the directory, and it fails exactly when the
  directory or one of its markdown files cannot be read.
\<close>

lemma load_order_independent:
  assumes "read_dir dir = Inr es" "read_dir' dir = Inr es'" "mset es = mset es'"
    and "distinct (map de_name es)"
  shows "(\<exists>l. load_library read_dir read_file dir = Inr l) =
      (\<forall>e \<in> set es. is_markdown e \<longrightarrow> (\<exists>c. read_file dir (de_name e) = Inr c)) \<and>
    (\<forall>l. load_library read_dir read_file dir = Inr l \<longrightarrow>
       load_library read_dir' read_file dir = Inr l \<and>
       map rd_source (lib_docs l) = sort (map de_name (filter is_markdown es)))"
proof -
  let ?D = "\<lambda>e. document_of (de_name e) (projr (read_file dir (de_name e)))"
  have set: "set es = set es'" using assms(3) by (rule mset_eq_setD)
  have "mset (map ?D (filter is_markdown es)) = mset (map ?D (filter is_markdown es'))"
    using assms(3) by (simp only: mset_map mset_filter)
  moreover have "distinct (map rd_source (map ?D (filter is_markdown es)))"
    using assms(4) by (simp add: o_def distinct_map_filter)
  ultimately have eq: "sort_key rd_source (map ?D (filter is_markdown es)) =
      sort_key rd_source (map ?D (filter is_markdown es'))"
    by (rule sort_key_unique)
  have "map rd_source (sort_key rd_source (map ?D (filter is_markdown es))) =
      sort (map de_name (filter is_markdown es))"
    by (rule properties_for_sort [symmetric]) (simp_all add: multiset.map_comp o_def)
  moreover have "readable read_file dir es = readable read_file dir es'" by (simp add: readable_def set)
  moreover have "(\<forall>e \<in> set es. is_markdown e \<longrightarrow> (\<exists>c. read_file dir (de_name e) = Inr c)) =
      readable read_file dir es" by (simp add: readable_def)
  ultimately show ?thesis
    using eq assms(1,2) load_docs_readable [of read_file dir es] load_docs_readable [of read_file dir es']
      load_docs_unreadable [of read_file dir es]
    by (cases "readable read_file dir es") (auto simp: load_library_def)
qed

lemma load_order_independent_witness:
  "\<exists>l. load_library (\<lambda>_. Inr [\<lparr>de_name = ''b.md'', de_is_dir = False\<rparr>, \<lparr>de_name = ''a.md'', de_is_dir = False\<rparr>])
       (\<lambda>_ _. Inr ''text'') ''rb'' = Inr l \<and> map rd_source (lib_docs l) = [''a.md'', ''b.md'']"
proof -
  let ?es = "[\<lparr>de_name = ''b.md'', de_is_dir = False\<rparr>, \<lparr>de_name = ''a.md'', de_is_dir = False\<rparr>]"
  let ?rd = "\<lambda>_ :: string. Inr ?es :: string + dir_entry list"
  have w: "(\<exists>l. load_library ?rd (\<lambda>_ _. Inr ''text'') ''rb'' = Inr l) =
      (\<forall>e \<in> set ?es. is_markdown e \<longrightarrow> (\<exists>c. (Inr ''text'' :: string + string) = Inr c)) \<and>
    (\<forall>l. load_library ?rd (\<lambda>_ _. Inr ''text'') ''rb'' = Inr l \<longrightarrow>
       load_library ?rd (\<lambda>_ _. Inr ''text'') ''rb'' = Inr l \<and>
       map rd_source (lib_docs l) = sort (map de_name (filter is_markdown ?es)))"
    by (rule load_order_independent [of ?rd "''rb''" ?es ?rd ?es]) simp_all
  have "sort (map de_name (filter is_markdown ?es)) = [''a.md'', ''b.md'']" by code_simp
  with w show ?thesis by auto
qed

end
