(* ===== verification/Wire.thy ===== *)
theory Wire
  imports JsonCodec Detection Forecast IncidentStore Runbooks
begin

text \<open>
  \<open>internal/api/dto.go\<close>: the wire format of the API. A data transfer object is the JSON document
  its struct tags describe; a request is decoded into a record. The texts of validation errors
  (\<open>fmt\<close>'s \<open>%.2f\<close> and \<open>%q\<close>, for ASCII text) are here as well.
\<close>

section \<open>Names of the enumerations\<close>

fun severity_text :: "severity \<Rightarrow> string" where
  "severity_text SeverityLow = ''low''"
| "severity_text SeverityMedium = ''medium''"
| "severity_text SeverityHigh = ''high''"
| "severity_text SeverityCritical = ''critical''"

fun risk_text :: "risk_level \<Rightarrow> string" where
  "risk_text RiskLow = ''low''"
| "risk_text RiskMedium = ''medium''"
| "risk_text RiskHigh = ''high''"
| "risk_text RiskCritical = ''critical''"

fun inc_severity_text :: "inc_severity \<Rightarrow> string" where
  "inc_severity_text IncLow = ''low''"
| "inc_severity_text IncMedium = ''medium''"
| "inc_severity_text IncHigh = ''high''"
| "inc_severity_text IncCritical = ''critical''"

fun inc_status_text :: "inc_status \<Rightarrow> string" where
  "inc_status_text IncActive = ''active''"
| "inc_status_text IncResolved = ''resolved''"
| "inc_status_text IncIgnored = ''ignored''"

section \<open>itoa\<close>

text \<open>The loop writes into a buffer of 20 bytes from the back; \<open>room\<close> is the index \<open>i\<close>. \<open>None\<close> is the
  panic of an index below zero.\<close>

fun itoa_loop :: "nat \<Rightarrow> int \<Rightarrow> string \<Rightarrow> (nat \<times> string) option" where
  "itoa_loop room n buf =
     (if n \<le> 0 then Some (room, buf)
      else case room of
        0 \<Rightarrow> None
      | Suc i \<Rightarrow> itoa_loop i (tdiv n 10) (digit_char (nat (n mod 10)) # buf))"

declare itoa_loop.simps [simp del]

definition itoa :: "int \<Rightarrow> string option" where
  "itoa n =
     (if n = 0 then Some ''0''
      else let neg = n < 0; m = (if neg then wrap64 (- n) else n) in
        case itoa_loop 20 m [] of
          None \<Rightarrow> None
        | Some (i, buf) \<Rightarrow>
            if neg then (case i of 0 \<Rightarrow> None | Suc _ \<Rightarrow> Some (CHR ''-'' # buf)) else Some buf)"

definition format_label :: "int \<Rightarrow> string option" where
  "format_label minutes = map_option (\<lambda>s. ''+'' @ s @ ''m'') (itoa minutes)"

section \<open>Responses\<close>

definition provenance_json :: "prov_value \<Rightarrow> json" where
  "provenance_json v =
     JObj ([(''value'', case pv_value v of None \<Rightarrow> JNull | Some x \<Rightarrow> JNum x),
        (''unit'', JStr (pv_unit v)), (''source'', JStr (pv_source v)), (''mode'', JStr (pv_mode v)),
        (''observed_at'', JStr (rfc3339 (pv_observed_at v))), (''run_id'', JStr (pv_run_id v))] @
       (if pv_unavailable_reason v = '''' then []
        else [(''unavailable_reason'', JStr (pv_unavailable_reason v))]))"

definition health_json :: "string \<Rightarrow> string \<Rightarrow> (string \<times> string) list \<Rightarrow> string \<Rightarrow> string \<Rightarrow> json" where
  "health_json status md chks version run_id =
     JObj [(''status'', JStr status), (''mode'', JStr md),
       (''checks'', JObj (map (\<lambda>(k, v). (k, JStr v)) chks)), (''version'', JStr version),
       (''run_id'', JStr run_id)]"

definition forecast_point_json :: "forecast_point \<Rightarrow> json option" where
  "forecast_point_json p =
     map_option (\<lambda>l. JObj [(''label'', JStr l), (''cpu_percent'', JNum (fp_cpu_percent p)),
       (''latency_ms'', JNum (fp_latency_ms p)), (''packet_loss_percent'', JNum (fp_packet_loss_percent p))])
       (format_label (fp_label_minutes p))"

definition forecast_json :: "forecast_result \<Rightarrow> string \<Rightarrow> string \<Rightarrow> gotime \<Rightarrow> json option" where
  "forecast_json r md run_id now =
     map_option (\<lambda>points.
       JObj [(''device'', JStr (fr_device r)), (''method'', JStr (fr_method r)),
         (''horizon_minutes'', JInt (fr_horizon_mins r)), (''current_trend'', JStr (fr_current_trend r)),
         (''confidence'', provenance_json (new_value (fr_confidence r) ''percent'' SourceComputed md now run_id)),
         (''risk_level'', JStr (risk_text (fr_risk_level r))), (''points'', JArr points)])
       (those (map forecast_point_json (fr_points r)))"

definition anomaly_json :: "anomaly \<Rightarrow> json" where
  "anomaly_json a =
     JObj [(''id'', JStr (an_id a)), (''device'', JStr (an_device a)), (''signal'', JStr (an_signal a)),
       (''score'', JNum (an_score a)), (''severity'', JStr (severity_text (an_severity a))),
       (''detected_at'', JStr (rfc3339 (an_detected_at a)))]"

definition incident_json :: "incident \<Rightarrow> json" where
  "incident_json i =
     JObj [(''id'', JStr (in_id i)), (''occurrence_key'', JStr (in_occurrence_key i)),
       (''occurrence_sequence'', JInt (in_occurrence_sequence i)),
       (''severity'', JStr (inc_severity_text (in_severity i))),
       (''affected_devices'', marshal_strings (in_affected_devices i)),
       (''root_cause'', JStr (in_root_cause i)), (''status'', JStr (inc_status_text (in_status i))),
       (''created_at'', JStr (rfc3339 (in_created_at i))), (''updated_at'', JStr (rfc3339 (in_updated_at i))),
       (''confidence'', JNum (in_confidence i)),
       (''predicted_sla_breach_minutes'', JInt (in_predicted_sla_breach_minutes i)),
       (''recommended_action'', JStr (in_recommended_action i))]"

definition incidents_json :: "incident option \<Rightarrow> incident list \<Rightarrow> json" where
  "incidents_json active items =
     JObj [(''active'', case active of None \<Rightarrow> JNull | Some i \<Rightarrow> incident_json i),
       (''items'', JArr (map incident_json items))]"

definition decision_json :: "decision \<Rightarrow> json" where
  "decision_json d =
     JObj [(''status'', JStr (inc_status_text (de_status d))), (''actor'', JStr (de_actor d)),
       (''decided_at'', JStr (rfc3339 (de_decided_at d)))]"

definition runbook_json :: "rb_result \<Rightarrow> json" where
  "runbook_json r =
     JObj [(''title'', JStr (rr_title r)), (''source'', JStr (rr_source r)),
       (''content'', JStr (rr_content r)), (''match_method'', JStr (rr_match_method r))]"

definition error_json :: "string \<Rightarrow> string \<Rightarrow> string \<Rightarrow> json" where
  "error_json code message trace_id =
     JObj [(''error'', JObj [(''code'', JStr code), (''message'', JStr message), (''trace_id'', JStr trace_id)])]"

definition telemetry_json :: "device_telemetry list \<Rightarrow> gotime \<Rightarrow> string \<Rightarrow> json" where
  "telemetry_json devices now md =
     JObj [(''devices'', JArr (map device_json devices)), (''server_time'', JStr (rfc3339 now)),
       (''mode'', JStr md)]"

text \<open>The nil slice of no errors is written as null.\<close>

definition ingest_json :: "nat \<Rightarrow> nat \<Rightarrow> string list \<Rightarrow> json" where
  "ingest_json accepted rejected errors =
     JObj [(''accepted'', JInt (int accepted)), (''rejected'', JInt (int rejected)),
       (''errors'', if errors = [] then JNull else marshal_strings errors)]"

section \<open>Validation errors as text\<close>

fun fmt_fixed2 :: "f64 \<Rightarrow> string" where
  "fmt_fixed2 (Fin q) =
     (let n = nat (round_half_even (\<bar>q\<bar> * 100)) in
      (if q < 0 then ''-'' else '''') @ show_nat (n div 100) @ ''.'' @ pad0 2 (show_nat (n mod 100)))"
| "fmt_fixed2 PInf = ''+Inf''"
| "fmt_fixed2 NInf = ''-Inf''"
| "fmt_fixed2 NaN = ''NaN''"

definition quote_char :: "char \<Rightarrow> string" where
  "quote_char c =
     (if c = CHR 0x22 \<or> c = CHR 0x5C then [CHR 0x5C, c]
      else if c = CHR 0x07 then CHR 0x5C # ''a''
      else if c = CHR 0x08 then CHR 0x5C # ''b''
      else if c = CHR 0x0C then CHR 0x5C # ''f''
      else if c = CHR 0x0A then CHR 0x5C # ''n''
      else if c = CHR 0x0D then CHR 0x5C # ''r''
      else if c = CHR 0x09 then CHR 0x5C # ''t''
      else if c = CHR 0x0B then CHR 0x5C # ''v''
      else if c < CHR 0x20 \<or> c = CHR 0x7F then CHR 0x5C # ''x'' @ hex_encode [of_char c]
      else [c])"

definition go_quote :: "string \<Rightarrow> string" where
  "go_quote s = [CHR 0x22] @ concat (map quote_char s) @ [CHR 0x22]"

fun validation_text :: "validation_error \<Rightarrow> string" where
  "validation_text EmptyHostname = ''hostname must not be empty''"
| "validation_text (InvalidRole r) = ''invalid role '' @ go_quote r"
| "validation_text (InvalidStatus s) = ''invalid status '' @ go_quote s"
| "validation_text (CpuOutOfRange v) = ''cpu_percent '' @ fmt_fixed2 v @ '' out of range [0,100]''"
| "validation_text (MemoryOutOfRange v) = ''memory_percent '' @ fmt_fixed2 v @ '' out of range [0,100]''"
| "validation_text (BandwidthOutOfRange v) = ''bandwidth_percent '' @ fmt_fixed2 v @ '' out of range [0,100]''"
| "validation_text (PacketLossNegative v) = ''packet_loss_percent '' @ fmt_fixed2 v @ '' must be >= 0''"
| "validation_text (LatencyNegative v) = ''latency_ms '' @ fmt_fixed2 v @ '' must be >= 0''"
| "validation_text ObservedAtUnset = ''observed_at must be set''"

definition ingest_error_text :: "string \<times> validation_error \<Rightarrow> string" where
  "ingest_error_text e = fst e @ '': '' @ validation_text (snd e)"

section \<open>Requests\<close>

record ingest_request =
  iq_run_id :: string
  iq_scenario_id :: string
  iq_devices :: "device_telemetry list"
  iq_logs :: "string list"

fun read_devices :: "json \<Rightarrow> device_telemetry list option" where
  "read_devices (JArr js) = those (map unmarshal_device js)"
| "read_devices JNull = Some []"
| "read_devices _ = None"

fun decode_ingest :: "json \<Rightarrow> ingest_request option" where
  "decode_ingest (JObj kvs) =
     (let f = json_field kvs in
      case (read_string (f ''run_id''), read_string (f ''scenario_id''), read_devices (f ''devices''),
            unmarshal_strings (f ''logs'')) of
        (Some r, Some sc, Some ds, Some ls) \<Rightarrow>
          Some \<lparr>iq_run_id = r, iq_scenario_id = sc, iq_devices = ds, iq_logs = ls\<rparr>
      | _ \<Rightarrow> None)"
| "decode_ingest JNull = Some \<lparr>iq_run_id = '''', iq_scenario_id = '''', iq_devices = [], iq_logs = []\<rparr>"
| "decode_ingest _ = None"

record decision_request =
  dq_status :: string
  dq_actor :: string

fun decode_decision :: "json \<Rightarrow> decision_request option" where
  "decode_decision (JObj kvs) =
     (let f = json_field kvs in
      case (read_string (f ''status''), read_string (f ''actor'')) of
        (Some s, Some a) \<Rightarrow> Some \<lparr>dq_status = s, dq_actor = a\<rparr>
      | _ \<Rightarrow> None)"
| "decode_decision JNull = Some \<lparr>dq_status = '''', dq_actor = ''''\<rparr>"
| "decode_decision _ = None"

section \<open>itoa prints decimal numbers\<close>

lemma itoa_loop_pos:
  "0 < n \<Longrightarrow> length (show_nat n) \<le> room \<Longrightarrow>
   itoa_loop room (int n) buf = Some (room - length (show_nat n), show_nat n @ buf)"
proof (induction n arbitrary: room buf rule: show_nat.induct)
  case (1 n)
  obtain r where r: "room = Suc r"
    using 1(3) show_nat_nonempty [of n] by (cases room) auto
  have dig: "nat (int n mod 10) = n mod 10" by (simp add: nat_mod_distrib)
  have step: "itoa_loop room (int n) buf = itoa_loop r (int (n div 10)) (digit_char (n mod 10) # buf)"
    using 1(2) by (subst itoa_loop.simps) (simp add: r tdiv_nonneg dig zdiv_int)
  show ?case
  proof (cases "n < 10")
    case True
    then have "itoa_loop r (int (n div 10)) (digit_char (n mod 10) # buf) = Some (r, digit_char n # buf)"
      by (subst itoa_loop.simps) simp
    moreover have "show_nat n = [digit_char n]" using True by (subst show_nat.simps) simp
    ultimately show ?thesis unfolding step by (simp add: r)
  next
    case False
    then have s: "show_nat n = show_nat (n div 10) @ [digit_char (n mod 10)]" by (subst show_nat.simps) simp
    with 1(3) have "length (show_nat (n div 10)) \<le> r" by (simp add: r)
    with 1(1) [OF False, of r "digit_char (n mod 10) # buf"] False show ?thesis
      unfolding step by (simp add: s r)
  qed
qed

lemma itoa_loop_buffer:
  assumes "0 < n" "n < 2 ^ 63"
  shows "\<exists>i. itoa_loop 20 n [] = Some (Suc i, show_nat (nat n))"
proof -
  have "nat n < 10 ^ Suc 18" using assms by simp
  then have l: "length (show_nat (nat n)) \<le> 19" using length_show_nat_le [of "nat n" 18] by simp
  with itoa_loop_pos [of "nat n" 20 "[]"] assms
  have "itoa_loop 20 n [] = Some (20 - length (show_nat (nat n)), show_nat (nat n))" by simp
  moreover obtain i where "20 - length (show_nat (nat n)) = Suc i"
    using l by (cases "20 - length (show_nat (nat n))") auto
  ultimately show ?thesis by auto
qed

lemma itoa_law:
  assumes "in_int64 n" shows "itoa n = Some (if n = - (2 ^ 63) then ''-'' else show_int n)"
proof -
  have min: "itoa_loop 20 (- (2 ^ 63)) [] = Some (20, [])" by (subst itoa_loop.simps) simp
  have w: "wrap64 (2 ^ 63) = - (2 ^ 63)" by (simp add: wrap64_above)
  have "show_nat 0 = ''0''" by code_simp
  consider "n = 0" | "0 < n" | "n = - (2 ^ 63)" | "n < 0" "- (2 ^ 63) < n" using assms by linarith
  then show ?thesis
  proof cases
    case 1
    then show ?thesis using \<open>show_nat 0 = ''0''\<close> by (simp add: itoa_def show_int_def)
  next
    case 2
    with itoa_loop_buffer [of n] assms obtain i where "itoa_loop 20 n [] = Some (Suc i, show_nat (nat n))" by auto
    with 2 show ?thesis by (simp add: itoa_def show_int_def)
  next
    case 3
    then show ?thesis using min w by (simp add: itoa_def)
  next
    case 4
    with itoa_loop_buffer [of "- n"] obtain i where
        "itoa_loop 20 (- n) [] = Some (Suc i, show_nat (nat (- n)))" by auto
    with 4 assms show ?thesis by (simp add: itoa_def show_int_def)
  qed
qed

text \<open>
  The hand-written \<open>itoa\<close> of the wire format prints every int in decimal within its buffer of
  20 bytes, with one exception: the smallest int, whose negation wraps to itself, prints as a lone
  minus sign. The labels of a forecast are therefore \<open>+5m\<close> to \<open>+30m\<close>.
\<close>

lemma itoa_correct:
  assumes "in_int64 n"
  shows "itoa n = Some (if n = - (2 ^ 63) then ''-'' else show_int n) \<and>
    map format_label [5, 10, 15, 20, 25, 30] =
      map Some [''+5m'', ''+10m'', ''+15m'', ''+20m'', ''+25m'', ''+30m'']"
proof
  have "map show_int [5, 10, 15, 20, 25, 30] = [''5'', ''10'', ''15'', ''20'', ''25'', ''30'']" by code_simp
  then show "map format_label [5, 10, 15, 20, 25, 30] =
      map Some [''+5m'', ''+10m'', ''+15m'', ''+20m'', ''+25m'', ''+30m'']"
    by (simp add: format_label_def itoa_law)
qed (rule itoa_law [OF assms])

lemma itoa_correct_witness: "itoa (- 42) = Some ''-42''"
proof -
  have "show_int (- 42) = ''-42''" by code_simp
  then show ?thesis using itoa_correct [of "- 42"] by simp
qed

end
