(* ===== verification/StrConv.thy ===== *)
theory StrConv
  imports GoLib Float64
begin

text \<open>
  \<open>strconv.ParseFloat(s, 64)\<close>, the way the standard library reads a number: a sign, decimal or
  hexadecimal digits with underscores between digits, a fraction, an exponent whose magnitude stops
  growing at five digits, or one of the special words. The value is the exact rational the text
  denotes, rounded once; a finite text that rounds to an infinity is a range error.
\<close>

section \<open>Digits\<close>

definition digit_in :: "nat \<Rightarrow> char \<Rightarrow> nat option" where
  "digit_in base c =
     (if is_digit c then Some (digit_val c)
      else if base = 16 \<and> CHR ''a'' \<le> lower_char c \<and> lower_char c \<le> CHR ''f''
           then Some (of_char (lower_char c) - 87)
      else None)"

record mantissa =
  mt_value :: nat
  mt_fraction :: nat
  mt_dot :: bool
  mt_digits :: bool

definition no_digits :: mantissa where
  "no_digits = \<lparr>mt_value = 0, mt_fraction = 0, mt_dot = False, mt_digits = False\<rparr>"

fun scan_mantissa :: "nat \<Rightarrow> mantissa \<Rightarrow> string \<Rightarrow> mantissa \<times> string" where
  "scan_mantissa base m [] = (m, [])"
| "scan_mantissa base m (c # cs) =
     (if c = CHR ''_'' then scan_mantissa base m cs
      else if c = CHR ''.'' then
        (if mt_dot m then (m, c # cs) else scan_mantissa base (m\<lparr>mt_dot := True\<rparr>) cs)
      else case digit_in base c of
        None \<Rightarrow> (m, c # cs)
      | Some d \<Rightarrow> scan_mantissa base (m\<lparr>mt_value := mt_value m * base + d,
          mt_fraction := (if mt_dot m then mt_fraction m + 1 else mt_fraction m), mt_digits := True\<rparr>) cs)"

fun scan_exponent :: "nat \<Rightarrow> string \<Rightarrow> nat \<times> string" where
  "scan_exponent e [] = (e, [])"
| "scan_exponent e (c # cs) =
     (if c = CHR ''_'' then scan_exponent e cs
      else if is_digit c then scan_exponent (if e < 10000 then e * 10 + digit_val c else e) cs
      else (e, c # cs))"

section \<open>Underscores\<close>

datatype saw = SawStart | SawDigit | SawUnderscore | SawOther

fun underscores_from :: "bool \<Rightarrow> saw \<Rightarrow> string \<Rightarrow> bool" where
  "underscores_from hex last_saw [] = (last_saw \<noteq> SawUnderscore)"
| "underscores_from hex last_saw (c # cs) =
     (if digit_in (if hex then 16 else 10) c \<noteq> None then underscores_from hex SawDigit cs
      else if c = CHR ''_'' then last_saw = SawDigit \<and> underscores_from hex SawUnderscore cs
      else last_saw \<noteq> SawUnderscore \<and> underscores_from hex SawOther cs)"

definition strip_sign :: "string \<Rightarrow> bool \<times> string" where
  "strip_sign s =
     (case s of
        [] \<Rightarrow> (False, [])
      | c # cs \<Rightarrow> if c = CHR ''-'' then (True, cs) else if c = CHR ''+'' then (False, cs) else (False, s))"

definition underscore_ok :: "string \<Rightarrow> bool" where
  "underscore_ok s =
     (case snd (strip_sign s) of
        z # x # rest \<Rightarrow>
          if z = CHR ''0'' \<and> lower_char x \<in> {CHR ''b'', CHR ''o'', CHR ''x''}
          then underscores_from (lower_char x = CHR ''x'') SawDigit rest
          else underscores_from False SawStart (z # x # rest)
      | t \<Rightarrow> underscores_from False SawStart t)"

section \<open>ParseFloat\<close>

definition parse_special :: "string \<Rightarrow> f64 option" where
  "parse_special s =
     (let (neg, t) = strip_sign s; w = to_lower t in
      if w = ''inf'' \<or> w = ''infinity'' then Some (if neg then NInf else PInf)
      else if to_lower s = ''nan'' then Some NaN else None)"

text \<open>The exponent part: \<open>Some\<close> the signed exponent when the text ends there.\<close>

definition parse_exponent :: "bool \<Rightarrow> string \<Rightarrow> int option" where
  "parse_exponent hex t =
     (case t of
        [] \<Rightarrow> if hex then None else Some 0
      | c # cs \<Rightarrow>
          if lower_char c \<noteq> (if hex then CHR ''p'' else CHR ''e'') then None
          else
            (let (neg, ds) = strip_sign cs in
             case ds of
               [] \<Rightarrow> None
             | d # _ \<Rightarrow>
                 if \<not> is_digit d then None
                 else case scan_exponent 0 ds of
                   (e, []) \<Rightarrow> Some (if neg then - int e else int e)
                 | (e, _ # _) \<Rightarrow> None))"

definition parse_rational :: "string \<Rightarrow> rat option" where
  "parse_rational s =
     (let (neg, t) = strip_sign s;
          hex = (case t of z # x # _ # _ \<Rightarrow> z = CHR ''0'' \<and> lower_char x = CHR ''x'' | _ \<Rightarrow> False);
          (m, rest) = scan_mantissa (if hex then 16 else 10) no_digits (if hex then drop 2 t else t) in
      if \<not> mt_digits m then None
      else case parse_exponent hex rest of
        None \<Rightarrow> None
      | Some e \<Rightarrow>
          if CHR ''_'' \<in> set s \<and> \<not> underscore_ok s then None
          else
            (let v = (if hex then of_nat (mt_value m) * 2 powi (e - 4 * int (mt_fraction m))
                      else of_nat (mt_value m) * 10 powi (e - int (mt_fraction m)))
             in Some (if neg then - v else v)))"

definition parse_float :: "string \<Rightarrow> num_error + f64" where
  "parse_float s =
     (case parse_special s of
        Some v \<Rightarrow> Inr v
      | None \<Rightarrow>
          (case parse_rational s of
             None \<Rightarrow> Inl ErrSyntax
           | Some q \<Rightarrow> (case rnd q of Fin r \<Rightarrow> Inr (Fin r) | _ \<Rightarrow> Inl ErrRange)))"

lemma parse_float_nan: "to_lower s = ''nan'' \<Longrightarrow> parse_float s = Inr NaN"
proof -
  assume s: "to_lower s = ''nan''"
  then obtain c cs where c: "s = c # cs" "lower_char c = CHR ''n''" by (cases s) (auto simp: to_lower_def)
  then have "c \<noteq> CHR ''-''" "c \<noteq> CHR ''+''" by (auto simp: lower_char_def less_eq_char_def)
  with c have "strip_sign s = (False, s)" by (simp add: strip_sign_def)
  then show ?thesis by (simp add: parse_float_def parse_special_def s)
qed

lemma valid64_parse_float:
  assumes "parse_float s = Inr v" shows "valid64 v"
proof (cases "parse_special s")
  case None
  with assms obtain q where "parse_rational s = Some q" by (auto simp: parse_float_def split: option.splits)
  with assms None have "rnd q = v" by (auto simp: parse_float_def split: f64.splits)
  then show ?thesis using valid64_rnd [of q] by simp
next
  case (Some w)
  with assms have v: "v = w" by (simp add: parse_float_def)
  have "w = NInf \<or> w = PInf \<or> w = NaN"
    using Some by (auto simp: parse_special_def Let_def split: prod.splits if_splits)
  then show ?thesis unfolding v by auto
qed

end
