(* ===== verification/Config.thy ===== *)
theory Config
  imports StrConv GoTime
begin

text \<open>
  \<open>internal/config/config.go\<close>: the configuration read from the environment. The environment is the
  function \<open>lookup\<close> (Go's \<open>envLookup\<close>); an unset variable is \<open>None\<close>. Every malformed value is an error
  value, so a loaded configuration is always a complete record.
\<close>

record config =
  cf_environment_mode :: string
  cf_llm_api_key :: string
  cf_llm_base_url :: string
  cf_llm_model :: string
  cf_sqlite_path :: string
  cf_retention_hours :: int
  cf_api_addr :: string
  cf_cors_origins :: "string list"
  cf_otel_endpoint :: string
  cf_sample_ratio :: f64
  cf_log_level :: string

datatype config_error =
    InvalidMode string
  | InvalidRetentionHours string
  | NoOrigins
  | InvalidSampleRatio string
  | InvalidLogLevel string

type_synonym env_lookup = "string \<Rightarrow> string option"

definition ModeTrial :: string where "ModeTrial = ''trial''"
definition ModeNVMLMock :: string where "ModeNVMLMock = ''nvml-mock''"
definition ModeRealGPU :: string where "ModeRealGPU = ''real-gpu''"

definition environment_mode_valid :: "string \<Rightarrow> bool" where
  "environment_mode_valid m \<longleftrightarrow> m = ModeTrial \<or> m = ModeNVMLMock \<or> m = ModeRealGPU"

definition default_config :: config where
  "default_config =
     \<lparr>cf_environment_mode = ModeTrial, cf_llm_api_key = '''',
      cf_llm_base_url = ''https://api.groq.com/openai/v1'', cf_llm_model = ''llama-3.3-70b-versatile'',
      cf_sqlite_path = ''./data/vyomm.db'', cf_retention_hours = 24, cf_api_addr = '':8080'',
      cf_cors_origins = [''http://localhost:5173'', ''http://localhost:8080''],
      cf_otel_endpoint = ''http://localhost:4318'', cf_sample_ratio = flit (1 / 5), cf_log_level = ''info''\<rparr>"

section \<open>One step per variable\<close>

text \<open>A variable that is set and not empty is handed to \<open>f\<close>; otherwise the configuration stays.\<close>

definition when_set :: "env_lookup \<Rightarrow> string \<Rightarrow> (string \<Rightarrow> config \<Rightarrow> config_error + config) \<Rightarrow> config \<Rightarrow> config_error + config" where
  "when_set lookup key f cfg =
     (case lookup key of None \<Rightarrow> Inr cfg | Some v \<Rightarrow> if v = '''' then Inr cfg else f v cfg)"

definition load_mode :: "string \<Rightarrow> config \<Rightarrow> config_error + config" where
  "load_mode v cfg =
     (if \<not> environment_mode_valid v then Inl (InvalidMode v) else Inr (cfg\<lparr>cf_environment_mode := v\<rparr>))"

definition load_api_key :: "env_lookup \<Rightarrow> config \<Rightarrow> config" where
  "load_api_key lookup cfg =
     (case lookup ''VYOMM_LLM_API_KEY'' of None \<Rightarrow> cfg | Some v \<Rightarrow> cfg\<lparr>cf_llm_api_key := v\<rparr>)"

definition load_retention :: "string \<Rightarrow> config \<Rightarrow> config_error + config" where
  "load_retention v cfg =
     (case atoi v of
        Inl _ \<Rightarrow> Inl (InvalidRetentionHours v)
      | Inr n \<Rightarrow> if n \<le> 0 then Inl (InvalidRetentionHours v) else Inr (cfg\<lparr>cf_retention_hours := n\<rparr>))"

definition origins_of :: "string \<Rightarrow> string list" where
  "origins_of v = filter (\<lambda>p. p \<noteq> '''') (map trim_space (split_char (CHR '','') v))"

definition load_origins :: "string \<Rightarrow> config \<Rightarrow> config_error + config" where
  "load_origins v cfg =
     (let origins = origins_of v in
      if origins = [] then Inl NoOrigins else Inr (cfg\<lparr>cf_cors_origins := origins\<rparr>))"

definition load_ratio :: "string \<Rightarrow> config \<Rightarrow> config_error + config" where
  "load_ratio v cfg =
     (case parse_float v of
        Inl _ \<Rightarrow> Inl (InvalidSampleRatio v)
      | Inr f \<Rightarrow> if f < Fin 0 \<or> Fin 1 < f then Inl (InvalidSampleRatio v)
          else Inr (cfg\<lparr>cf_sample_ratio := f\<rparr>))"

definition log_levels :: "string set" where
  "log_levels = {''debug'', ''info'', ''warn'', ''error''}"

definition load_log_level :: "string \<Rightarrow> config \<Rightarrow> config_error + config" where
  "load_log_level v cfg =
     (if to_lower v \<in> log_levels then Inr (cfg\<lparr>cf_log_level := to_lower v\<rparr>) else Inl (InvalidLogLevel v))"

section \<open>load\<close>

text \<open>The variables in the order of the code; the first malformed one is the error.\<close>

definition load_config :: "env_lookup \<Rightarrow> config_error + config" where
  "load_config lookup =
     (let set_to = (\<lambda>upd v cfg. Inr (upd v cfg)) in
      foldl and_then (Inr default_config)
       [when_set lookup ''VYOMM_ENVIRONMENT_MODE'' load_mode,
        (\<lambda>cfg. Inr (load_api_key lookup cfg)),
        when_set lookup ''VYOMM_LLM_BASE_URL'' (set_to (\<lambda>v cfg. cfg\<lparr>cf_llm_base_url := v\<rparr>)),
        when_set lookup ''VYOMM_LLM_MODEL'' (set_to (\<lambda>v cfg. cfg\<lparr>cf_llm_model := v\<rparr>)),
        when_set lookup ''VYOMM_SQLITE_PATH'' (set_to (\<lambda>v cfg. cfg\<lparr>cf_sqlite_path := v\<rparr>)),
        when_set lookup ''VYOMM_TELEMETRY_RETENTION_HOURS'' load_retention,
        when_set lookup ''VYOMM_API_ADDR'' (set_to (\<lambda>v cfg. cfg\<lparr>cf_api_addr := v\<rparr>)),
        when_set lookup ''VYOMM_CORS_ALLOWED_ORIGINS'' load_origins,
        when_set lookup ''VYOMM_OTEL_EXPORTER_OTLP_ENDPOINT'' (set_to (\<lambda>v cfg. cfg\<lparr>cf_otel_endpoint := v\<rparr>)),
        when_set lookup ''VYOMM_OTEL_TRACES_SAMPLE_RATIO'' load_ratio,
        when_set lookup ''VYOMM_LOG_LEVEL'' load_log_level])"

definition retention_duration :: "config \<Rightarrow> duration" where
  "retention_duration c = wrap64 (cf_retention_hours c * 3600000000000)"

definition has_real_llm_key :: "config \<Rightarrow> bool" where
  "has_real_llm_key c \<longleftrightarrow> trim_space (cf_llm_api_key c) \<noteq> ''''"

section \<open>What a loaded configuration is\<close>

text \<open>The text a variable stands for: its value, or the default when it is unset or empty.\<close>

definition setting :: "env_lookup \<Rightarrow> string \<Rightarrow> string \<Rightarrow> string" where
  "setting lookup key d = (case lookup key of None \<Rightarrow> d | Some v \<Rightarrow> if v = '''' then d else v)"

lemma when_set_default: "f d cfg = Inr cfg \<Longrightarrow> when_set lookup key f cfg = f (setting lookup key d) cfg"
  by (simp add: when_set_def setting_def split: option.splits)

lemma when_set_field:
  "upd d cfg = cfg \<Longrightarrow> when_set lookup key (\<lambda>v cfg. Inr (upd v cfg)) cfg = Inr (upd (setting lookup key d) cfg)"
  by (simp add: when_set_def setting_def split: option.splits)

lemma parse_default_ratio: "parse_float ''0.2'' = Inr (flit (1 / 5))"
proof -
  have "parse_special ''0.2'' = None" by code_simp
  moreover have "parse_rational ''0.2'' = Some (1 / 5)" by code_simp
  moreover have "rnd (1 / 5) = Fin (roundq (1 / 5))" by (rule rnd_bounded(1) [of 0 _ 1]) simp_all
  ultimately show ?thesis by (simp add: parse_float_def flit_def)
qed

lemma default_ratio_range: "Fin 0 \<le> flit (1 / 5)" "flit (1 / 5) \<le> Fin 1"
  using rnd_bounded [of 0 "1 / 5" 1] by (simp_all add: flit_def)

lemma load_defaults:
  "cf_environment_mode cfg = ModeTrial \<Longrightarrow> load_mode ''trial'' cfg = Inr cfg"
  "cf_retention_hours cfg = 24 \<Longrightarrow> load_retention ''24'' cfg = Inr cfg"
  "cf_cors_origins cfg = [''http://localhost:5173'', ''http://localhost:8080''] \<Longrightarrow>
     load_origins ''http://localhost:5173,http://localhost:8080'' cfg = Inr cfg"
  "cf_sample_ratio cfg = flit (1 / 5) \<Longrightarrow> load_ratio ''0.2'' cfg = Inr cfg"
  "cf_log_level cfg = ''info'' \<Longrightarrow> load_log_level ''info'' cfg = Inr cfg"
proof -
  show "cf_environment_mode cfg = ModeTrial \<Longrightarrow> load_mode ''trial'' cfg = Inr cfg"
    by (simp add: load_mode_def environment_mode_valid_def ModeTrial_def)
  have "atoi ''24'' = Inr 24" by code_simp
  then show "cf_retention_hours cfg = 24 \<Longrightarrow> load_retention ''24'' cfg = Inr cfg"
    by (simp add: load_retention_def)
  have "origins_of ''http://localhost:5173,http://localhost:8080'' =
      [''http://localhost:5173'', ''http://localhost:8080'']" by code_simp
  then show "cf_cors_origins cfg = [''http://localhost:5173'', ''http://localhost:8080''] \<Longrightarrow>
     load_origins ''http://localhost:5173,http://localhost:8080'' cfg = Inr cfg"
    by (simp add: load_origins_def)
  have "\<not> flit (1 / 5) < Fin 0" "\<not> Fin 1 < flit (1 / 5)"
    using default_ratio_range f64_le_less_trans [of "flit (1 / 5)" "Fin 1" "flit (1 / 5)"]
      f64_less_le_trans [of "flit (1 / 5)" "Fin 0" "flit (1 / 5)"]
    by (cases "flit (1 / 5)"; simp)+
  then show "cf_sample_ratio cfg = flit (1 / 5) \<Longrightarrow> load_ratio ''0.2'' cfg = Inr cfg"
    by (simp add: load_ratio_def parse_default_ratio)
  have "to_lower ''info'' = ''info''" by code_simp
  then show "cf_log_level cfg = ''info'' \<Longrightarrow> load_log_level ''info'' cfg = Inr cfg"
    by (simp add: load_log_level_def log_levels_def)
qed

lemma load_cong:
  "(\<And>x. f (cfg\<lparr>cf_environment_mode := x\<rparr>) = g (cfg\<lparr>cf_environment_mode := x\<rparr>)) \<Longrightarrow>
     and_then (load_mode v cfg) f = and_then (load_mode v cfg) g"
  "(\<And>x. f (cfg\<lparr>cf_retention_hours := x\<rparr>) = g (cfg\<lparr>cf_retention_hours := x\<rparr>)) \<Longrightarrow>
     and_then (load_retention v cfg) f = and_then (load_retention v cfg) g"
  "(\<And>x. f (cfg\<lparr>cf_cors_origins := x\<rparr>) = g (cfg\<lparr>cf_cors_origins := x\<rparr>)) \<Longrightarrow>
     and_then (load_origins v cfg) f = and_then (load_origins v cfg) g"
  "(\<And>x. f (cfg\<lparr>cf_sample_ratio := x\<rparr>) = g (cfg\<lparr>cf_sample_ratio := x\<rparr>)) \<Longrightarrow>
     and_then (load_ratio v cfg) f = and_then (load_ratio v cfg) g"
  by (auto simp: load_mode_def load_retention_def load_origins_def load_ratio_def Let_def split: sum.splits)

lemma load_config_settings:
  "load_config lookup =
     foldl and_then (Inr default_config)
       [load_mode (setting lookup ''VYOMM_ENVIRONMENT_MODE'' ''trial''),
        (\<lambda>cfg. Inr (cfg\<lparr>cf_llm_api_key := case lookup ''VYOMM_LLM_API_KEY'' of None \<Rightarrow> '''' | Some v \<Rightarrow> v,
           cf_llm_base_url := setting lookup ''VYOMM_LLM_BASE_URL'' ''https://api.groq.com/openai/v1'',
           cf_llm_model := setting lookup ''VYOMM_LLM_MODEL'' ''llama-3.3-70b-versatile'',
           cf_sqlite_path := setting lookup ''VYOMM_SQLITE_PATH'' ''./data/vyomm.db''\<rparr>)),
        load_retention (setting lookup ''VYOMM_TELEMETRY_RETENTION_HOURS'' ''24''),
        (\<lambda>cfg. Inr (cfg\<lparr>cf_api_addr := setting lookup ''VYOMM_API_ADDR'' '':8080''\<rparr>)),
        load_origins (setting lookup ''VYOMM_CORS_ALLOWED_ORIGINS'' ''http://localhost:5173,http://localhost:8080''),
        (\<lambda>cfg. Inr (cfg\<lparr>cf_otel_endpoint :=
           setting lookup ''VYOMM_OTEL_EXPORTER_OTLP_ENDPOINT'' ''http://localhost:4318''\<rparr>)),
        load_ratio (setting lookup ''VYOMM_OTEL_TRACES_SAMPLE_RATIO'' ''0.2''),
        load_log_level (setting lookup ''VYOMM_LOG_LEVEL'' ''info'')]"
proof -
  let ?P = "\<lambda>upd v cfg. Inr (upd v cfg) :: config_error + config"
  have fields: "when_set lookup key (?P (\<lambda>v. cf_llm_base_url_update (\<lambda>_. v))) cfg =
        Inr (cfg\<lparr>cf_llm_base_url := setting lookup key (cf_llm_base_url cfg)\<rparr>)"
      "when_set lookup key (?P (\<lambda>v. cf_llm_model_update (\<lambda>_. v))) cfg =
        Inr (cfg\<lparr>cf_llm_model := setting lookup key (cf_llm_model cfg)\<rparr>)"
      "when_set lookup key (?P (\<lambda>v. cf_sqlite_path_update (\<lambda>_. v))) cfg =
        Inr (cfg\<lparr>cf_sqlite_path := setting lookup key (cf_sqlite_path cfg)\<rparr>)"
      "when_set lookup key (?P (\<lambda>v. cf_api_addr_update (\<lambda>_. v))) cfg =
        Inr (cfg\<lparr>cf_api_addr := setting lookup key (cf_api_addr cfg)\<rparr>)"
      "when_set lookup key (?P (\<lambda>v. cf_otel_endpoint_update (\<lambda>_. v))) cfg =
        Inr (cfg\<lparr>cf_otel_endpoint := setting lookup key (cf_otel_endpoint cfg)\<rparr>)" for key cfg
    by (rule when_set_field, simp)+
  have key: "load_api_key lookup cfg = cfg\<lparr>cf_llm_api_key :=
      case lookup ''VYOMM_LLM_API_KEY'' of None \<Rightarrow> cf_llm_api_key cfg | Some v \<Rightarrow> v\<rparr>" for cfg
    by (simp add: load_api_key_def split: option.splits)
  have checked: "cf_environment_mode cfg = ModeTrial \<Longrightarrow>
        when_set lookup key load_mode cfg = load_mode (setting lookup key ''trial'') cfg"
      "cf_retention_hours cfg = 24 \<Longrightarrow>
        when_set lookup key load_retention cfg = load_retention (setting lookup key ''24'') cfg"
      "cf_cors_origins cfg = [''http://localhost:5173'', ''http://localhost:8080''] \<Longrightarrow>
        when_set lookup key load_origins cfg =
        load_origins (setting lookup key ''http://localhost:5173,http://localhost:8080'') cfg"
      "cf_sample_ratio cfg = flit (1 / 5) \<Longrightarrow>
        when_set lookup key load_ratio cfg = load_ratio (setting lookup key ''0.2'') cfg"
      "cf_log_level cfg = ''info'' \<Longrightarrow>
        when_set lookup key load_log_level cfg = load_log_level (setting lookup key ''info'') cfg" for key cfg
    by (rule when_set_default, erule load_defaults)+
  note steps = fields key checked default_config_def
  show ?thesis
    unfolding load_config_def Let_def foldl.simps and_then_assoc and_then_simps
    by (simp add: steps cong: option.case_cong,
        (rule load_cong, simp add: steps cong: option.case_cong)+)
qed

lemma load_Inr_iff:
  "load_mode v cfg = Inr c \<longleftrightarrow> environment_mode_valid v \<and> c = cfg\<lparr>cf_environment_mode := v\<rparr>"
  "load_retention v cfg = Inr c \<longleftrightarrow> (\<exists>n. atoi v = Inr n \<and> 0 < n \<and> c = cfg\<lparr>cf_retention_hours := n\<rparr>)"
  "load_origins v cfg = Inr c \<longleftrightarrow> origins_of v \<noteq> [] \<and> c = cfg\<lparr>cf_cors_origins := origins_of v\<rparr>"
  "load_ratio v cfg = Inr c \<longleftrightarrow> (\<exists>f. parse_float v = Inr f \<and> \<not> (f < Fin 0 \<or> Fin 1 < f) \<and>
     c = cfg\<lparr>cf_sample_ratio := f\<rparr>)"
  "load_log_level v cfg = Inr c \<longleftrightarrow> to_lower v \<in> log_levels \<and> c = cfg\<lparr>cf_log_level := to_lower v\<rparr>"
  by (auto simp: load_mode_def load_retention_def load_origins_def load_ratio_def load_log_level_def Let_def
      simp del: less_f64_def split: sum.splits if_splits)

lemma load_config_law:
  "load_config lookup = Inr c \<longleftrightarrow>
     cf_environment_mode c = setting lookup ''VYOMM_ENVIRONMENT_MODE'' ''trial'' \<and>
     environment_mode_valid (cf_environment_mode c) \<and>
     cf_llm_api_key c = (case lookup ''VYOMM_LLM_API_KEY'' of None \<Rightarrow> '''' | Some v \<Rightarrow> v) \<and>
     cf_llm_base_url c = setting lookup ''VYOMM_LLM_BASE_URL'' ''https://api.groq.com/openai/v1'' \<and>
     cf_llm_model c = setting lookup ''VYOMM_LLM_MODEL'' ''llama-3.3-70b-versatile'' \<and>
     cf_sqlite_path c = setting lookup ''VYOMM_SQLITE_PATH'' ''./data/vyomm.db'' \<and>
     atoi (setting lookup ''VYOMM_TELEMETRY_RETENTION_HOURS'' ''24'') = Inr (cf_retention_hours c) \<and>
     0 < cf_retention_hours c \<and>
     cf_api_addr c = setting lookup ''VYOMM_API_ADDR'' '':8080'' \<and>
     cf_cors_origins c = origins_of (setting lookup ''VYOMM_CORS_ALLOWED_ORIGINS''
       ''http://localhost:5173,http://localhost:8080'') \<and> cf_cors_origins c \<noteq> [] \<and>
     cf_otel_endpoint c = setting lookup ''VYOMM_OTEL_EXPORTER_OTLP_ENDPOINT'' ''http://localhost:4318'' \<and>
     parse_float (setting lookup ''VYOMM_OTEL_TRACES_SAMPLE_RATIO'' ''0.2'') = Inr (cf_sample_ratio c) \<and>
     (cf_sample_ratio c = NaN \<or> (Fin 0 \<le> cf_sample_ratio c \<and> cf_sample_ratio c \<le> Fin 1)) \<and>
     cf_log_level c = to_lower (setting lookup ''VYOMM_LOG_LEVEL'' ''info'') \<and> cf_log_level c \<in> log_levels"
  (is "_ = ?R")
proof -
  let ?hours = "atoi (setting lookup ''VYOMM_TELEMETRY_RETENTION_HOURS'' ''24'')"
  let ?ratio = "parse_float (setting lookup ''VYOMM_OTEL_TRACES_SAMPLE_RATIO'' ''0.2'')"
  have range: "\<not> (f < Fin 0 \<or> Fin 1 < f) \<longleftrightarrow> f = NaN \<or> (Fin 0 \<le> f \<and> f \<le> Fin 1)" for f
    by (cases f) auto
  have "load_config lookup = Inr c \<longleftrightarrow> (\<exists>n f. ?hours = Inr n \<and> ?ratio = Inr f \<and>
      environment_mode_valid (setting lookup ''VYOMM_ENVIRONMENT_MODE'' ''trial'') \<and> 0 < n \<and>
      origins_of (setting lookup ''VYOMM_CORS_ALLOWED_ORIGINS''
        ''http://localhost:5173,http://localhost:8080'') \<noteq> [] \<and> \<not> (f < Fin 0 \<or> Fin 1 < f) \<and>
      to_lower (setting lookup ''VYOMM_LOG_LEVEL'' ''info'') \<in> log_levels \<and>
      c = \<lparr>cf_environment_mode = setting lookup ''VYOMM_ENVIRONMENT_MODE'' ''trial'',
        cf_llm_api_key = (case lookup ''VYOMM_LLM_API_KEY'' of None \<Rightarrow> '''' | Some v \<Rightarrow> v),
        cf_llm_base_url = setting lookup ''VYOMM_LLM_BASE_URL'' ''https://api.groq.com/openai/v1'',
        cf_llm_model = setting lookup ''VYOMM_LLM_MODEL'' ''llama-3.3-70b-versatile'',
        cf_sqlite_path = setting lookup ''VYOMM_SQLITE_PATH'' ''./data/vyomm.db'', cf_retention_hours = n,
        cf_api_addr = setting lookup ''VYOMM_API_ADDR'' '':8080'',
        cf_cors_origins = origins_of (setting lookup ''VYOMM_CORS_ALLOWED_ORIGINS''
          ''http://localhost:5173,http://localhost:8080''),
        cf_otel_endpoint = setting lookup ''VYOMM_OTEL_EXPORTER_OTLP_ENDPOINT'' ''http://localhost:4318'',
        cf_sample_ratio = f, cf_log_level = to_lower (setting lookup ''VYOMM_LOG_LEVEL'' ''info'')\<rparr>)"
    unfolding load_config_settings by (auto simp: and_then_Inr_iff load_Inr_iff default_config_def)
  also have "\<dots> = ?R" unfolding range by (cases c) auto
  finally show ?thesis .
qed

text \<open>
  C39: Loading is exactly this: every variable contributes its value, or the documented default when
  it is unset or empty, and loading succeeds with \<open>c\<close> iff all the effective settings are well formed
  (a known mode and log level, a positive number of hours, at least one origin, a sample ratio in
  the unit interval). The one gap of the range check is \<open>NaN\<close>, which is below and above nothing.
\<close>

theorem load_config_exact:
  "load_config lookup = Inr c \<longleftrightarrow>
     cf_environment_mode c = setting lookup ''VYOMM_ENVIRONMENT_MODE'' ''trial'' \<and>
     environment_mode_valid (cf_environment_mode c) \<and>
     cf_llm_api_key c = (case lookup ''VYOMM_LLM_API_KEY'' of None \<Rightarrow> '''' | Some v \<Rightarrow> v) \<and>
     cf_llm_base_url c = setting lookup ''VYOMM_LLM_BASE_URL'' ''https://api.groq.com/openai/v1'' \<and>
     cf_llm_model c = setting lookup ''VYOMM_LLM_MODEL'' ''llama-3.3-70b-versatile'' \<and>
     cf_sqlite_path c = setting lookup ''VYOMM_SQLITE_PATH'' ''./data/vyomm.db'' \<and>
     atoi (setting lookup ''VYOMM_TELEMETRY_RETENTION_HOURS'' ''24'') = Inr (cf_retention_hours c) \<and>
     0 < cf_retention_hours c \<and>
     cf_api_addr c = setting lookup ''VYOMM_API_ADDR'' '':8080'' \<and>
     cf_cors_origins c = origins_of (setting lookup ''VYOMM_CORS_ALLOWED_ORIGINS''
       ''http://localhost:5173,http://localhost:8080'') \<and> cf_cors_origins c \<noteq> [] \<and>
     cf_otel_endpoint c = setting lookup ''VYOMM_OTEL_EXPORTER_OTLP_ENDPOINT'' ''http://localhost:4318'' \<and>
     parse_float (setting lookup ''VYOMM_OTEL_TRACES_SAMPLE_RATIO'' ''0.2'') = Inr (cf_sample_ratio c) \<and>
     (cf_sample_ratio c = NaN \<or> (Fin 0 \<le> cf_sample_ratio c \<and> cf_sample_ratio c \<le> Fin 1)) \<and>
     cf_log_level c = to_lower (setting lookup ''VYOMM_LOG_LEVEL'' ''info'') \<and> cf_log_level c \<in> log_levels"
  by (rule load_config_law)

section \<open>The retention window\<close>

text \<open>
  Up to 2562047 hours (292 years) the retention window is the configured number of hours, a
  positive duration; the next value is accepted as well, and from there to 5124095 hours the
  product wraps and the window is negative.
\<close>

lemma retention_window:
  assumes "load_config lookup = Inr c"
  shows "in_int64 (retention_duration c) \<and>
    (cf_retention_hours c \<le> 2562047 \<longrightarrow>
       retention_duration c = cf_retention_hours c * 3600 * 10 ^ 9 \<and> 0 < retention_duration c) \<and>
    (2562048 \<le> cf_retention_hours c \<and> cf_retention_hours c \<le> 5124095 \<longrightarrow> retention_duration c < 0)"
proof -
  have pos: "0 < cf_retention_hours c" using assms by (simp add: load_config_law)
  have "2562048 \<le> cf_retention_hours c \<and> cf_retention_hours c \<le> 5124095 \<longrightarrow> retention_duration c < 0"
    by (simp add: retention_duration_def wrap64_above)
  then show ?thesis using pos wrap64_range [of "cf_retention_hours c * 3600000000000"]
    by (simp add: retention_duration_def)
qed

lemma retention_window_witness:
  "\<exists>c. load_config (\<lambda>k. if k = ''VYOMM_TELEMETRY_RETENTION_HOURS'' then Some ''2562048'' else None) = Inr c \<and>
     retention_duration c < 0"
proof -
  let ?l = "\<lambda>k. if k = ''VYOMM_TELEMETRY_RETENTION_HOURS'' then Some ''2562048'' else None"
  let ?c = "default_config\<lparr>cf_retention_hours := 2562048\<rparr>"
  have "atoi ''2562048'' = Inr 2562048"
    by (simp add: atoi_def signed_digits_def is_digit_def digit_val_def less_eq_char_def)
  then have c: "load_config ?l = Inr ?c" unfolding load_config_def Let_def
    by (simp add: when_set_def load_api_key_def load_retention_def)
  with retention_window [OF c] show ?thesis by (simp del: power.simps)
qed

end
