(* ===== verification/Metrics.thy ===== *)
theory Metrics
  imports Float64 GoTime
begin

text \<open>
  \<open>internal/observability/metrics/metrics.go\<close>: the instruments the server registers. Prometheus
  itself is not part of the program, so what the model keeps is the sequence of calls the program
  makes on its instruments, newest last; the value of a series is the sum of the amounts added
  to it. \<open>WithLabelValues\<close> panics when the number of values differs from the number of declared
  labels; \<open>well_labelled\<close> says it does not.
\<close>

datatype instrument =
    TelemetryRecordsReceived | TelemetryIngestionErrors | IncidentsActive | IncidentsResolved
  | IncidentsRecurred | ScenarioRuns | DetectionLatency | HTTPDuration | HTTPRequests
  | HAMiScrapeSuccess | SchedulerAllocationEvents | EvaluationPrecision | PersistenceOperations
  | PersistencePrunedRows | RecordsDropped

datatype instrument_kind = Counter | Gauge | Histogram

text \<open>The registration table of \<open>New\<close>: kind, name and labels.\<close>

fun registered :: "instrument \<Rightarrow> instrument_kind \<times> string \<times> string list" where
  "registered TelemetryRecordsReceived = (Counter, ''vyomm_telemetry_records_received_total'', [''mode'', ''source''])"
| "registered TelemetryIngestionErrors = (Counter, ''vyomm_telemetry_ingestion_errors_total'', [''mode'', ''reason_class''])"
| "registered IncidentsActive = (Gauge, ''vyomm_incidents_active'', [''mode'', ''severity''])"
| "registered IncidentsResolved = (Counter, ''vyomm_incidents_resolved_total'', [''mode'', ''severity''])"
| "registered IncidentsRecurred = (Counter, ''vyomm_incidents_recurred_total'', [''mode''])"
| "registered ScenarioRuns = (Counter, ''vyomm_scenario_runs_total'', [''scenario_name'', ''mode'', ''result''])"
| "registered DetectionLatency = (Histogram, ''vyomm_detection_latency_seconds'', [''mode''])"
| "registered HTTPDuration = (Histogram, ''vyomm_http_request_duration_seconds'', [''method'', ''route'', ''status_class''])"
| "registered HTTPRequests = (Counter, ''vyomm_http_requests_total'', [''method'', ''route'', ''status_class''])"
| "registered HAMiScrapeSuccess = (Gauge, ''vyomm_hami_scrape_success'', [''mode''])"
| "registered SchedulerAllocationEvents = (Counter, ''vyomm_scheduler_allocation_events_total'', [''mode'', ''event_type''])"
| "registered EvaluationPrecision = (Gauge, ''vyomm_evaluation_precision'', [])"
| "registered PersistenceOperations = (Counter, ''vyomm_persistence_operations_total'', [''operation'', ''result''])"
| "registered PersistencePrunedRows = (Counter, ''vyomm_persistence_pruned_rows_total'', [''table''])"
| "registered RecordsDropped = (Counter, ''vyomm_records_dropped_total'', [''mode'', ''reason_class''])"

definition instrument_labels :: "instrument \<Rightarrow> string list" where
  "instrument_labels i = snd (snd (registered i))"

section \<open>Registration\<close>

text \<open>The loop over the collectors at the end of \<open>New\<close>. \<open>MustRegister\<close> panics, here \<open>None\<close>, when the
  registry refuses a collector; the registry itself is a parameter.\<close>

definition collectors :: "instrument list" where
  "collectors = [TelemetryRecordsReceived, TelemetryIngestionErrors, IncidentsActive, IncidentsResolved, IncidentsRecurred,
     ScenarioRuns, DetectionLatency, HTTPDuration, HTTPRequests, HAMiScrapeSuccess, SchedulerAllocationEvents,
     EvaluationPrecision, PersistenceOperations, PersistencePrunedRows, RecordsDropped]"

fun must_register :: "(instrument_kind \<times> string \<times> string list \<Rightarrow> 'reg \<Rightarrow> 'reg option) \<Rightarrow> instrument list \<Rightarrow> 'reg \<Rightarrow> 'reg option" where
  "must_register register [] r = Some r"
| "must_register register (i # rest) r =
     (case register (registered i) r of None \<Rightarrow> None | Some r' \<Rightarrow> must_register register rest r')"

definition new_registry :: "(instrument_kind \<times> string \<times> string list \<Rightarrow> 'reg \<Rightarrow> 'reg option) \<Rightarrow> 'reg \<Rightarrow> 'reg option" where
  "new_registry register r0 = must_register register collectors r0"

definition metric_name :: "instrument \<Rightarrow> string" where
  "metric_name i = fst (snd (registered i))"

lemma collectors_all: "distinct collectors" "set collectors = UNIV"
proof -
  show "distinct collectors" by (simp add: collectors_def)
  have "i \<in> set collectors" for i by (cases i) (simp_all add: collectors_def)
  then show "set collectors = UNIV" by auto
qed

lemma metric_names_distinct: "distinct (map metric_name collectors)"
  by (simp add: collectors_def metric_name_def)

text \<open>\<open>New\<close> does not panic: a registry that refuses a collector only if its name is taken already
  accepts all fifteen, each once.\<close>

lemma must_register_fresh:
  assumes "\<And>i r. metric_name i \<notin> names r \<Longrightarrow> \<exists>r'. register (registered i) r = Some r' \<and> names r' = insert (metric_name i) (names r)"
    and "distinct (map metric_name xs)" "metric_name ` set xs \<inter> names r = {}"
  shows "\<exists>r'. must_register register xs r = Some r' \<and> names r' = metric_name ` set xs \<union> names r"
  using assms(2,3)
proof (induction xs arbitrary: r)
  case (Cons i xs)
  then obtain r1 where r1: "register (registered i) r = Some r1" "names r1 = insert (metric_name i) (names r)"
    using assms(1) [of i r] by auto
  have "metric_name ` set xs \<inter> names r1 = {}" using Cons.prems r1(2) by auto
  then obtain r' where "must_register register xs r1 = Some r'" "names r' = metric_name ` set xs \<union> names r1"
    using Cons.IH [of r1] Cons.prems(1) by auto
  then show ?case using r1 by auto
qed simp

lemma new_registry_complete:
  assumes "\<And>i r. metric_name i \<notin> names r \<Longrightarrow> \<exists>r'. register (registered i) r = Some r' \<and> names r' = insert (metric_name i) (names r)"
    and "names r0 = {}"
  shows "\<exists>r. new_registry register r0 = Some r \<and> names r = range metric_name"
  using must_register_fresh [of names register collectors r0] assms metric_names_distinct
  by (simp add: new_registry_def collectors_all(2))

section \<open>Calls on the instruments\<close>

datatype metric_event =
    MetricAdd instrument "string list" int
  | MetricObserve instrument "string list" f64

fun well_labelled :: "metric_event \<Rightarrow> bool" where
  "well_labelled (MetricAdd i ls n) \<longleftrightarrow> length ls = length (instrument_labels i)"
| "well_labelled (MetricObserve i ls v) \<longleftrightarrow> length ls = length (instrument_labels i)"

text \<open>A counter only grows; \<open>Add\<close> panics on a negative amount.\<close>

fun counter_grows :: "metric_event \<Rightarrow> bool" where
  "counter_grows (MetricAdd i ls n) \<longleftrightarrow> (fst (registered i) = Counter \<longrightarrow> 0 \<le> n)"
| "counter_grows (MetricObserve i ls v) \<longleftrightarrow> True"

fun amount :: "instrument \<Rightarrow> metric_event \<Rightarrow> int" where
  "amount i (MetricAdd j ls n) = (if i = j then n else 0)"
| "amount i (MetricObserve j ls v) = 0"

text \<open>The sum of an instrument over all its series, and of one series.\<close>

definition total :: "instrument \<Rightarrow> metric_event list \<Rightarrow> int" where
  "total i es = sum_list (map (amount i) es)"

definition series :: "instrument \<Rightarrow> string list \<Rightarrow> metric_event list \<Rightarrow> int" where
  "series i ls es = total i (filter (\<lambda>e. case e of MetricAdd j ls' n \<Rightarrow> ls' = ls | _ \<Rightarrow> False) es)"

lemma total_append [simp]: "total i (es @ fs) = total i es + total i fs"
  by (simp add: total_def)

lemma total_simps [simp]:
  "total i [] = 0" "total i (MetricAdd j ls n # es) = (if i = j then n else 0) + total i es"
  "total i (MetricObserve j ls v # es) = total i es"
  by (simp_all add: total_def)

lemma series_append [simp]: "series i ls (es @ fs) = series i ls es + series i ls fs"
  by (simp add: series_def)

text \<open>\<open>t.Sub(u)\<close> saturates; \<open>Seconds\<close> adds whole seconds and the fraction as floats.\<close>

definition time_sub :: "gotime \<Rightarrow> gotime \<Rightarrow> duration" where
  "time_sub t u = max (- (2 ^ 63)) (min (2 ^ 63 - 1) (t - u))"

definition seconds :: "duration \<Rightarrow> f64" where
  "seconds d = f64_of_int (tdiv d nsec_per_sec) + f64_of_int (d - tdiv d nsec_per_sec * nsec_per_sec) / Fin 1000000000"

end
