(* ===== verification/Database.thy ===== *)
theory Database
  imports JsonCodec IncidentStore "HOL-Library.Product_Lexorder"
begin

text \<open>
  The database as \<open>internal/persistence\<close> uses it. The tables are those of
  \<open>migrations/00001_init.sql\<close>; \<open>stmt\<close> lists the SQL statements that occur in \<open>store.go\<close> and
  \<open>stmt_effect\<close> gives their meaning. The driver itself (\<open>database/sql\<close> over SQLite) is not part of
  the program: it is a parameter, a record of operations on an abstract connection state, and
  \<open>sql_laws\<close> states what the program relies on: statements and transactions are atomic, a failed
  operation changes nothing, a query returns the matching rows in the requested order. Rows that
  are equal under \<open>ORDER BY\<close> come in any order. Any operation may fail at any time. The last section
  builds a concrete driver, tables in memory with a script of failures, and proves the laws for it.
\<close>

section \<open>Tables and statements\<close>

record telemetry_row =
  tr_hostname :: string
  tr_role :: string
  tr_payload :: json
  tr_observed_at :: string
  tr_run_id :: string
  tr_created_at :: string

record incident_row =
  ir_id :: string
  ir_occurrence_key :: string
  ir_occurrence_sequence :: int
  ir_severity :: inc_severity
  ir_affected_devices :: json
  ir_root_cause :: string
  ir_status :: inc_status
  ir_created_at :: string
  ir_updated_at :: string
  ir_confidence :: f64
  ir_predicted_sla_breach_minutes :: int
  ir_recommended_action :: string

record decision_row =
  dr_incident_id :: string
  dr_status :: inc_status
  dr_actor :: string
  dr_decided_at :: string

text \<open>The rows of each table in insertion order (\<open>AUTOINCREMENT\<close> identifiers are not kept).\<close>

record tables =
  tb_telemetry :: "telemetry_row list"
  tb_incidents :: "incident_row list"
  tb_decisions :: "decision_row list"

definition empty_tables :: tables where
  "empty_tables = \<lparr>tb_telemetry = [], tb_incidents = [], tb_decisions = []\<rparr>"

datatype stmt =
    InsertTelemetry telemetry_row
  | InsertIncident incident_row
  | UpdateIncident inc_status string string
  | InsertDecision decision_row
  | DeleteTelemetry string

text \<open>The tables after a statement and the number of rows it affected.\<close>

fun stmt_effect :: "stmt \<Rightarrow> tables \<Rightarrow> tables \<times> nat" where
  "stmt_effect (InsertTelemetry r) t = (t\<lparr>tb_telemetry := tb_telemetry t @ [r]\<rparr>, 1)"
| "stmt_effect (InsertIncident r) t = (t\<lparr>tb_incidents := tb_incidents t @ [r]\<rparr>, 1)"
| "stmt_effect (UpdateIncident status updated iid) t =
     (t\<lparr>tb_incidents := map (\<lambda>r. if ir_id r = iid
         then r\<lparr>ir_status := status, ir_updated_at := updated\<rparr> else r) (tb_incidents t)\<rparr>,
      length (filter (\<lambda>r. ir_id r = iid) (tb_incidents t)))"
| "stmt_effect (InsertDecision r) t = (t\<lparr>tb_decisions := tb_decisions t @ [r]\<rparr>, 1)"
| "stmt_effect (DeleteTelemetry cutoff) t =
     (t\<lparr>tb_telemetry := filter (\<lambda>r. \<not> tr_observed_at r < cutoff) (tb_telemetry t)\<rparr>,
      length (filter (\<lambda>r. tr_observed_at r < cutoff) (tb_telemetry t)))"

text \<open>The primary key of the incident table.\<close>

fun stmt_allowed :: "stmt \<Rightarrow> tables \<Rightarrow> bool" where
  "stmt_allowed (InsertIncident r) t \<longleftrightarrow> ir_id r \<notin> ir_id ` set (tb_incidents t)"
| "stmt_allowed _ t \<longleftrightarrow> True"

section \<open>The driver\<close>

record 'db sql_driver =
  sd_begin :: "'db \<Rightarrow> 'db \<times> string option"
  sd_prepare :: "'db \<Rightarrow> 'db \<times> string option"
  sd_exec :: "stmt \<Rightarrow> 'db \<Rightarrow> 'db \<times> (string + nat)"
  sd_commit :: "'db \<Rightarrow> 'db \<times> string option"
  sd_rollback :: "'db \<Rightarrow> 'db"
  sd_query_telemetry :: "string \<Rightarrow> 'db \<Rightarrow> 'db \<times> (string + (string \<times> json) list)"
  sd_query_incidents :: "'db \<Rightarrow> 'db \<times> (string + incident_row list)"
  sd_query_decisions :: "'db \<Rightarrow> 'db \<times> (string + decision_row list)"
  sd_ping :: "'db \<Rightarrow> 'db \<times> string option"

locale sql_laws =
  fixes drv :: "'db sql_driver"
    and committed :: "'db \<Rightarrow> tables" and pending :: "'db \<Rightarrow> tables option"
  assumes begin_law: "pending db = None \<Longrightarrow> sd_begin drv db = (db', e) \<Longrightarrow>
      committed db' = committed db \<and> pending db' = (if e = None then Some (committed db) else None)"
    and prepare_law: "sd_prepare drv db = (db', e) \<Longrightarrow>
      committed db' = committed db \<and> pending db' = pending db"
    and exec_tx_law: "pending db = Some t \<Longrightarrow> sd_exec drv st db = (db', r) \<Longrightarrow>
      committed db' = committed db \<and>
      (case r of Inl e \<Rightarrow> pending db' = Some t
       | Inr n \<Rightarrow> stmt_allowed st t \<and> pending db' = Some (fst (stmt_effect st t)) \<and> n = snd (stmt_effect st t))"
    and exec_law: "pending db = None \<Longrightarrow> sd_exec drv st db = (db', r) \<Longrightarrow>
      pending db' = None \<and>
      (case r of Inl e \<Rightarrow> committed db' = committed db
       | Inr n \<Rightarrow> stmt_allowed st (committed db) \<and> (committed db', n) = stmt_effect st (committed db))"
    and commit_law: "pending db = Some t \<Longrightarrow> sd_commit drv db = (db', e) \<Longrightarrow>
      pending db' = None \<and> committed db' = (if e = None then t else committed db)"
    and rollback_law: "pending db = Some t \<Longrightarrow>
      pending (sd_rollback drv db) = None \<and> committed (sd_rollback drv db) = committed db"
    and query_telemetry_law: "pending db = None \<Longrightarrow> sd_query_telemetry drv cutoff db = (db', rt) \<Longrightarrow>
      committed db' = committed db \<and> pending db' = None \<and>
      (\<forall>xs. rt = Inr xs \<longrightarrow> (\<exists>rows. xs = map (\<lambda>x. (tr_hostname x, tr_payload x)) rows \<and>
         mset rows = mset (filter (\<lambda>x. cutoff \<le> tr_observed_at x) (tb_telemetry (committed db))) \<and>
         sorted (map tr_observed_at rows)))"
    and query_incidents_law: "pending db = None \<Longrightarrow> sd_query_incidents drv db = (db', ri) \<Longrightarrow>
      committed db' = committed db \<and> pending db' = None \<and>
      (\<forall>rows. ri = Inr rows \<longrightarrow> mset rows = mset (tb_incidents (committed db)) \<and>
         sorted (map (\<lambda>x. (ir_occurrence_key x, ir_occurrence_sequence x)) rows))"
    and query_decisions_law: "pending db = None \<Longrightarrow> sd_query_decisions drv db = (db', rd) \<Longrightarrow>
      committed db' = committed db \<and> pending db' = None \<and>
      (\<forall>rows. rd = Inr rows \<longrightarrow> mset rows = mset (tb_decisions (committed db)) \<and>
         sorted (map dr_decided_at rows))"
    and ping_law: "sd_ping drv db = (db', e) \<Longrightarrow> committed db' = committed db \<and> pending db' = pending db"

section \<open>A driver on tables with scripted failures\<close>

text \<open>Each operation takes the next flag of the script; a set flag makes it fail.\<close>

record table_db =
  td_committed :: tables
  td_pending :: "tables option"
  td_faults :: "bool list"

definition next_fault :: "table_db \<Rightarrow> bool \<times> table_db" where
  "next_fault db =
     (case td_faults db of [] \<Rightarrow> (False, db) | b # bs \<Rightarrow> (b, db\<lparr>td_faults := bs\<rparr>))"

definition td_error :: string where "td_error = ''injected failure''"

definition td_begin :: "table_db \<Rightarrow> table_db \<times> string option" where
  "td_begin db = (let (f, db) = next_fault db in
     if f then (db, Some td_error) else (db\<lparr>td_pending := Some (td_committed db)\<rparr>, None))"

definition td_prepare :: "table_db \<Rightarrow> table_db \<times> string option" where
  "td_prepare db = (let (f, db) = next_fault db in (db, if f then Some td_error else None))"

definition td_exec :: "stmt \<Rightarrow> table_db \<Rightarrow> table_db \<times> (string + nat)" where
  "td_exec st db =
     (let (f, db) = next_fault db;
          t = (case td_pending db of None \<Rightarrow> td_committed db | Some t \<Rightarrow> t) in
      if f \<or> \<not> stmt_allowed st t then (db, Inl td_error)
      else let (t', n) = stmt_effect st t in
        ((case td_pending db of None \<Rightarrow> db\<lparr>td_committed := t'\<rparr> | Some _ \<Rightarrow> db\<lparr>td_pending := Some t'\<rparr>),
         Inr n))"

definition td_commit :: "table_db \<Rightarrow> table_db \<times> string option" where
  "td_commit db =
     (let (f, db) = next_fault db in
      case td_pending db of
        None \<Rightarrow> (db, Some td_error)
      | Some t \<Rightarrow>
          if f then (db\<lparr>td_pending := None\<rparr>, Some td_error)
          else (db\<lparr>td_committed := t, td_pending := None\<rparr>, None))"

definition td_rollback :: "table_db \<Rightarrow> table_db" where
  "td_rollback db = db\<lparr>td_pending := None\<rparr>"

definition td_read :: "(tables \<Rightarrow> 'a) \<Rightarrow> table_db \<Rightarrow> table_db \<times> (string + 'a)" where
  "td_read f db = (let (b, db) = next_fault db in (db, if b then Inl td_error else Inr (f (td_committed db))))"

definition table_driver :: "table_db sql_driver" where
  "table_driver =
     \<lparr>sd_begin = td_begin, sd_prepare = td_prepare, sd_exec = td_exec, sd_commit = td_commit,
      sd_rollback = td_rollback,
      sd_query_telemetry = (\<lambda>cutoff. td_read (\<lambda>t. map (\<lambda>x. (tr_hostname x, tr_payload x))
        (sort_key tr_observed_at (filter (\<lambda>x. cutoff \<le> tr_observed_at x) (tb_telemetry t))))),
      sd_query_incidents = td_read (\<lambda>t.
        sort_key (\<lambda>x. (ir_occurrence_key x, ir_occurrence_sequence x)) (tb_incidents t)),
      sd_query_decisions = td_read (\<lambda>t. sort_key dr_decided_at (tb_decisions t)),
      sd_ping = td_prepare\<rparr>"

lemma next_fault_keeps:
  "next_fault db = (b, db') \<Longrightarrow> td_committed db' = td_committed db \<and> td_pending db' = td_pending db"
  by (auto simp: next_fault_def split: list.splits)

lemma td_begin_keeps:
  "td_begin db = (db', e) \<Longrightarrow> td_committed db' = td_committed db \<and>
   td_pending db' = (if e = None then Some (td_committed db) else td_pending db)"
  using next_fault_keeps by (fastforce simp: td_begin_def split: prod.splits if_splits)

lemma td_prepare_keeps:
  "td_prepare db = (db', e) \<Longrightarrow> td_committed db' = td_committed db \<and> td_pending db' = td_pending db"
  using next_fault_keeps by (fastforce simp: td_prepare_def split: prod.splits)

lemma td_commit_keeps:
  "td_commit db = (db', e) \<Longrightarrow> td_pending db = Some t \<Longrightarrow>
   td_pending db' = None \<and> td_committed db' = (if e = None then t else td_committed db)"
  using next_fault_keeps by (fastforce simp: td_commit_def split: prod.splits if_splits)

lemma td_exec_cases:
  assumes "td_exec st db = (db', r)"
  defines "t \<equiv> (case td_pending db of None \<Rightarrow> td_committed db | Some t \<Rightarrow> t)"
  shows "(\<exists>e. r = Inl e) \<and> td_committed db' = td_committed db \<and> td_pending db' = td_pending db \<or>
    (\<exists>t' n. r = Inr n \<and> stmt_allowed st t \<and> stmt_effect st t = (t', n) \<and>
      td_committed db' = (if td_pending db = None then t' else td_committed db) \<and>
      td_pending db' = (if td_pending db = None then None else Some t'))"
proof -
  obtain f db1 where f: "next_fault db = (f, db1)" by (cases "next_fault db")
  note k = next_fault_keeps [OF f]
  obtain t' n where e: "stmt_effect st t = (t', n)" by (cases "stmt_effect st t")
  show ?thesis
    using assms(1) k e
    by (cases "td_pending db") (auto simp: td_exec_def f Let_def t_def split: if_splits)
qed

lemma td_read_keeps:
  "td_read g db = (db', r) \<Longrightarrow> td_committed db' = td_committed db \<and> td_pending db' = td_pending db \<and>
   (\<forall>x. r = Inr x \<longrightarrow> x = g (td_committed db))"
  using next_fault_keeps by (fastforce simp: td_read_def split: prod.splits if_splits)

interpretation table_sql: sql_laws table_driver td_committed td_pending
proof (unfold_locales, goal_cases)
  case (1 db db' e)
  then show ?case using td_begin_keeps by (force simp: table_driver_def)
next
  case (2 db db' e)
  then show ?case using td_prepare_keeps by (force simp: table_driver_def)
next
  case (3 db t st db' r)
  then show ?case using td_exec_cases [of st db db' r] by (auto simp: table_driver_def)
next
  case (4 db st db' r)
  then show ?case using td_exec_cases [of st db db' r] by (auto simp: table_driver_def)
next
  case (5 db t db' e)
  then show ?case using td_commit_keeps by (force simp: table_driver_def)
next
  case (6 db t)
  then show ?case by (simp add: table_driver_def td_rollback_def)
next
  case (7 db cutoff db' r)
  then have "td_read (\<lambda>t. map (\<lambda>x. (tr_hostname x, tr_payload x))
      (sort_key tr_observed_at (filter (\<lambda>x. cutoff \<le> tr_observed_at x) (tb_telemetry t)))) db = (db', r)"
    by (simp add: table_driver_def)
  note k = td_read_keeps [OF this]
  let ?rows = "sort_key tr_observed_at
      (filter (\<lambda>x. cutoff \<le> tr_observed_at x) (tb_telemetry (td_committed db)))"
  have "mset ?rows = mset (filter (\<lambda>x. cutoff \<le> tr_observed_at x) (tb_telemetry (td_committed db)))"
      "sorted (map tr_observed_at ?rows)"
    by (rule mset_sort, rule sorted_sort_key)
  then have "\<exists>rows. xs = map (\<lambda>x. (tr_hostname x, tr_payload x)) rows \<and>
         mset rows = mset (filter (\<lambda>x. cutoff \<le> tr_observed_at x) (tb_telemetry (td_committed db))) \<and>
         sorted (map tr_observed_at rows)" if "r = Inr xs" for xs
    using k that by blast
  then show ?case using k 7(1) by metis
next
  case (8 db db' r)
  then have "td_read (\<lambda>t. sort_key (\<lambda>x. (ir_occurrence_key x, ir_occurrence_sequence x))
      (tb_incidents t)) db = (db', r)"
    by (simp add: table_driver_def)
  note k = td_read_keeps [OF this]
  have "mset rows = mset (tb_incidents (td_committed db)) \<and>
      sorted (map (\<lambda>x. (ir_occurrence_key x, ir_occurrence_sequence x)) rows)" if "r = Inr rows" for rows
  proof -
    have e: "rows = sort_key (\<lambda>x. (ir_occurrence_key x, ir_occurrence_sequence x))
        (tb_incidents (td_committed db))" using k that by blast
    show ?thesis unfolding e by (intro conjI mset_sort sorted_sort_key)
  qed
  then show ?case using k 8(1) by metis
next
  case (9 db db' r)
  then have "td_read (\<lambda>t. sort_key dr_decided_at (tb_decisions t)) db = (db', r)"
    by (simp add: table_driver_def)
  note k = td_read_keeps [OF this]
  have "mset rows = mset (tb_decisions (td_committed db)) \<and> sorted (map dr_decided_at rows)"
    if "r = Inr rows" for rows
  proof -
    have e: "rows = sort_key dr_decided_at (tb_decisions (td_committed db))" using k that by blast
    show ?thesis unfolding e by (intro conjI mset_sort sorted_sort_key)
  qed
  then show ?case using k 9(1) by metis
next
  case (10 db db' e)
  then show ?case using td_prepare_keeps by (force simp: table_driver_def)
qed

end
