(* ===== verification/Persistence.thy ===== *)
theory Persistence
  imports Database Detection
begin

text \<open>
  \<open>internal/persistence/store.go\<close>: the durable store, which keeps the newest samples, the bounded
  per-device history, the incident store and the anomaly buffer in memory and writes telemetry,
  incidents and decisions through the database driver. Every operation is a function of the driver
  and the state; the two mutexes serialise the operations. An error carries the message of the
  driver; the failures of one query (\<open>Query\<close>, \<open>Scan\<close>, \<open>rows.Err\<close>) are one constructor.
\<close>

record 'db pstore =
  ps_db :: 'db
  ps_retention :: duration
  ps_latest :: "string \<rightharpoonup> device_telemetry"
  ps_history :: "string \<rightharpoonup> device_telemetry list"
  ps_incidents :: incident_store
  ps_anomalies :: "anomaly list"

datatype open_error = OpenSqlite string string | SetDialect string | RunMigrations string

datatype persist_error =
    ErrOpen open_error
  | ErrQuery string
  | ErrPayload string
  | ErrAffected string
  | ErrTimestamp string
  | ErrBegin string
  | ErrPrepare string
  | ErrMarshal string
  | ErrInsert string string
  | ErrCommit string
  | ErrIncidentInsert string string
  | ErrDecide incident_error
  | ErrUpdate string
  | ErrDecisionRow string
  | ErrPrune string

definition max_history_per_device :: nat where
  "max_history_per_device = 90"

definition max_anomalies :: nat where
  "max_anomalies = 100"

section \<open>Telemetry\<close>

definition append_history :: "device_telemetry \<Rightarrow> 'db pstore \<Rightarrow> 'db pstore" where
  "append_history d s =
     s\<lparr>ps_latest := (ps_latest s)(hostname d \<mapsto> d),
       ps_history := (ps_history s)(hostname d \<mapsto>
         take_last max_history_per_device (lookup_list (ps_history s) (hostname d) @ [d]))\<rparr>"

record ingest_result =
  ig_accepted :: nat
  ig_rejected :: nat
  ig_errors :: "(string \<times> validation_error) list"
  ig_valid :: "device_telemetry list"

text \<open>The first loop of \<open>Ingest\<close>; \<open>ValidDevices\<close> is filled in at the end, on success.\<close>

definition ingest_check ::
  "device_telemetry \<Rightarrow> ingest_result \<times> device_telemetry list \<Rightarrow> ingest_result \<times> device_telemetry list" where
  "ingest_check d rv =
     (let (r, valid) = rv in
      case validate d of
        Some err \<Rightarrow> (r\<lparr>ig_rejected := ig_rejected r + 1, ig_errors := ig_errors r @ [(hostname d, err)]\<rparr>, valid)
      | None \<Rightarrow> (r\<lparr>ig_accepted := ig_accepted r + 1\<rparr>, valid @ [d]))"

definition telemetry_row_of :: "device_telemetry \<Rightarrow> json \<Rightarrow> string \<Rightarrow> string \<Rightarrow> telemetry_row" where
  "telemetry_row_of d payload run_id created_at =
     \<lparr>tr_hostname = hostname d, tr_role = role d, tr_payload = payload,
      tr_observed_at = rfc3339 (observed_at d), tr_run_id = run_id, tr_created_at = created_at\<rparr>"

text \<open>The loop over the valid samples inside the transaction; \<open>Some\<close> is an early return, after
  \<open>Rollback\<close>.\<close>

fun insert_rows ::
  "'db sql_driver \<Rightarrow> string \<Rightarrow> string \<Rightarrow> device_telemetry list \<Rightarrow> 'db \<Rightarrow> 'db \<times> persist_error option" where
  "insert_rows drv run_id created_at [] db = (db, None)"
| "insert_rows drv run_id created_at (d # ds) db =
     (case marshal_device d of
        None \<Rightarrow> (sd_rollback drv db, Some (ErrMarshal (hostname d)))
      | Some payload \<Rightarrow>
          (case sd_exec drv (InsertTelemetry (telemetry_row_of d payload run_id created_at)) db of
             (db', Inl e) \<Rightarrow> (sd_rollback drv db', Some (ErrInsert (hostname d) e))
           | (db', Inr n) \<Rightarrow> insert_rows drv run_id created_at ds db'))"

definition store_rows ::
  "'db sql_driver \<Rightarrow> string \<Rightarrow> gotime \<Rightarrow> device_telemetry list \<Rightarrow> 'db \<Rightarrow> 'db \<times> persist_error option" where
  "store_rows drv run_id now valid db =
     (case sd_begin drv db of
        (db1, Some e) \<Rightarrow> (db1, Some (ErrBegin e))
      | (db1, None) \<Rightarrow>
          (case sd_prepare drv db1 of
             (db2, Some e) \<Rightarrow> (sd_rollback drv db2, Some (ErrPrepare e))
           | (db2, None) \<Rightarrow>
               (case insert_rows drv run_id (rfc3339 now) valid db2 of
                  (db3, Some e) \<Rightarrow> (db3, Some e)
                | (db3, None) \<Rightarrow>
                    (case sd_commit drv db3 of
                       (db4, Some e) \<Rightarrow> (db4, Some (ErrCommit e))
                     | (db4, None) \<Rightarrow> (db4, None)))))"

definition ingest ::
  "'db sql_driver \<Rightarrow> device_telemetry list \<Rightarrow> string \<Rightarrow> gotime \<Rightarrow> 'db pstore \<Rightarrow>
   'db pstore \<times> ingest_result \<times> persist_error option" where
  "ingest drv devices run_id now s =
     (let (r, valid) = fold ingest_check devices
            (\<lparr>ig_accepted = 0, ig_rejected = 0, ig_errors = [], ig_valid = []\<rparr>, []);
          (db', err) = (if valid \<noteq> [] then store_rows drv run_id now valid (ps_db s) else (ps_db s, None));
          s' = s\<lparr>ps_db := db'\<rparr> in
      case err of
        Some e \<Rightarrow> (s', r, Some e)
      | None \<Rightarrow> (fold append_history valid s', r\<lparr>ig_valid := valid\<rparr>, None))"

text \<open>\<open>LatestDevices\<close> ranges over a map, so it takes the order of the visit, and sorts by hostname.\<close>

definition latest_devices :: "string list \<Rightarrow> 'db pstore \<Rightarrow> device_telemetry list" where
  "latest_devices order s = sort_key hostname (List.map_filter (ps_latest s) order)"

definition device_history :: "'db pstore \<Rightarrow> string \<Rightarrow> device_telemetry list" where
  "device_history s host = lookup_list (ps_history s) host"

definition retention_cutoff :: "gotime \<Rightarrow> 'db pstore \<Rightarrow> gotime" where
  "retention_cutoff now s = time_add now (wrap64 (- ps_retention s))"

definition prune :: "'db sql_driver \<Rightarrow> gotime \<Rightarrow> 'db pstore \<Rightarrow> 'db pstore \<times> (persist_error + nat)" where
  "prune drv now s =
     (case sd_exec drv (DeleteTelemetry (rfc3339 (retention_cutoff now s))) (ps_db s) of
        (db', Inl e) \<Rightarrow> (s\<lparr>ps_db := db'\<rparr>, Inl (ErrPrune e))
      | (db', Inr n) \<Rightarrow> (s\<lparr>ps_db := db'\<rparr>, Inr n))"

definition ping :: "'db sql_driver \<Rightarrow> 'db pstore \<Rightarrow> 'db pstore \<times> string option" where
  "ping drv s = (let (db', e) = sd_ping drv (ps_db s) in (s\<lparr>ps_db := db'\<rparr>, e))"

section \<open>Anomalies\<close>

definition add_anomaly :: "anomaly \<Rightarrow> anomaly list \<times> string set \<Rightarrow> anomaly list \<times> string set" where
  "add_anomaly a s = (if an_id a \<in> snd s then s else (a # fst s, insert (an_id a) (snd s)))"

definition record_anomalies :: "anomaly list \<Rightarrow> 'db pstore \<Rightarrow> 'db pstore" where
  "record_anomalies new s =
     (let as = fst (fold add_anomaly new (ps_anomalies s, set (map an_id (ps_anomalies s)))) in
      s\<lparr>ps_anomalies := (if length as > max_anomalies then take max_anomalies as else as)\<rparr>)"

definition recorded_anomalies :: "'db pstore \<Rightarrow> anomaly list" where
  "recorded_anomalies s = ps_anomalies s"

section \<open>Incidents\<close>

definition incident_row_of :: "incident \<Rightarrow> incident_row" where
  "incident_row_of i =
     \<lparr>ir_id = in_id i, ir_occurrence_key = in_occurrence_key i,
      ir_occurrence_sequence = in_occurrence_sequence i, ir_severity = in_severity i,
      ir_affected_devices = marshal_strings (in_affected_devices i), ir_root_cause = in_root_cause i,
      ir_status = in_status i, ir_created_at = rfc3339 (in_created_at i),
      ir_updated_at = rfc3339 (in_updated_at i), ir_confidence = in_confidence i,
      ir_predicted_sla_breach_minutes = in_predicted_sla_breach_minutes i,
      ir_recommended_action = in_recommended_action i\<rparr>"

definition upsert_incident ::
  "'db sql_driver \<Rightarrow> candidate \<Rightarrow> gotime \<Rightarrow> 'db pstore \<Rightarrow> 'db pstore \<times> incident \<times> bool \<times> persist_error option" where
  "upsert_incident drv c now s =
     (let (m, inc, created) = inc_upsert c now (ps_incidents s); s1 = s\<lparr>ps_incidents := m\<rparr> in
      if \<not> created then (s1, inc, False, None)
      else case sd_exec drv (InsertIncident (incident_row_of inc)) (ps_db s1) of
        (db', Inl e) \<Rightarrow> (s1\<lparr>ps_db := db'\<rparr>, inc, True, Some (ErrIncidentInsert (in_id inc) e))
      | (db', Inr n) \<Rightarrow> (s1\<lparr>ps_db := db'\<rparr>, inc, True, None))"

definition decision_row_of :: "decision \<Rightarrow> decision_row" where
  "decision_row_of d =
     \<lparr>dr_incident_id = de_incident_id d, dr_status = de_status d, dr_actor = de_actor d,
      dr_decided_at = rfc3339 (de_decided_at d)\<rparr>"

text \<open>The transaction of \<open>DecideIncident\<close>.\<close>

definition store_decision ::
  "'db sql_driver \<Rightarrow> incident \<Rightarrow> decision \<Rightarrow> 'db \<Rightarrow> 'db \<times> persist_error option" where
  "store_decision drv inc d db =
     (case sd_begin drv db of
        (db1, Some e) \<Rightarrow> (db1, Some (ErrBegin e))
      | (db1, None) \<Rightarrow>
          (case sd_exec drv (UpdateIncident (in_status inc) (rfc3339 (in_updated_at inc)) (in_id inc)) db1 of
             (db2, Inl e) \<Rightarrow> (sd_rollback drv db2, Some (ErrUpdate e))
           | (db2, Inr n) \<Rightarrow>
               (case sd_exec drv (InsertDecision (decision_row_of d)) db2 of
                  (db3, Inl e) \<Rightarrow> (sd_rollback drv db3, Some (ErrDecisionRow e))
                | (db3, Inr n) \<Rightarrow>
                    (case sd_commit drv db3 of
                       (db4, Some e) \<Rightarrow> (db4, Some (ErrCommit e))
                     | (db4, None) \<Rightarrow> (db4, None)))))"

text \<open>\<open>DecideIncident\<close>; \<open>None\<close> stands for the zero incident of the not-found error.\<close>

definition decide_incident ::
  "'db sql_driver \<Rightarrow> string \<Rightarrow> inc_status \<Rightarrow> string \<Rightarrow> gotime \<Rightarrow> 'db pstore \<Rightarrow>
   'db pstore \<times> (incident \<times> bool) option \<times> persist_error option" where
  "decide_incident drv iid status actor now s =
     (case inc_decide iid status actor now (ps_incidents s) of
        (m, Inl e) \<Rightarrow> (s\<lparr>ps_incidents := m\<rparr>, None, Some (ErrDecide e))
      | (m, Inr (inc, was_active)) \<Rightarrow>
          (let (db', err) = store_decision drv inc
             \<lparr>de_incident_id = in_id inc, de_status = status, de_actor = actor, de_decided_at = now\<rparr> (ps_db s)
           in (s\<lparr>ps_incidents := m, ps_db := db'\<rparr>, Some (inc, was_active), err)))"

definition active_incident :: "string list \<Rightarrow> 'db pstore \<Rightarrow> incident option" where
  "active_incident order s = inc_active order (ps_incidents s)"

definition list_incidents :: "string list \<Rightarrow> 'db pstore \<Rightarrow> incident list" where
  "list_incidents order s = inc_list order (ps_incidents s)"

definition incident_decisions :: "'db pstore \<Rightarrow> string \<Rightarrow> decision list" where
  "incident_decisions s iid = inc_decisions (ps_incidents s) iid"

section \<open>Restart\<close>

fun restore_telemetry ::
  "(string \<times> json) list \<Rightarrow> 'db pstore \<Rightarrow> persist_error + 'db pstore" where
  "restore_telemetry [] s = Inr s"
| "restore_telemetry ((host, payload) # rows) s =
     (case unmarshal_device payload of
        None \<Rightarrow> Inl (ErrPayload host)
      | Some d \<Rightarrow> restore_telemetry rows (append_history d s))"

definition incident_of_row :: "incident_row \<Rightarrow> persist_error + incident" where
  "incident_of_row r =
     (case unmarshal_strings (ir_affected_devices r) of
        None \<Rightarrow> Inl (ErrAffected (ir_id r))
      | Some affected \<Rightarrow>
          (case parse_rfc3339 (ir_created_at r) of
             Inl e \<Rightarrow> Inl (ErrTimestamp (ir_id r))
           | Inr created \<Rightarrow>
               (case parse_rfc3339 (ir_updated_at r) of
                  Inl e \<Rightarrow> Inl (ErrTimestamp (ir_id r))
                | Inr updated \<Rightarrow>
                    Inr \<lparr>in_id = ir_id r, in_occurrence_key = ir_occurrence_key r,
                      in_occurrence_sequence = ir_occurrence_sequence r, in_severity = ir_severity r,
                      in_affected_devices = affected, in_root_cause = ir_root_cause r,
                      in_status = ir_status r, in_created_at = created, in_updated_at = updated,
                      in_confidence = ir_confidence r,
                      in_predicted_sla_breach_minutes = ir_predicted_sla_breach_minutes r,
                      in_recommended_action = ir_recommended_action r\<rparr>)))"

fun incidents_of_rows :: "incident_row list \<Rightarrow> persist_error + incident list" where
  "incidents_of_rows [] = Inr []"
| "incidents_of_rows (r # rs) =
     (case incident_of_row r of
        Inl e \<Rightarrow> Inl e
      | Inr i \<Rightarrow> (case incidents_of_rows rs of Inl e \<Rightarrow> Inl e | Inr is \<Rightarrow> Inr (i # is)))"

fun decisions_of_rows ::
  "decision_row list \<Rightarrow> (string \<rightharpoonup> decision list) \<Rightarrow> persist_error + (string \<rightharpoonup> decision list)" where
  "decisions_of_rows [] ds = Inr ds"
| "decisions_of_rows (r # rs) ds =
     (case parse_rfc3339 (dr_decided_at r) of
        Inl e \<Rightarrow> Inl (ErrTimestamp '''')
      | Inr t \<Rightarrow> decisions_of_rows rs (ds(dr_incident_id r \<mapsto> lookup_list ds (dr_incident_id r) @
          [\<lparr>de_incident_id = dr_incident_id r, de_status = dr_status r, de_actor = dr_actor r,
            de_decided_at = t\<rparr>])))"

definition restore :: "'db sql_driver \<Rightarrow> gotime \<Rightarrow> 'db pstore \<Rightarrow> persist_error + 'db pstore" where
  "restore drv now s =
     (case sd_query_telemetry drv (rfc3339 (retention_cutoff now s)) (ps_db s) of
        (db1, Inl e) \<Rightarrow> Inl (ErrQuery e)
      | (db1, Inr rows) \<Rightarrow>
          (case restore_telemetry rows s of
             Inl e \<Rightarrow> Inl e
           | Inr s1 \<Rightarrow>
               (case sd_query_incidents drv db1 of
                  (db2, Inl e) \<Rightarrow> Inl (ErrQuery e)
                | (db2, Inr irows) \<Rightarrow>
                    (case incidents_of_rows irows of
                       Inl e \<Rightarrow> Inl e
                     | Inr all \<Rightarrow>
                         (case sd_query_decisions drv db2 of
                            (db3, Inl e) \<Rightarrow> Inl (ErrQuery e)
                          | (db3, Inr drows) \<Rightarrow>
                              (case decisions_of_rows drows Map.empty of
                                 Inl e \<Rightarrow> Inl e
                               | Inr ds \<Rightarrow>
                                   Inr (s1\<lparr>ps_db := db3,
                                     ps_incidents := inc_restore all ds (ps_incidents s1)\<rparr>)))))))"

definition initial_pstore :: "'db \<Rightarrow> duration \<Rightarrow> 'db pstore" where
  "initial_pstore db retention =
     \<lparr>ps_db = db, ps_retention = retention, ps_latest = Map.empty, ps_history = Map.empty,
      ps_incidents = new_incident_store, ps_anomalies = []\<rparr>"

text \<open>\<open>Open\<close>: the connection and the migrations of the directory. \<open>sql.Open\<close>, \<open>goose.SetDialect\<close> and
  \<open>goose.Up\<close> are parameters; on an error of the last two the connection is closed and dropped.\<close>

record 'db db_opener =
  do_open :: "string \<Rightarrow> string \<Rightarrow> string + 'db"
  do_dialect :: "string \<Rightarrow> string option"
  do_up :: "string \<Rightarrow> 'db \<Rightarrow> 'db \<times> string option"

definition open_db :: "'db db_opener \<Rightarrow> string \<Rightarrow> open_error + 'db" where
  "open_db opener path =
     (case do_open opener ''sqlite'' path of
        Inl e \<Rightarrow> Inl (OpenSqlite path e)
      | Inr db \<Rightarrow>
          (case do_dialect opener ''sqlite3'' of
             Some e \<Rightarrow> Inl (SetDialect e)
           | None \<Rightarrow>
               (case do_up opener ''migrations'' db of
                  (db', Some e) \<Rightarrow> Inl (RunMigrations e)
                | (db', None) \<Rightarrow> Inr db')))"

text \<open>\<open>NewStore\<close> after \<open>Open\<close>, whose result is the argument \<open>opened\<close>.\<close>

definition new_store ::
  "'db sql_driver \<Rightarrow> open_error + 'db \<Rightarrow> duration \<Rightarrow> gotime \<Rightarrow> persist_error + 'db pstore" where
  "new_store drv opened retention now =
     (case opened of
        Inl e \<Rightarrow> Inl (ErrOpen e)
      | Inr db \<Rightarrow> restore drv now (initial_pstore db retention))"

end
