(* ===== verification/Api.thy ===== *)
theory Api
  imports Wire Config Metrics Persistence Correlation
begin

text \<open>
  \<open>internal/api/server.go\<close> and \<open>handlers.go\<close>: routing, CORS, the metrics middleware and every
  handler. A handler maps the server state to the new state and a response; \<open>None\<close> instead of a
  response is a panic, after which \<open>net/http\<close> drops the connection. What a handler reads from
  outside (the clock, the order in which Go visits a map, random bytes, the texts of decoding
  errors) is the record \<open>env\<close>. Tracing spans and log lines do not influence anything and are left
  out; \<open>Store\<close>, \<open>Runbooks\<close> and \<open>Metrics\<close> may be nil, the logger is not.
\<close>

record 'db server =
  sv_store :: "'db pstore option"
  sv_runbooks :: "library option"
  sv_metrics :: "metric_event list option"
  sv_config :: config
  sv_version :: string
  sv_run_id :: string
  sv_otel_status :: string

record env =
  ev_start :: gotime
  ev_now :: gotime
  ev_end :: gotime
  ev_hosts :: "string list"
  ev_list_order :: "string list"
  ev_active_order :: "string list"
  ev_random :: "int list option"
  ev_type_error :: string

text \<open>A request as the handlers see it: the path in segments, query parameters, and the first JSON
  value of the body or the reader's error.\<close>

record request =
  rq_method :: string
  rq_path :: "string list"
  rq_origin :: string
  rq_params :: "string \<Rightarrow> string option"
  rq_body :: "string + json"

datatype body = NoBody | Json json | EncodingFailed | PlainText | Exposition "metric_event list"

record response =
  rs_status :: nat
  rs_headers :: "(string \<times> string) list"
  rs_body :: body

section \<open>Responses\<close>

definition new_trace_id :: "int list option \<Rightarrow> string" where
  "new_trace_id random = (case random of None \<Rightarrow> ''unavailable'' | Some bytes \<Rightarrow> hex_encode bytes)"

text \<open>The encoder writes nothing when the value has a float that is not finite.\<close>

definition write_json :: "nat \<Rightarrow> json \<Rightarrow> response" where
  "write_json status v =
     \<lparr>rs_status = status, rs_headers = [(''Content-Type'', ''application/json'')],
      rs_body = (if encodable v then Json v else EncodingFailed)\<rparr>"

definition write_error :: "env \<Rightarrow> nat \<Rightarrow> string \<Rightarrow> string \<Rightarrow> response" where
  "write_error ev status code message =
     write_json status (error_json code message (new_trace_id (ev_random ev)))"

definition record_metrics :: "metric_event list \<Rightarrow> 'db server \<Rightarrow> 'db server" where
  "record_metrics es s = s\<lparr>sv_metrics := map_option (\<lambda>old. old @ es) (sv_metrics s)\<rparr>"

definition mode_label :: "'db server \<Rightarrow> string" where
  "mode_label s = cf_environment_mode (sv_config s)"

text \<open>\<open>json.NewDecoder(r.Body).Decode\<close>: the reader's error, or a value of the wrong type.\<close>

definition decode_body :: "env \<Rightarrow> (json \<Rightarrow> 'a option) \<Rightarrow> string + json \<Rightarrow> string + 'a" where
  "decode_body ev decode bdy =
     and_then bdy (\<lambda>j. case decode j of None \<Rightarrow> Inl (ev_type_error ev) | Some r \<Rightarrow> Inr r)"

section \<open>Health and telemetry\<close>

definition handle_health :: "'db sql_driver \<Rightarrow> 'db server \<Rightarrow> 'db server \<times> response option" where
  "handle_health drv s =
     (let otel_status = (if sv_otel_status s = '''' then ''disabled'' else sv_otel_status s);
          (store, db_status) =
            (case sv_store s of
               None \<Rightarrow> (None, ''unavailable'')
             | Some st \<Rightarrow> (case ping drv st of
                 (st', None) \<Rightarrow> (Some st', ''ok'')
               | (st', Some _) \<Rightarrow> (Some st', ''error'')));
          llm_status = (if has_real_llm_key (sv_config s) then ''configured'' else ''fallback'');
          (status, code) = (if db_status \<noteq> ''ok'' then (''degraded'', 503) else (''ok'', 200))
      in (s\<lparr>sv_store := store\<rparr>, Some (write_json code
           (health_json status (mode_label s)
             [(''database'', db_status), (''llm_provider'', llm_status), (''otel_exporter'', otel_status)]
             (sv_version s) (sv_run_id s)))))"

definition count_ingest :: "ingest_result \<Rightarrow> 'db server \<Rightarrow> 'db server" where
  "count_ingest r s =
     record_metrics
       ((if ig_accepted r > 0
         then [MetricAdd TelemetryRecordsReceived [mode_label s, ''synthetic''] (int (ig_accepted r))] else []) @
        (if ig_rejected r > 0
         then [MetricAdd TelemetryIngestionErrors [mode_label s, ''validation''] (int (ig_rejected r))] else [])) s"

definition detect_anomalies :: "device_telemetry list \<Rightarrow> gotime \<Rightarrow> 'db server \<Rightarrow> 'db server" where
  "detect_anomalies devices now s =
     s\<lparr>sv_store := map_option (record_anomalies (detect devices now)) (sv_store s)\<rparr>"

text \<open>The body of the loop over the candidates.\<close>

definition upsert_step :: "'db sql_driver \<Rightarrow> gotime \<Rightarrow> candidate \<Rightarrow> 'db server \<Rightarrow> 'db server" where
  "upsert_step drv now c s =
     (case sv_store s of
        None \<Rightarrow> s
      | Some st \<Rightarrow>
          (let (st', inc, created, err) = upsert_incident drv c now st; s' = s\<lparr>sv_store := Some st'\<rparr> in
           if err \<noteq> None then s'
           else if created then
             record_metrics
               (MetricAdd IncidentsActive [mode_label s, inc_severity_text (cd_severity c)] 1 #
                (if in_occurrence_sequence inc > 1 then [MetricAdd IncidentsRecurred [mode_label s] 1] else [])) s'
           else s'))"

definition correlate_incidents :: "'db sql_driver \<Rightarrow> device_telemetry list \<Rightarrow> gotime \<Rightarrow> 'db server \<Rightarrow> 'db server" where
  "correlate_incidents drv valid now s = fold (upsert_step drv now) (correlate valid) s"

definition handle_ingest ::
  "'db sql_driver \<Rightarrow> env \<Rightarrow> string + json \<Rightarrow> 'db server \<Rightarrow> 'db server \<times> response option" where
  "handle_ingest drv ev bdy s =
     (case decode_body ev decode_ingest bdy of
        Inl e \<Rightarrow> (s, Some (write_error ev 400 ''invalid_request'' (''malformed JSON body: '' @ e)))
      | Inr req \<Rightarrow>
          (case sv_store s of
             None \<Rightarrow> (s, None)
           | Some st \<Rightarrow>
               (case ingest drv (iq_devices req) (iq_run_id req) (ev_now ev) st of
                  (st', r, Some e) \<Rightarrow>
                    (s\<lparr>sv_store := Some st'\<rparr>,
                     Some (write_error ev 500 ''ingest_failed'' ''failed to persist telemetry batch''))
                | (st', r, None) \<Rightarrow>
                    (let s1 = count_ingest r (s\<lparr>sv_store := Some st'\<rparr>);
                         s2 = detect_anomalies (ig_valid r) (ev_now ev) s1;
                         s3 = correlate_incidents drv (ig_valid r) (ev_now ev) s2
                     in (s3, Some (write_json 200
                          (ingest_json (ig_accepted r) (ig_rejected r) (map ingest_error_text (ig_errors r)))))))))"

definition handle_get_telemetry :: "env \<Rightarrow> 'db server \<Rightarrow> 'db server \<times> response option" where
  "handle_get_telemetry ev s =
     (s, map_option (\<lambda>st. write_json 200 (telemetry_json (latest_devices (ev_hosts ev) st) (ev_now ev)
          (mode_label s))) (sv_store s))"

section \<open>Forecast\<close>

definition risk_score :: "device_telemetry \<Rightarrow> f64" where
  "risk_score d =
     cpu_percent d * flit (35 / 100) + latency_ms d * flit (25 / 100) + packet_loss_percent d * flit 8 +
     memory_percent d * flit (2 / 10)"

definition risk_step :: "device_telemetry \<Rightarrow> device_telemetry \<times> f64 \<Rightarrow> device_telemetry \<times> f64" where
  "risk_step d best = (if snd best < risk_score d then (d, risk_score d) else best)"

definition riskiest_device :: "string list \<Rightarrow> 'db pstore \<Rightarrow> string" where
  "riskiest_device order st =
     (case latest_devices order st of
        [] \<Rightarrow> ''''
      | d # ds \<Rightarrow> hostname (fst (fold risk_step ds (d, risk_score d))))"

definition handle_forecast :: "env \<Rightarrow> string \<Rightarrow> 'db server \<Rightarrow> 'db server \<times> response option" where
  "handle_forecast ev device s =
     (case sv_store s of
        None \<Rightarrow> (s, None)
      | Some st \<Rightarrow>
          (let selected = (if device = '''' then riskiest_device (ev_hosts ev) st else device);
               history = (if selected = '''' then [] else device_history st selected)
           in (s, map_option (write_json 200)
                (forecast_json (build_forecast selected history) (mode_label s) (sv_run_id s) (ev_now ev)))))"

section \<open>Anomalies, incidents, decisions, runbooks, scenarios\<close>

definition handle_anomalies :: "'db server \<Rightarrow> 'db server \<times> response option" where
  "handle_anomalies s =
     (s, map_option (\<lambda>st. write_json 200 (JArr (map anomaly_json (recorded_anomalies st)))) (sv_store s))"

definition handle_list_incidents :: "env \<Rightarrow> 'db server \<Rightarrow> 'db server \<times> response option" where
  "handle_list_incidents ev s =
     (s, map_option (\<lambda>st. write_json 200
          (incidents_json (active_incident (ev_active_order ev) st) (list_incidents (ev_list_order ev) st)))
        (sv_store s))"

definition decision_status :: "string \<Rightarrow> inc_status option" where
  "decision_status t =
     (if t \<noteq> inc_status_text IncResolved \<and> t \<noteq> inc_status_text IncIgnored then None
      else Some (if t = inc_status_text IncResolved then IncResolved else IncIgnored))"

definition handle_decide_incident ::
  "'db sql_driver \<Rightarrow> env \<Rightarrow> string \<Rightarrow> string + json \<Rightarrow> 'db server \<Rightarrow> 'db server \<times> response option" where
  "handle_decide_incident drv ev iid bdy s =
     (case decode_body ev decode_decision bdy of
        Inl e \<Rightarrow> (s, Some (write_error ev 400 ''invalid_request'' (''malformed JSON body: '' @ e)))
      | Inr req \<Rightarrow>
          (case decision_status (dq_status req) of
             None \<Rightarrow> (s, Some (write_error ev 400 ''invalid_status'' (''status must be '' @ [CHR 0x27] @
               ''resolved'' @ [CHR 0x27] @ '' or '' @ [CHR 0x27] @ ''ignored'' @ [CHR 0x27])))
           | Some status \<Rightarrow>
               (case sv_store s of
                  None \<Rightarrow> (s, None)
                | Some st \<Rightarrow>
                    (case decide_incident drv iid status (dq_actor req) (ev_now ev) st of
                       (st', Some (updated, was_active), None) \<Rightarrow>
                         (record_metrics
                            ((if was_active then [MetricAdd IncidentsActive
                                [mode_label s, inc_severity_text (in_severity updated)] (- 1)] else []) @
                             (if status = IncResolved then [MetricAdd IncidentsResolved
                                [mode_label s, inc_severity_text (in_severity updated)] 1] else []))
                            (s\<lparr>sv_store := Some st'\<rparr>),
                          Some (write_json 200 (incident_json updated)))
                     | (st', _, _) \<Rightarrow>
                         (s\<lparr>sv_store := Some st'\<rparr>,
                          Some (write_error ev 404 ''not_found'' (''incident not found: '' @ iid)))))))"

definition handle_decisions :: "string \<Rightarrow> 'db server \<Rightarrow> 'db server \<times> response option" where
  "handle_decisions iid s =
     (s, map_option (\<lambda>st. write_json 200 (JArr (map decision_json (incident_decisions st iid)))) (sv_store s))"

definition handle_runbook :: "string \<Rightarrow> 'db server \<Rightarrow> 'db server \<times> response option" where
  "handle_runbook query s =
     (let q = (if query = '''' then ''network incident'' else query) in
      (s, Some (write_json 200 (JArr
        (case sv_runbooks s of None \<Rightarrow> [] | Some l \<Rightarrow> map runbook_json (retrieve l q 2))))))"

definition handle_list_scenarios :: "'db server \<Rightarrow> 'db server \<times> response option" where
  "handle_list_scenarios s = (s, Some (write_json 200 (JArr [])))"

definition handle_run_scenario :: "env \<Rightarrow> 'db server \<Rightarrow> 'db server \<times> response option" where
  "handle_run_scenario ev s = (s, Some (write_error ev 501 ''not_implemented''
     ''scenario execution is not implemented yet (internal/scenarios pending)''))"

definition handle_scenario_run :: "env \<Rightarrow> 'db server \<Rightarrow> 'db server \<times> response option" where
  "handle_scenario_run ev s = (s, Some (write_error ev 501 ''not_implemented''
     ''scenario run lookup is not implemented yet (internal/scenarios pending)''))"

section \<open>Routing and middleware\<close>

datatype route =
    Healthz | PostTelemetry | GetTelemetry | GetForecast | GetAnomalies | GetIncidents | PostDecision
  | GetDecisions | GetRunbook | GetScenarios | PostScenarioRun | GetScenarioRun | GetMetrics

datatype seg = Lit string | Wild

text \<open>The registration order is that of \<open>NewMux\<close>; \<open>ServeMux\<close> has no two patterns of one method that
  match the same path, so the first match is the match.\<close>

definition route_table :: "(string \<times> seg list \<times> route) list" where
  "route_table =
     (let v1 = [Lit ''api'', Lit ''v1''] in
      [(''GET'', [Lit ''healthz''], Healthz),
       (''POST'', v1 @ [Lit ''telemetry''], PostTelemetry),
       (''GET'', v1 @ [Lit ''telemetry''], GetTelemetry),
       (''GET'', v1 @ [Lit ''forecast''], GetForecast),
       (''GET'', v1 @ [Lit ''anomalies''], GetAnomalies),
       (''GET'', v1 @ [Lit ''incidents''], GetIncidents),
       (''POST'', v1 @ [Lit ''incidents'', Wild, Lit ''decision''], PostDecision),
       (''GET'', v1 @ [Lit ''incidents'', Wild, Lit ''decisions''], GetDecisions),
       (''GET'', v1 @ [Lit ''runbook''], GetRunbook),
       (''GET'', v1 @ [Lit ''scenarios''], GetScenarios),
       (''POST'', v1 @ [Lit ''scenarios'', Wild, Lit ''run''], PostScenarioRun),
       (''GET'', v1 @ [Lit ''scenarios'', Lit ''runs'', Wild], GetScenarioRun)])"

text \<open>The route label of \<open>withMetrics\<close>; \<open>/metrics\<close> is mounted without it.\<close>

fun route_label :: "route \<Rightarrow> string" where
  "route_label Healthz = ''/healthz''"
| "route_label PostTelemetry = ''/api/v1/telemetry''"
| "route_label GetTelemetry = ''/api/v1/telemetry''"
| "route_label GetForecast = ''/api/v1/forecast''"
| "route_label GetAnomalies = ''/api/v1/anomalies''"
| "route_label GetIncidents = ''/api/v1/incidents''"
| "route_label PostDecision = ''/api/v1/incidents/{id}/decision''"
| "route_label GetDecisions = ''/api/v1/incidents/{id}/decisions''"
| "route_label GetRunbook = ''/api/v1/runbook''"
| "route_label GetScenarios = ''/api/v1/scenarios''"
| "route_label PostScenarioRun = ''/api/v1/scenarios/{name}/run''"
| "route_label GetScenarioRun = ''/api/v1/scenarios/runs/{run_id}''"
| "route_label GetMetrics = ''/metrics''"

text \<open>The captured segments of a match.\<close>

fun match_path :: "seg list \<Rightarrow> string list \<Rightarrow> string list option" where
  "match_path [] [] = Some []"
| "match_path (Lit l # ss) (p # ps) = (if l = p then match_path ss ps else None)"
| "match_path (Wild # ss) (p # ps) = map_option (Cons p) (match_path ss ps)"
| "match_path _ _ = None"

definition registered_routes :: "'db server \<Rightarrow> (string \<times> seg list \<times> route) list" where
  "registered_routes s =
     route_table @ (if sv_metrics s \<noteq> None then [(''GET'', [Lit ''metrics''], GetMetrics)] else [])"

definition method_matches :: "string \<Rightarrow> string \<Rightarrow> bool" where
  "method_matches pattern meth \<longleftrightarrow> meth = pattern \<or> (pattern = ''GET'' \<and> meth = ''HEAD'')"

fun find_route :: "(string \<times> seg list \<times> route) list \<Rightarrow> string \<Rightarrow> string list \<Rightarrow> (route \<times> string list) option" where
  "find_route [] meth path = None"
| "find_route ((m, ss, r) # rs) meth path =
     (case match_path ss path of
        None \<Rightarrow> find_route rs meth path
      | Some args \<Rightarrow> if method_matches m meth then Some (r, args) else find_route rs meth path)"

definition query_param :: "request \<Rightarrow> string \<Rightarrow> string" where
  "query_param rq k = (case rq_params rq k of None \<Rightarrow> '''' | Some v \<Rightarrow> v)"

definition dispatch ::
  "'db sql_driver \<Rightarrow> env \<Rightarrow> request \<Rightarrow> route \<Rightarrow> string list \<Rightarrow> 'db server \<Rightarrow> 'db server \<times> response option" where
  "dispatch drv ev rq r args s =
     (let arg = (case args of [] \<Rightarrow> '''' | a # _ \<Rightarrow> a) in
      case r of
        Healthz \<Rightarrow> handle_health drv s
      | PostTelemetry \<Rightarrow> handle_ingest drv ev (rq_body rq) s
      | GetTelemetry \<Rightarrow> handle_get_telemetry ev s
      | GetForecast \<Rightarrow> handle_forecast ev (query_param rq ''device'') s
      | GetAnomalies \<Rightarrow> handle_anomalies s
      | GetIncidents \<Rightarrow> handle_list_incidents ev s
      | PostDecision \<Rightarrow> handle_decide_incident drv ev arg (rq_body rq) s
      | GetDecisions \<Rightarrow> handle_decisions arg s
      | GetRunbook \<Rightarrow> handle_runbook (query_param rq ''query'') s
      | GetScenarios \<Rightarrow> handle_list_scenarios s
      | PostScenarioRun \<Rightarrow> handle_run_scenario ev s
      | GetScenarioRun \<Rightarrow> handle_scenario_run ev s
      | GetMetrics \<Rightarrow> (s, map_option (\<lambda>es. \<lparr>rs_status = 200, rs_headers = [], rs_body = Exposition es\<rparr>)
          (sv_metrics s)))"

definition status_class :: "nat \<Rightarrow> string" where
  "status_class status = show_int (int status div 100) @ ''xx''"

text \<open>The recorder keeps the status of \<open>WriteHeader\<close>; a panic passes it without a record.\<close>

definition with_metrics :: "env \<Rightarrow> string \<Rightarrow> route \<Rightarrow> 'db server \<times> response option \<Rightarrow> 'db server \<times> response option" where
  "with_metrics ev meth r sr =
     (case sr of
        (s, None) \<Rightarrow> (s, None)
      | (s, Some resp) \<Rightarrow>
          if r = GetMetrics then (s, Some resp)
          else
            (let labels = [meth, route_label r, status_class (rs_status resp)] in
             (record_metrics
                [MetricObserve HTTPDuration labels (seconds (time_sub (ev_end ev) (ev_start ev))),
                 MetricAdd HTTPRequests labels 1] s, Some resp)))"

definition cors_headers :: "'db server \<Rightarrow> string \<Rightarrow> (string \<times> string) list" where
  "cors_headers s origin =
     (if origin \<noteq> '''' \<and> origin \<in> set (cf_cors_origins (sv_config s)) then
        [(''Access-Control-Allow-Origin'', origin), (''Vary'', ''Origin''),
         (''Access-Control-Allow-Methods'', ''GET, POST, OPTIONS''),
         (''Access-Control-Allow-Headers'', ''Content-Type'')]
      else [])"

text \<open>The handler \<open>NewMux\<close> builds. The text and the headers of the library's own 404 and 405 replies
  are left out.\<close>

definition mux :: "'db sql_driver \<Rightarrow> env \<Rightarrow> request \<Rightarrow> 'db server \<Rightarrow> 'db server \<times> response option" where
  "mux drv ev rq s =
     (case find_route (registered_routes s) (rq_method rq) (rq_path rq) of
        Some (r, args) \<Rightarrow> with_metrics ev (rq_method rq) r (dispatch drv ev rq r args s)
      | None \<Rightarrow>
          (s, Some \<lparr>rs_status = (if \<exists>(m, ss, r) \<in> set (registered_routes s). match_path ss (rq_path rq) \<noteq> None
                                 then 405 else 404),
                    rs_headers = [], rs_body = PlainText\<rparr>))"

definition serve :: "'db sql_driver \<Rightarrow> env \<Rightarrow> request \<Rightarrow> 'db server \<Rightarrow> 'db server \<times> response option" where
  "serve drv ev rq s =
     (let hs = cors_headers s (rq_origin rq) in
      if rq_method rq = ''OPTIONS'' then (s, Some \<lparr>rs_status = 204, rs_headers = hs, rs_body = NoBody\<rparr>)
      else case mux drv ev rq s of
        (s', resp) \<Rightarrow> (s', map_option (\<lambda>r. r\<lparr>rs_headers := hs @ rs_headers r\<rparr>) resp))"

end
