(* ===== verification/Durability.thy ===== *)
theory Durability
  imports Persistence
begin

text \<open>
  What \<open>internal/persistence/store.go\<close> guarantees, for every driver that keeps \<open>sql_laws\<close>: batches
  are stored as a whole or not at all, the in-memory history is the last 90 accepted samples, pruning
  removes exactly the rows older than the retention window, the incident tables mirror the incident
  store along error-free operations, and a restart rebuilds both (times cut to the second).
\<close>

section \<open>Ingest\<close>

lemma fold_ingest_check:
  "fold ingest_check devices (r, valid) =
    (r\<lparr>ig_accepted := ig_accepted r + length (filter (\<lambda>d. validate d = None) devices),
       ig_rejected := ig_rejected r + length (filter (\<lambda>d. validate d \<noteq> None) devices),
       ig_errors := ig_errors r @
         List.map_filter (\<lambda>d. map_option (Pair (hostname d)) (validate d)) devices\<rparr>,
     valid @ filter (\<lambda>d. validate d = None) devices)"
  by (induction devices arbitrary: r valid)
    (auto simp: ingest_check_def List.map_filter_simps split: option.splits)

definition written :: "string \<Rightarrow> string \<Rightarrow> telemetry_row \<Rightarrow> device_telemetry \<Rightarrow> bool" where
  "written run_id created r d \<longleftrightarrow> (\<exists>j. marshal_device d = Some j \<and> r = telemetry_row_of d j run_id created)"

context sql_laws
begin

lemma insert_rows_law:
  assumes "pending db = Some t" "insert_rows drv run_id created ds db = (db', e)"
  shows "committed db' = committed db \<and> (e \<noteq> None \<longrightarrow> pending db' = None) \<and>
    (e = None \<longrightarrow> (\<exists>rows. pending db' = Some (t\<lparr>tb_telemetry := tb_telemetry t @ rows\<rparr>) \<and>
       list_all2 (written run_id created) rows ds))"
  using assms
proof (induction ds arbitrary: db t)
  case Nil
  then show ?case by simp
next
  case (Cons d ds)
  show ?case
  proof (cases "marshal_device d")
    case None
    then show ?thesis using Cons.prems rollback_law [OF Cons.prems(1)] by auto
  next
    case (Some j)
    let ?r = "telemetry_row_of d j run_id created"
    obtain db1 r where x: "sd_exec drv (InsertTelemetry ?r) db = (db1, r)" by fastforce
    note law = exec_tx_law [OF Cons.prems(1) x]
    show ?thesis
    proof (cases r)
      case (Inl m)
      then have "pending db1 = Some t" using law by simp
      then show ?thesis using Cons.prems Some x Inl rollback_law [of db1 t] law by auto
    next
      case (Inr n)
      let ?t = "t\<lparr>tb_telemetry := tb_telemetry t @ [?r]\<rparr>"
      have p: "pending db1 = Some ?t" "committed db1 = committed db" using law Inr by simp_all
      have rest: "insert_rows drv run_id created ds db1 = (db', e)" using Cons.prems Some x Inr by simp
      note IH = Cons.IH [OF p(1) rest]
      have "\<exists>rows. pending db' = Some (t\<lparr>tb_telemetry := tb_telemetry t @ rows\<rparr>) \<and>
          list_all2 (written run_id created) rows (d # ds)" if "e = None"
      proof -
        from IH that obtain rows where "pending db' = Some (?t\<lparr>tb_telemetry := tb_telemetry ?t @ rows\<rparr>)"
            "list_all2 (written run_id created) rows ds" by blast
        then show ?thesis using Some by (intro exI [of _ "?r # rows"]) (auto simp: written_def)
      qed
      with IH p show ?thesis by simp
    qed
  qed
qed

lemma store_rows_law:
  assumes "pending db = None" "store_rows drv run_id now ds db = (db', e)"
  shows "pending db' = None \<and> (e \<noteq> None \<longrightarrow> committed db' = committed db) \<and>
    (e = None \<longrightarrow> (\<exists>rows. committed db' = (committed db)
       \<lparr>tb_telemetry := tb_telemetry (committed db) @ rows\<rparr> \<and>
       list_all2 (written run_id (rfc3339 now)) rows ds))"
proof -
  obtain db1 e1 where b: "sd_begin drv db = (db1, e1)" by fastforce
  note bl = begin_law [OF assms(1) b]
  show ?thesis
  proof (cases e1)
    case (Some m)
    then show ?thesis using assms(2) b bl by (auto simp: store_rows_def)
  next
    case None
    then have p1: "pending db1 = Some (committed db)" "committed db1 = committed db" using bl by simp_all
    obtain db2 e2 where p: "sd_prepare drv db1 = (db2, e2)" by fastforce
    have p2: "pending db2 = Some (committed db)" "committed db2 = committed db"
      using prepare_law [OF p] p1 by simp_all
    show ?thesis
    proof (cases e2)
      case (Some m)
      then show ?thesis using assms(2) b None p rollback_law [OF p2(1)] p2 by (auto simp: store_rows_def)
    next
      case N2: None
      obtain db3 e3 where i: "insert_rows drv run_id (rfc3339 now) ds db2 = (db3, e3)" by fastforce
      note il = insert_rows_law [OF p2(1) i]
      show ?thesis
      proof (cases e3)
        case (Some m)
        then show ?thesis using assms(2) b None p N2 i il p2 by (auto simp: store_rows_def)
      next
        case N3: None
        then obtain rows where rows: "pending db3 = Some ((committed db)
            \<lparr>tb_telemetry := tb_telemetry (committed db) @ rows\<rparr>)"
            "list_all2 (written run_id (rfc3339 now)) rows ds" using il by auto
        obtain db4 e4 where c: "sd_commit drv db3 = (db4, e4)" by fastforce
        note cl = commit_law [OF rows(1) c]
        show ?thesis
          using assms(2) b None p N2 i N3 c cl rows(2) il p2
          by (cases e4) (auto simp: store_rows_def)
      qed
    qed
  qed
qed

end

lemma append_history_simps [simp]:
  "ps_db (append_history d s) = ps_db s" "ps_incidents (append_history d s) = ps_incidents s"
  "ps_anomalies (append_history d s) = ps_anomalies s" "ps_retention (append_history d s) = ps_retention s"
  by (simp_all add: append_history_def)

lemma fold_append_history:
  "ps_db (fold append_history ds s) = ps_db s" "ps_incidents (fold append_history ds s) = ps_incidents s"
  "ps_anomalies (fold append_history ds s) = ps_anomalies s"
  "ps_retention (fold append_history ds s) = ps_retention s"
  by (induction ds arbitrary: s) simp_all

text \<open>The memory of samples after a sequence of accepted samples \<open>S\<close>.\<close>

definition remembers :: "'db pstore \<Rightarrow> device_telemetry list \<Rightarrow> bool" where
  "remembers s S \<longleftrightarrow>
     (\<forall>h. device_history s h = take_last 90 (filter (\<lambda>d. hostname d = h) S) \<and>
        ps_latest s h = (let xs = filter (\<lambda>d. hostname d = h) S in if xs = [] then None else Some (last xs)))"

lemma remembers_append: "remembers s S \<Longrightarrow> remembers (append_history d s) (S @ [d])"
  by (auto simp: remembers_def append_history_def device_history_def max_history_per_device_def
      take_last_append_take_last Let_def)

lemma remembers_fold: "remembers s S \<Longrightarrow> remembers (fold append_history ds s) (S @ ds)"
proof (induction ds arbitrary: s S)
  case (Cons d ds)
  from Cons.IH [OF remembers_append [OF Cons.prems]] show ?case by simp
qed simp

lemma ingest_law:
  assumes "sql_laws drv committed pending" "pending (ps_db s) = None" "remembers s S"
    and "ingest drv devices run_id now s = (s', r, err)"
  defines "valid \<equiv> filter (\<lambda>d. validate d = None) devices"
  shows "ig_accepted r = length valid \<and> ig_accepted r + ig_rejected r = length devices \<and>
    ig_errors r = List.map_filter (\<lambda>d. map_option (Pair (hostname d)) (validate d)) devices \<and>
    pending (ps_db s') = None \<and> ps_incidents s' = ps_incidents s \<and> ps_anomalies s' = ps_anomalies s \<and>
    (err = None \<longrightarrow> ig_valid r = valid \<and> remembers s' (S @ valid) \<and>
       (\<exists>rows. committed (ps_db s') = (committed (ps_db s))
          \<lparr>tb_telemetry := tb_telemetry (committed (ps_db s)) @ rows\<rparr> \<and>
          list_all2 (written run_id (rfc3339 now)) rows valid)) \<and>
    (err \<noteq> None \<longrightarrow> ig_valid r = [] \<and> committed (ps_db s') = committed (ps_db s) \<and>
       s' = s\<lparr>ps_db := ps_db s'\<rparr>)"
proof -
  define r0 where "r0 = \<lparr>ig_accepted = length valid,
    ig_rejected = length (filter (\<lambda>d. validate d \<noteq> None) devices),
    ig_errors = List.map_filter (\<lambda>d. map_option (Pair (hostname d)) (validate d)) devices, ig_valid = []\<rparr>"
  have f: "fold ingest_check devices
      (\<lparr>ig_accepted = 0, ig_rejected = 0, ig_errors = [], ig_valid = []\<rparr>, []) = (r0, valid)"
    by (simp add: fold_ingest_check r0_def valid_def)
  obtain db' e where db: "(if valid \<noteq> [] then store_rows drv run_id now valid (ps_db s) else (ps_db s, None))
      = (db', e)" by fastforce
  have law: "pending db' = None \<and> (e \<noteq> None \<longrightarrow> committed db' = committed (ps_db s)) \<and>
    (e = None \<longrightarrow> (\<exists>rows. committed db' = (committed (ps_db s))
       \<lparr>tb_telemetry := tb_telemetry (committed (ps_db s)) @ rows\<rparr> \<and>
       list_all2 (written run_id (rfc3339 now)) rows valid))"
  proof (cases "valid = []")
    case True
    then show ?thesis using db assms(2) by (auto intro!: exI [of _ "[]"])
  next
    case False
    then show ?thesis using sql_laws.store_rows_law [OF assms(1,2)] db by simp
  qed
  have len: "length valid + length (filter (\<lambda>d. validate d \<noteq> None) devices) = length devices"
    unfolding valid_def using sum_length_filter_compl [of "\<lambda>d. validate d = None" devices] by simp
  show ?thesis
  proof (cases e)
    case (Some m)
    then have "s' = s\<lparr>ps_db := db'\<rparr>" "r = r0" "err = Some m"
      using assms(4) by (simp_all add: ingest_def f db)
    then show ?thesis using law Some len by (simp add: r0_def)
  next
    case None
    then have s': "s' = fold append_history valid (s\<lparr>ps_db := db'\<rparr>)" "r = r0\<lparr>ig_valid := valid\<rparr>" "err = None"
      using assms(4) by (simp_all add: ingest_def f db)
    have "remembers (s\<lparr>ps_db := db'\<rparr>) S" using assms(3) by (simp add: remembers_def device_history_def)
    from remembers_fold [OF this] law None len show ?thesis
      by (simp add: s' fold_append_history r0_def)
  qed
qed

text \<open>
  C15: Ingest partitions its batch: every sample is accepted or rejected with its host and the error
  of its validation, in order. Without an error all valid samples are in the telemetry table, in
  order, and in the memory (the last 90 of each host, the newest as the latest); with an error, at
  any statement, neither the tables nor the memory have changed. Incidents and anomalies are not
  touched.
\<close>

theorem ingest_atomic:
  assumes "sql_laws drv committed pending" "pending (ps_db s) = None" "remembers s S"
    and "ingest drv devices run_id now s = (s', r, err)"
  defines "valid \<equiv> filter (\<lambda>d. validate d = None) devices"
  shows "ig_accepted r = length valid \<and> ig_accepted r + ig_rejected r = length devices \<and>
    ig_errors r = List.map_filter (\<lambda>d. map_option (Pair (hostname d)) (validate d)) devices \<and>
    pending (ps_db s') = None \<and> ps_incidents s' = ps_incidents s \<and> ps_anomalies s' = ps_anomalies s \<and>
    (err = None \<longrightarrow> ig_valid r = valid \<and> remembers s' (S @ valid) \<and>
       (\<exists>rows. committed (ps_db s') = (committed (ps_db s))
          \<lparr>tb_telemetry := tb_telemetry (committed (ps_db s)) @ rows\<rparr> \<and>
          list_all2 (written run_id (rfc3339 now)) rows valid)) \<and>
    (err \<noteq> None \<longrightarrow> ig_valid r = [] \<and> committed (ps_db s') = committed (ps_db s) \<and>
       s' = s\<lparr>ps_db := ps_db s'\<rparr>)"
  unfolding valid_def by (rule ingest_law [OF assms(1-4)])

section \<open>Pruning\<close>

lemma prune_exact_law:
  assumes "sql_laws drv committed pending" "pending (ps_db s) = None"
    and "prune drv now s = (s', res)" "in_int64 (- ps_retention s)"
  defines "rows \<equiv> tb_telemetry (committed (ps_db s))"
  assumes "\<forall>r \<in> set rows. year_ok (observed r) \<and> tr_observed_at r = rfc3339 (observed r)"
    and "year_ok (now - ps_retention s)"
  shows "s' = s\<lparr>ps_db := ps_db s'\<rparr> \<and> pending (ps_db s') = None \<and>
    (\<forall>e. res = Inl e \<longrightarrow> committed (ps_db s') = committed (ps_db s)) \<and>
    (\<forall>n. res = Inr n \<longrightarrow> committed (ps_db s') = (committed (ps_db s))
        \<lparr>tb_telemetry := filter (\<lambda>r. unix (now - ps_retention s) \<le> unix (observed r)) rows\<rparr> \<and>
      n + length (tb_telemetry (committed (ps_db s'))) = length rows)"
proof -
  have cut: "retention_cutoff now s = now - ps_retention s"
    using assms(4) by (simp add: retention_cutoff_def time_add_def)
  let ?st = "DeleteTelemetry (rfc3339 (now - ps_retention s))"
  obtain db' r where x: "sd_exec drv ?st (ps_db s) = (db', r)" by fastforce
  note law = sql_laws.exec_law [OF assms(1,2) x]
  have old: "tr_observed_at r < rfc3339 (now - ps_retention s) \<longleftrightarrow>
      unix (observed r) < unix (now - ps_retention s)" if "r \<in> set rows" for r
    using assms(6,7) that by (simp add: rfc3339_less_iff)
  then have keep: "filter (\<lambda>r. \<not> tr_observed_at r < rfc3339 (now - ps_retention s)) rows =
      filter (\<lambda>r. unix (now - ps_retention s) \<le> unix (observed r)) rows"
    by (intro filter_cong) (auto simp: not_less)
  have len: "length (filter (\<lambda>r. tr_observed_at r < rfc3339 (now - ps_retention s)) rows) +
      length (filter (\<lambda>r. \<not> tr_observed_at r < rfc3339 (now - ps_retention s)) rows) = length rows"
    by (rule filter_eq_length_le)
  show ?thesis
  proof (cases r)
    case (Inl e)
    then show ?thesis using assms(3) x law by (auto simp: prune_def cut)
  next
    case (Inr n)
    have s': "s' = s\<lparr>ps_db := db'\<rparr>" "res = Inr n" using assms(3) x Inr by (simp_all add: prune_def cut)
    show ?thesis using law Inr len keep by (simp add: s' rows_def)
  qed
qed

text \<open>
  C16: If every stored timestamp was written by the program (years 0 to 9999), pruning at \<open>now\<close>
  removes exactly the rows observed in a second before \<open>now - retention\<close> and reports their number;
  the other tables and the memory are untouched, and a failed statement removes nothing.
\<close>

theorem prune_exact:
  assumes "sql_laws drv committed pending" "pending (ps_db s) = None"
    and "prune drv now s = (s', res)" "in_int64 (- ps_retention s)"
  defines "rows \<equiv> tb_telemetry (committed (ps_db s))"
  assumes "\<forall>r \<in> set rows. year_ok (observed r) \<and> tr_observed_at r = rfc3339 (observed r)"
    and "year_ok (now - ps_retention s)"
  shows "s' = s\<lparr>ps_db := ps_db s'\<rparr> \<and> pending (ps_db s') = None \<and>
    (\<forall>e. res = Inl e \<longrightarrow> committed (ps_db s') = committed (ps_db s)) \<and>
    (\<forall>n. res = Inr n \<longrightarrow> committed (ps_db s') = (committed (ps_db s))
        \<lparr>tb_telemetry := filter (\<lambda>r. unix (now - ps_retention s) \<le> unix (observed r)) rows\<rparr> \<and>
      n + length (tb_telemetry (committed (ps_db s'))) = length rows)"
  unfolding rows_def by (rule prune_exact_law [OF assms(1-4) _ assms(7)]) (use assms(6) in \<open>simp add: rows_def\<close>)

section \<open>The incident tables mirror the incident store\<close>

definition mirrors :: "tables \<Rightarrow> incident_store \<Rightarrow> bool" where
  "mirrors t m \<longleftrightarrow>
     distinct (map ir_id (tb_incidents t)) \<and> set (tb_incidents t) = incident_row_of ` ran (is_incidents m) \<and>
     (\<forall>iid. filter (\<lambda>r. dr_incident_id r = iid) (tb_decisions t) = map decision_row_of (inc_decisions m iid))"

lemma ir_id_row [simp]: "ir_id (incident_row_of i) = in_id i"
  by (simp add: incident_row_of_def)

lemma mirrors_insert:
  assumes "mirrors t m" "is_incidents m (in_id i) = None" "linked m"
    and "is_incidents m' = (is_incidents m)(in_id i \<mapsto> i)" "is_decisions m' = is_decisions m"
  shows "mirrors (fst (stmt_effect (InsertIncident (incident_row_of i)) t)) m'"
proof -
  have "in_id i \<notin> in_id ` ran (is_incidents m)"
    using linkedD1 [OF assms(3)] assms(2) by (auto simp: ran_def)
  moreover have "ran (is_incidents m') = insert i (ran (is_incidents m))"
    using assms(2,4) by simp
  moreover have "inc_decisions m' iid = inc_decisions m iid" for iid unfolding inc_decisions_def assms(5) ..
  ultimately show ?thesis using assms(1) by (auto simp: mirrors_def image_iff)
qed

lemma ran_upd_change:
  assumes "m k = Some e" "\<And>j. m j = Some e \<Longrightarrow> j = k"
  shows "ran (m(k \<mapsto> u)) = insert u (ran m - {e})"
proof (intro equalityI subsetI)
  fix x assume "x \<in> ran (m(k \<mapsto> u))"
  then obtain j where "(m(k \<mapsto> u)) j = Some x" by (auto simp: ran_def)
  then show "x \<in> insert u (ran m - {e})" using assms(2) [of j] by (auto simp: ran_def split: if_splits)
next
  fix x assume "x \<in> insert u (ran m - {e})"
  then show "x \<in> ran (m(k \<mapsto> u))"
  proof
    assume "x = u" then show ?thesis by (auto simp: ran_def)
  next
    assume "x \<in> ran m - {e}"
    then obtain j where j: "m j = Some x" "x \<noteq> e" by (auto simp: ran_def)
    then have "(m(k \<mapsto> u)) j = Some x" using assms(1) by auto
    then show ?thesis by (rule ranI)
  qed
qed

lemma mirrors_decide:
  assumes "mirrors t m" "linked m" "is_incidents m iid = Some e"
    and "u = e\<lparr>in_status := status, in_updated_at := now\<rparr>"
    and "is_incidents m' = (is_incidents m)(iid \<mapsto> u)" "de_incident_id d = iid"
    and "\<forall>x. inc_decisions m' x = (if x = iid then inc_decisions m iid @ [d] else inc_decisions m x)"
  shows "mirrors (fst (stmt_effect (InsertDecision (decision_row_of d))
    (fst (stmt_effect (UpdateIncident (in_status u) (rfc3339 (in_updated_at u)) (in_id u)) t)))) m'"
proof -
  let ?upd = "\<lambda>r. if ir_id r = in_id u then r\<lparr>ir_status := in_status u, ir_updated_at := rfc3339 (in_updated_at u)\<rparr> else r"
  have ids: "is_incidents m j = Some i \<Longrightarrow> in_id i = j" for i j using linkedD1 [OF assms(2)] by blast
  have iid: "in_id u = iid" using ids [OF assms(3)] assms(4) by simp
  have ran': "ran (is_incidents m') = insert u (ran (is_incidents m) - {e})"
    unfolding assms(5) by (rule ran_upd_change [of "is_incidents m" iid e, OF assms(3)])
      (use ids assms(3) in metis)
  have upd_e: "?upd (incident_row_of e) = incident_row_of u"
    using ids [OF assms(3)] iid by (simp add: incident_row_of_def assms(4))
  have same: "?upd (incident_row_of i) = incident_row_of i" if "i \<in> ran (is_incidents m) - {e}" for i
  proof -
    from that obtain j where j: "is_incidents m j = Some i" "i \<noteq> e" by (auto simp: ran_def)
    then have "j \<noteq> iid" using assms(3) by auto
    then show ?thesis using ids [OF j(1)] iid by simp
  qed
  have img: "?upd ` incident_row_of ` ran (is_incidents m) = incident_row_of ` ran (is_incidents m')"
  proof -
    have "ran (is_incidents m) = insert e (ran (is_incidents m) - {e})" using ranI [of "is_incidents m" iid e] assms(3) by blast
    then have "?upd ` incident_row_of ` ran (is_incidents m) =
        ?upd ` incident_row_of ` insert e (ran (is_incidents m) - {e})" by metis
    also have "\<dots> = insert (?upd (incident_row_of e))
        ((\<lambda>i. ?upd (incident_row_of i)) ` (ran (is_incidents m) - {e}))"
      by (simp only: image_insert image_image)
    also have "(\<lambda>i. ?upd (incident_row_of i)) ` (ran (is_incidents m) - {e}) =
        incident_row_of ` (ran (is_incidents m) - {e})"
      by (rule image_cong [OF refl]) (rule same)
    finally show ?thesis using upd_e by (simp only: ran' image_insert)
  qed
  define t' where "t' = fst (stmt_effect (InsertDecision (decision_row_of d))
    (fst (stmt_effect (UpdateIncident (in_status u) (rfc3339 (in_updated_at u)) (in_id u)) t)))"
  have t': "tb_incidents t' = map ?upd (tb_incidents t)" "tb_decisions t' = tb_decisions t @ [decision_row_of d]"
    by (simp_all add: t'_def)
  have "map ir_id (map ?upd (tb_incidents t)) = map ir_id (tb_incidents t)"
    by (induction "tb_incidents t") auto
  moreover have "set (map ?upd (tb_incidents t)) = incident_row_of ` ran (is_incidents m')"
    using assms(1) img by (simp only: mirrors_def set_map)
  moreover have "filter (\<lambda>r. dr_incident_id r = x) (tb_decisions t @ [decision_row_of d]) =
      map decision_row_of (inc_decisions m' x)" for x
    using assms(1,6,7) by (simp add: mirrors_def decision_row_of_def)
  ultimately show ?thesis
    using assms(1) unfolding t'_def [symmetric] mirrors_def t' by (simp only: simp_thms)
qed

context sql_laws
begin

lemma store_decision_law:
  assumes "pending db = None" "store_decision drv inc d db = (db', e)"
  shows "pending db' = None \<and> (e \<noteq> None \<longrightarrow> committed db' = committed db) \<and>
    (e = None \<longrightarrow> committed db' = fst (stmt_effect (InsertDecision (decision_row_of d))
      (fst (stmt_effect (UpdateIncident (in_status inc) (rfc3339 (in_updated_at inc)) (in_id inc))
        (committed db)))))"
proof -
  let ?U = "UpdateIncident (in_status inc) (rfc3339 (in_updated_at inc)) (in_id inc)"
  let ?D = "InsertDecision (decision_row_of d)"
  obtain db1 e1 where b: "sd_begin drv db = (db1, e1)" by fastforce
  note bl = begin_law [OF assms(1) b]
  show ?thesis
  proof (cases e1)
    case (Some m)
    then show ?thesis using assms(2) b bl by (auto simp: store_decision_def)
  next
    case None
    then have p1: "pending db1 = Some (committed db)" "committed db1 = committed db" using bl by simp_all
    obtain db2 r2 where u: "sd_exec drv ?U db1 = (db2, r2)" by fastforce
    note ul = exec_tx_law [OF p1(1) u]
    show ?thesis
    proof (cases r2)
      case (Inl m)
      then have "pending db2 = Some (committed db)" "committed db2 = committed db" using ul p1 by simp_all
      from rollback_law [OF this(1)] this(2) show ?thesis
        using assms(2) b None u Inl by (auto simp: store_decision_def)
    next
      case (Inr n)
      then have p2: "pending db2 = Some (fst (stmt_effect ?U (committed db)))" "committed db2 = committed db"
        using ul p1 by simp_all
      obtain db3 r3 where x: "sd_exec drv ?D db2 = (db3, r3)" by fastforce
      note xl = exec_tx_law [OF p2(1) x]
      show ?thesis
      proof (cases r3)
        case (Inl m)
        then have "pending db3 = Some (fst (stmt_effect ?U (committed db)))" "committed db3 = committed db"
          using xl p2 by simp_all
        from rollback_law [OF this(1)] this(2) show ?thesis
          using assms(2) b None u Inr x Inl by (auto simp: store_decision_def)
      next
        case (Inr n3)
        then have p3: "pending db3 = Some (fst (stmt_effect ?D (fst (stmt_effect ?U (committed db)))))"
            "committed db3 = committed db"
          using xl p2 by simp_all
        obtain db4 e4 where c: "sd_commit drv db3 = (db4, e4)" by fastforce
        note cl = commit_law [OF p3(1) c]
        show ?thesis
          using assms(2) b None u \<open>r2 = Inr n\<close> x Inr c cl p3(2)
          by (cases e4) (auto simp: store_decision_def)
      qed
    qed
  qed
qed

lemma upsert_incident_mirrors:
  assumes "pending (ps_db s) = None" "store_ok (ps_incidents s)" "mirrors (committed (ps_db s)) (ps_incidents s)"
    and "fresh_id c now (ps_incidents s)" "upsert_incident drv c now s = (s', inc, created, None)"
  shows "pending (ps_db s') = None \<and> store_ok (ps_incidents s') \<and>
    mirrors (committed (ps_db s')) (ps_incidents s')"
proof -
  obtain m i b where u: "inc_upsert c now (ps_incidents s) = (m, i, b)" by (cases "inc_upsert c now (ps_incidents s)")
  have ok: "store_ok m" by (rule store_ok_upsert [OF assms(2,4) u])
  show ?thesis
  proof (cases b)
    case False
    then have "m = ps_incidents s" using u by (cases rule: inc_upsert_cases [of "ps_incidents s" c now]) auto
    then show ?thesis using assms u False by (auto simp: upsert_incident_def)
  next
    case True
    note nu = inc_upsert_True [OF u [unfolded eqTrueI [OF True]]]
    obtain db' r where x: "sd_exec drv (InsertIncident (incident_row_of i)) (ps_db s) = (db', r)" by fastforce
    note law = exec_law [OF assms(1) x]
    have s': "ps_db s' = db'" "ps_incidents s' = m" "\<exists>n. r = Inr n"
      using assms(5) u True x by (cases r; auto simp: upsert_incident_def Let_def)+
    have "is_incidents (ps_incidents s) (in_id i) = None" using assms(4) nu(2) by (simp add: fresh_id_def)
    moreover have "linked (ps_incidents s)" using assms(2) by (simp add: store_ok_def)
    ultimately have "mirrors (fst (stmt_effect (InsertIncident (incident_row_of i)) (committed (ps_db s)))) m"
      using mirrors_insert [OF assms(3) _ _ nu(3) nu(5)] by blast
    then show ?thesis using s' law ok by auto
  qed
qed

lemma decide_incident_mirrors:
  assumes "pending (ps_db s) = None" "store_ok (ps_incidents s)" "mirrors (committed (ps_db s)) (ps_incidents s)"
    and "status \<noteq> IncActive" "decide_incident drv iid status actor now s = (s', res, err)"
    and "err = None \<or> res = None"
  shows "pending (ps_db s') = None \<and> store_ok (ps_incidents s') \<and>
    mirrors (committed (ps_db s')) (ps_incidents s')"
proof -
  obtain m r where d: "inc_decide iid status actor now (ps_incidents s) = (m, r)"
    by (cases "inc_decide iid status actor now (ps_incidents s)")
  have ok: "store_ok m" by (rule store_ok_decide [OF assms(2,4) d])
  show ?thesis
  proof (cases r)
    case (Inl e)
    then have "m = ps_incidents s" using d by (auto simp: inc_decide_def Let_def split: option.splits)
    then show ?thesis using assms d Inl by (auto simp: decide_incident_def)
  next
    case (Inr uw)
    obtain u w where uw: "uw = (u, w)" by (cases uw)
    from d [unfolded Inr uw] obtain e where e: "is_incidents (ps_incidents s) iid = Some e"
        "u = e\<lparr>in_status := status, in_updated_at := now\<rparr>"
        "is_incidents m = (is_incidents (ps_incidents s))(iid \<mapsto> u)"
        "\<forall>x. inc_decisions m x = (if x = iid then inc_decisions (ps_incidents s) iid @
          [\<lparr>de_incident_id = iid, de_status = status, de_actor = actor, de_decided_at = now\<rparr>]
          else inc_decisions (ps_incidents s) x)"
      by (rule inc_decide_Inr)
    have L: "linked (ps_incidents s)" using assms(2) by (simp add: store_ok_def)
    have uid: "in_id u = iid" using linkedD1 [OF L e(1)] e(2) by simp
    let ?d = "\<lparr>de_incident_id = iid, de_status = status, de_actor = actor, de_decided_at = now\<rparr>"
    obtain db' er where x: "store_decision drv u ?d (ps_db s) = (db', er)" by fastforce
    note law = store_decision_law [OF assms(1) x]
    have s': "ps_db s' = db'" "ps_incidents s' = m" "er = None"
      using assms(5,6) d Inr uw x uid by (auto simp: decide_incident_def)
    have "mirrors (committed db') m"
      using mirrors_decide [OF assms(3) L e(1,2,3) _ e(4)] law s'(3) by simp
    then show ?thesis using s' law ok by simp
  qed
qed

end

section \<open>Runs of the durable store\<close>

text \<open>The operations of a running server; an upsert or a decision is one whose statements succeeded
  (a decision on an unknown incident has none), everything else may fail.\<close>

inductive durable_run ::
  "'db sql_driver \<Rightarrow> device_telemetry list \<Rightarrow> 'db pstore \<Rightarrow> device_telemetry list \<Rightarrow> 'db pstore \<Rightarrow> bool"
  for drv :: "'db sql_driver" and S0 :: "device_telemetry list" and s0 :: "'db pstore" where
  run_start: "durable_run drv S0 s0 S0 s0"
| run_ingest: "durable_run drv S0 s0 S s \<Longrightarrow> ingest drv devices run_id now s = (s', r, err) \<Longrightarrow>
    durable_run drv S0 s0 (S @ ig_valid r) s'"
| run_record: "durable_run drv S0 s0 S s \<Longrightarrow> durable_run drv S0 s0 S (record_anomalies new s)"
| run_prune: "durable_run drv S0 s0 S s \<Longrightarrow> prune drv now s = (s', res) \<Longrightarrow> durable_run drv S0 s0 S s'"
| run_ping: "durable_run drv S0 s0 S s \<Longrightarrow> ping drv s = (s', e) \<Longrightarrow> durable_run drv S0 s0 S s'"
| run_upsert: "durable_run drv S0 s0 S s \<Longrightarrow> fresh_id c now (ps_incidents s) \<Longrightarrow>
    upsert_incident drv c now s = (s', inc, created, None) \<Longrightarrow> durable_run drv S0 s0 S s'"
| run_decide: "durable_run drv S0 s0 S s \<Longrightarrow> status \<noteq> IncActive \<Longrightarrow>
    decide_incident drv iid status actor now s = (s', result, err) \<Longrightarrow> err = None \<or> result = None \<Longrightarrow>
    durable_run drv S0 s0 S s'"

definition durable_ok :: "('db \<Rightarrow> tables) \<Rightarrow> ('db \<Rightarrow> tables option) \<Rightarrow> device_telemetry list \<Rightarrow> 'db pstore \<Rightarrow> bool" where
  "durable_ok committed pending S s \<longleftrightarrow>
     pending (ps_db s) = None \<and> remembers s S \<and> store_ok (ps_incidents s) \<and>
     mirrors (committed (ps_db s)) (ps_incidents s)"

lemma remembers_ps_db [simp]: "remembers (s\<lparr>ps_db := db\<rparr>) S \<longleftrightarrow> remembers s S"
  by (simp add: remembers_def device_history_def)

lemma remembers_ps_incidents [simp]: "remembers (s\<lparr>ps_incidents := m\<rparr>) S \<longleftrightarrow> remembers s S"
  by (simp add: remembers_def device_history_def)

lemma upsert_incident_memory:
  "upsert_incident drv c now s = (s', inc, created, err) \<Longrightarrow> \<exists>m db. s' = s\<lparr>ps_incidents := m, ps_db := db\<rparr>"
  by (auto simp: upsert_incident_def Let_def split: prod.splits if_splits sum.splits)
    (metis pstore.surjective pstore.update_convs(1))

lemma decide_incident_memory:
  "decide_incident drv iid status actor now s = (s', res, err) \<Longrightarrow> \<exists>m db. s' = s\<lparr>ps_incidents := m, ps_db := db\<rparr>"
  by (auto simp: decide_incident_def Let_def split: prod.splits sum.splits)
    (metis pstore.surjective pstore.update_convs(1))

lemma mirrors_telemetry [simp]: "mirrors (t\<lparr>tb_telemetry := rows\<rparr>) m \<longleftrightarrow> mirrors t m"
  by (simp add: mirrors_def)

lemma prune_keeps:
  assumes "sql_laws drv committed pending" "pending (ps_db s) = None" "prune drv now s = (s', res)"
  shows "s' = s\<lparr>ps_db := ps_db s'\<rparr> \<and> pending (ps_db s') = None \<and>
    (\<exists>rows. committed (ps_db s') = (committed (ps_db s))\<lparr>tb_telemetry := rows\<rparr>)"
proof -
  obtain db' r where x: "sd_exec drv (DeleteTelemetry (rfc3339 (retention_cutoff now s))) (ps_db s) = (db', r)"
    by fastforce
  note law = sql_laws.exec_law [OF assms(1,2) x]
  show ?thesis
  proof (cases r)
    case (Inl e)
    then have "s' = s\<lparr>ps_db := db'\<rparr>" "pending db' = None" "committed db' = committed (ps_db s)"
      using assms(3) x law by (simp_all add: prune_def)
    moreover have "committed (ps_db s) =
        (committed (ps_db s))\<lparr>tb_telemetry := tb_telemetry (committed (ps_db s))\<rparr>" by simp
    ultimately show ?thesis by (metis pstore.select_convs(1) pstore.surjective pstore.update_convs(1))
  next
    case (Inr n)
    then show ?thesis using assms(3) x law by (auto simp: prune_def)
  qed
qed

lemma durable_run_ok:
  assumes laws: "sql_laws drv committed pending" and "durable_run drv S0 s0 S s"
    and "durable_ok committed pending S0 s0"
  shows "durable_ok committed pending S s"
  using assms(2,3)
proof (induction rule: durable_run.induct)
  case (run_ingest S s devices run_id now s' r err)
  then have s: "durable_ok committed pending S s" by simp
  note law = ingest_law [OF laws _ _ run_ingest.hyps(2)]
  show ?case
  proof (cases err)
    case None
    from s have "pending (ps_db s) = None" "remembers s S" by (simp_all add: durable_ok_def)
    note l = law [OF this]
    with None obtain rows where c: "committed (ps_db s') =
        (committed (ps_db s))\<lparr>tb_telemetry := tb_telemetry (committed (ps_db s)) @ rows\<rparr>" by auto
    then show ?thesis using l None s by (simp add: durable_ok_def)
  next
    case (Some e)
    have "s' = s\<lparr>ps_db := ps_db s'\<rparr>" "ig_valid r = []" "committed (ps_db s') = committed (ps_db s)"
        "pending (ps_db s') = None"
      using ingest_law [OF laws _ _ run_ingest.hyps(2)] s Some by (auto simp: durable_ok_def)
    then show ?thesis using s by (metis append_Nil2 durable_ok_def pstore.ext_inject pstore.surjective
          pstore.update_convs(1) remembers_ps_db)
  qed
next
  case (run_record S s new)
  then show ?case by (simp add: durable_ok_def record_anomalies_def remembers_def device_history_def Let_def)
next
  case (run_prune S s now s' res)
  from prune_keeps [OF laws _ run_prune.hyps(2)] run_prune(3,4) obtain rows where
      p: "s' = s\<lparr>ps_db := ps_db s'\<rparr>" "pending (ps_db s') = None"
      "committed (ps_db s') = (committed (ps_db s))\<lparr>tb_telemetry := rows\<rparr>" by (auto simp: durable_ok_def)
  have "ps_incidents s' = ps_incidents s" by (subst p(1)) simp
  moreover have "remembers s' S \<longleftrightarrow> remembers s S" by (subst p(1)) simp
  ultimately show ?case using run_prune(3,4) p(2,3) by (simp add: durable_ok_def)
next
  case (run_ping S s s' e)
  then obtain db' where "sd_ping drv (ps_db s) = (db', e)" "s' = s\<lparr>ps_db := db'\<rparr>"
    by (auto simp: ping_def split: prod.splits)
  with sql_laws.ping_law [OF laws this(1)] run_ping(3,4) show ?case by (simp add: durable_ok_def)
next
  case (run_upsert S s c now s' inc created)
  then have s: "durable_ok committed pending S s" by simp
  have "remembers s' S" using upsert_incident_memory [OF run_upsert.hyps(3)] s by (auto simp: durable_ok_def)
  with sql_laws.upsert_incident_mirrors [OF laws _ _ _ run_upsert.hyps(2,3)] s show ?case
    by (simp add: durable_ok_def)
next
  case (run_decide S s status iid actor now s' result err)
  then have s: "durable_ok committed pending S s" by simp
  have "remembers s' S" using decide_incident_memory [OF run_decide.hyps(3)] s by (auto simp: durable_ok_def)
  with sql_laws.decide_incident_mirrors [OF laws _ _ _ run_decide.hyps(2,3,4)] s show ?case
    by (simp add: durable_ok_def)
qed simp

lemma mirrors_empty: "mirrors empty_tables new_incident_store"
  by (simp add: mirrors_def empty_tables_def new_incident_store_def inc_decisions_def)

lemma durable_ok_initial:
  "pending db = None \<Longrightarrow> committed db = empty_tables \<Longrightarrow>
   durable_ok committed pending [] (initial_pstore db retention)"
  using mirrors_empty
  by (simp add: durable_ok_def initial_pstore_def remembers_def device_history_def)

text \<open>
  C12: Along every run of the durable store from an empty database whose incident statements succeed
  (ingests, prunes and pings may fail), the incident and decision tables are exactly the rows of the
  incident store, the store keeps its invariant, no transaction is left open, and the memory holds
  the last 90 accepted samples of every host with the newest as the latest.
\<close>

theorem durable_mirror:
  assumes "sql_laws drv committed pending" "pending db = None" "committed db = empty_tables"
    and "durable_run drv [] (initial_pstore db retention) S s"
  shows "mirrors (committed (ps_db s)) (ps_incidents s) \<and> store_ok (ps_incidents s) \<and>
    pending (ps_db s) = None \<and>
    device_history s h = take_last 90 (filter (\<lambda>d. hostname d = h) S) \<and>
    ps_latest s h = (if filter (\<lambda>d. hostname d = h) S = [] then None
      else Some (last (filter (\<lambda>d. hostname d = h) S)))"
  using durable_run_ok [OF assms(1,4)] durable_ok_initial [of pending db committed retention] assms(2,3)
  by (simp add: durable_ok_def remembers_def)

text \<open>
  C17: When the insert of a new incident fails, the incident is nevertheless active in memory: the
  tables do not have it, and while it stays active no later detection of the fault stores it, so a
  restart loses it.
\<close>

theorem failed_insert_not_retried:
  assumes "sql_laws drv committed pending" "pending (ps_db s) = None" "store_ok (ps_incidents s)"
    and "fresh_id c now (ps_incidents s)"
    and "upsert_incident drv c now s = (s1, inc, True, Some e)"
    and "cd_occurrence_key c' = cd_occurrence_key c"
  shows "is_incidents (ps_incidents s1) (in_id inc) = Some inc \<and> in_status inc = IncActive \<and>
    committed (ps_db s1) = committed (ps_db s) \<and>
    upsert_incident drv c' later s1 = (s1, inc, False, None)"
proof -
  obtain m i b where u: "inc_upsert c now (ps_incidents s) = (m, i, b)" by (cases "inc_upsert c now (ps_incidents s)")
  have b: "b" using assms(5) u by (auto simp: upsert_incident_def Let_def split: if_splits)
  note nu = inc_upsert_True [OF u [unfolded eqTrueI [OF b]]]
  obtain db' r where x: "sd_exec drv (InsertIncident (incident_row_of i)) (ps_db s) = (db', r)" by fastforce
  have s1: "s1 = s\<lparr>ps_incidents := m, ps_db := db'\<rparr>" "inc = i" "\<exists>e. r = Inl e"
    using assms(5) u b x by (cases r; auto simp: upsert_incident_def Let_def)+
  have ok: "store_ok m" by (rule store_ok_upsert [OF assms(3,4) u])
  have act: "in_status i = IncActive" "in_occurrence_key i = cd_occurrence_key c'"
    unfolding nu(2) using assms(6) by simp_all
  have "is_incidents m (in_id i) = Some i" by (simp add: nu(3))
  then have "active_last m (inc_history m (cd_occurrence_key c')) = Some i"
    using active_last_iff [of m "cd_occurrence_key c'" i] ok act by (auto simp: store_ok_def)
  then have "inc_upsert c' later m = (m, i, False)"
    by (cases rule: inc_upsert_cases [of m c' later]) auto
  then show ?thesis
    using s1 act nu(3) sql_laws.exec_law [OF assms(1,2) x]
    by (auto simp: upsert_incident_def Let_def)
qed

section \<open>Restart\<close>

definition trunc_incident :: "incident \<Rightarrow> incident" where
  "trunc_incident i = i\<lparr>in_created_at := trunc_sec (in_created_at i), in_updated_at := trunc_sec (in_updated_at i)\<rparr>"

definition trunc_decision :: "decision \<Rightarrow> decision" where
  "trunc_decision d = d\<lparr>de_decided_at := trunc_sec (de_decided_at d)\<rparr>"

text \<open>The instants of the store lie in the years 0 to 9999, and the decisions on one incident fall
  into different seconds, in order.\<close>

definition times_ok :: "incident_store \<Rightarrow> bool" where
  "times_ok m \<longleftrightarrow>
     (\<forall>i \<in> ran (is_incidents m). year_ok (in_created_at i) \<and> year_ok (in_updated_at i)) \<and>
     (\<forall>iid. (\<forall>d \<in> set (inc_decisions m iid). year_ok (de_decided_at d)) \<and>
        sorted_wrt (<) (map (\<lambda>d. unix (de_decided_at d)) (inc_decisions m iid)))"

lemma incident_of_row_of:
  "year_ok (in_created_at i) \<Longrightarrow> year_ok (in_updated_at i) \<Longrightarrow>
   incident_of_row (incident_row_of i) = Inr (trunc_incident i)"
  by (simp add: incident_of_row_def incident_row_of_def parse_rfc3339_rfc3339 trunc_incident_def)

lemma incidents_of_rows_Inr:
  "\<forall>r \<in> set rows. incident_of_row r = Inr (g r) \<Longrightarrow> incidents_of_rows rows = Inr (map g rows)"
  by (induction rows) auto

lemma decisions_of_rows_Inr:
  assumes "\<forall>r \<in> set rows. \<exists>t. parse_rfc3339 (dr_decided_at r) = Inr t"
  shows "\<exists>ds'. decisions_of_rows rows ds = Inr ds' \<and>
    (\<forall>iid. lookup_list ds' iid = lookup_list ds iid @
       map (\<lambda>r. \<lparr>de_incident_id = dr_incident_id r, de_status = dr_status r, de_actor = dr_actor r,
              de_decided_at = projr (parse_rfc3339 (dr_decided_at r))\<rparr>)
         (filter (\<lambda>r. dr_incident_id r = iid) rows))"
  using assms
proof (induction rows arbitrary: ds)
  case (Cons r rows)
  then obtain t where t: "parse_rfc3339 (dr_decided_at r) = Inr t" by auto
  let ?ds = "ds(dr_incident_id r \<mapsto> lookup_list ds (dr_incident_id r) @
      [\<lparr>de_incident_id = dr_incident_id r, de_status = dr_status r, de_actor = dr_actor r, de_decided_at = t\<rparr>])"
  let ?f = "\<lambda>r. \<lparr>de_incident_id = dr_incident_id r, de_status = dr_status r, de_actor = dr_actor r,
              de_decided_at = projr (parse_rfc3339 (dr_decided_at r))\<rparr>"
  have "\<forall>r \<in> set rows. \<exists>t. parse_rfc3339 (dr_decided_at r) = Inr t" using Cons.prems by simp
  from Cons.IH [OF this, of ?ds] obtain ds' where ds': "decisions_of_rows rows ?ds = Inr ds'"
      "\<forall>iid. lookup_list ds' iid = lookup_list ?ds iid @ map ?f (filter (\<lambda>r. dr_incident_id r = iid) rows)"
    by (elim exE conjE)
  have "lookup_list ds' iid = lookup_list ds iid @ map ?f (filter (\<lambda>r. dr_incident_id r = iid) (r # rows))" for iid
    using ds'(2) t by (cases "dr_incident_id r = iid") auto
  then show ?case using ds'(1) t by (intro exI [of _ ds']) simp
qed simp

text \<open>The incidents and decisions that \<open>restore\<close> reads from tables mirroring a store.\<close>

lemma restore_incident_rows:
  assumes "mirrors t m" "store_ok m" "times_ok m"
    and "mset rows = mset (tb_incidents t)"
    and "sorted (map (\<lambda>x. (ir_occurrence_key x, ir_occurrence_sequence x)) rows)"
  obtains all where "incidents_of_rows rows = Inr all"
    "is_incidents (inc_restore all ds new_incident_store) = map_option trunc_incident \<circ> is_incidents m"
    "\<And>k. inc_history (inc_restore all ds new_incident_store) k = inc_history m k"
    "is_decisions (inc_restore all ds new_incident_store) = ds"
proof -
  define g where "g r = projr (incident_of_row r)" for r
  define m' where "m' = m\<lparr>is_incidents := map_option trunc_incident \<circ> is_incidents m\<rparr>"
  have L: "linked m" using assms(2) by (simp add: store_ok_def)
  have m': "is_incidents m' = map_option trunc_incident \<circ> is_incidents m"
      "\<And>k. inc_history m' k = inc_history m k"
    by (simp_all add: m'_def inc_history_def)
  have tr: "in_id (trunc_incident i) = in_id i" "in_occurrence_key (trunc_incident i) = in_occurrence_key i"
      "in_occurrence_sequence (trunc_incident i) = in_occurrence_sequence i" for i
    by (simp_all add: trunc_incident_def)
  have L': "linked m'"
    unfolding linked_def m'
  proof (intro conjI allI impI)
    fix iid i assume "(map_option trunc_incident \<circ> is_incidents m) iid = Some i"
    then obtain j where "is_incidents m iid = Some j" "i = trunc_incident j" by auto
    then show "in_id i = iid" "iid \<in> set (inc_history m (in_occurrence_key i))"
      using linkedD1 [OF L] by (auto simp: tr)
  next
    fix k i assume "i < length (inc_history m k)"
    from linkedD2 [OF L this] show "\<exists>inc. (map_option trunc_incident \<circ> is_incidents m) (inc_history m k ! i) =
        Some inc \<and> in_occurrence_key inc = k \<and> in_occurrence_sequence inc = int i + 1"
      by (auto simp: tr)
  qed
  have set: "set rows = incident_row_of ` ran (is_incidents m)"
    using mset_eq_setD [OF assms(4)] assms(1) by (simp add: mirrors_def)
  have conv: "incident_of_row (incident_row_of i) = Inr (trunc_incident i)" if "i \<in> ran (is_incidents m)" for i
    using assms(3) that by (intro incident_of_row_of) (auto simp: times_ok_def)
  have "\<forall>r \<in> set rows. incident_of_row r = Inr (g r)" unfolding set using conv by (auto simp: g_def)
  from incidents_of_rows_Inr [OF this] have all: "incidents_of_rows rows = Inr (map g rows)" .
  have keys: "in_id (g r) = ir_id r \<and> in_occurrence_key (g r) = ir_occurrence_key r \<and>
      in_occurrence_sequence (g r) = ir_occurrence_sequence r" if "r \<in> set rows" for r
    using that conv unfolding set by (auto simp: g_def trunc_incident_def incident_row_of_def)
  have "distinct (map ir_id rows)"
    using assms(1) mset_eq_imp_distinct_iff [of "map ir_id rows" "map ir_id (tb_incidents t)"] assms(4)
    by (simp add: mirrors_def)
  then have "distinct (map (in_id \<circ> g) rows)" using keys by (auto simp: distinct_map inj_on_def)
  then have d: "distinct (map g rows)" by (auto simp: distinct_map intro: inj_on_imageI2)
  have "set (map g rows) = trunc_incident ` ran (is_incidents m)"
    unfolding set_map set image_image using conv by (auto simp: g_def image_iff)
  also have "\<dots> = ran (is_incidents m')" by (force simp: m'_def ran_def image_iff)
  finally have s: "set (map g rows) = ran (is_incidents m')" .
  have sorted: "sorted (map in_occurrence_sequence (filter (\<lambda>i. in_occurrence_key i = k) (map g rows)))" for k
  proof -
    have "sorted_wrt (\<lambda>x y. (ir_occurrence_key x, ir_occurrence_sequence x) \<le>
        (ir_occurrence_key y, ir_occurrence_sequence y)) rows" using assms(5) by (simp add: sorted_map)
    then have "sorted_wrt (\<lambda>x y. (in_occurrence_key (g x), in_occurrence_sequence (g x)) \<le>
        (in_occurrence_key (g y), in_occurrence_sequence (g y))) rows"
      by (rule sorted_wrt_mono_rel [rotated]) (use keys in auto)
    then have "sorted_wrt (\<lambda>x y. (in_occurrence_key x, in_occurrence_sequence x) \<le>
        (in_occurrence_key y, in_occurrence_sequence y)) (map g rows)" by (simp add: sorted_wrt_map)
    from sorted_wrt_filter [OF this, of "\<lambda>i. in_occurrence_key i = k"]
    show ?thesis
      unfolding sorted_map by (rule sorted_wrt_mono_rel [rotated]) (auto simp: less_eq_prod_simp)
  qed
  then have sorted': "\<forall>k. sorted (map in_occurrence_sequence (filter (\<lambda>i. in_occurrence_key i = k) (map g rows)))" ..
  note r = restore_law [OF L' d s sorted', of ds]
  show thesis
    by (rule that [OF all]) (use r in \<open>simp_all add: m'_def inc_history_def\<close>)
qed

definition stored :: "telemetry_row \<Rightarrow> device_telemetry \<Rightarrow> bool" where
  "stored r d \<longleftrightarrow> unmarshal_device (tr_payload r) = Some d \<and> tr_observed_at r = rfc3339 (observed_at d) \<and>
     year_ok (observed_at d)"

lemma written_stored: "written run_id created r d \<Longrightarrow> in_int64 (uptime_seconds d) \<Longrightarrow> stored r d"
  by (auto simp: written_def stored_def telemetry_row_of_def unmarshal_marshal_device)
    (auto simp: marshal_device_def split: if_splits)

text \<open>The samples of every host, in the order they were accepted, fall into different seconds.\<close>

definition in_order :: "device_telemetry list \<Rightarrow> bool" where
  "in_order T \<longleftrightarrow> (\<forall>h. sorted_wrt (<) (map (\<lambda>d. unix (observed_at d)) (filter (\<lambda>d. hostname d = h) T)))"

lemma restore_telemetry_Inr:
  "\<forall>r \<in> set rows. unmarshal_device (tr_payload r) = Some (dev r) \<Longrightarrow>
   restore_telemetry (map (\<lambda>x. (tr_hostname x, tr_payload x)) rows) s =
     Inr (fold append_history (map dev rows) s)"
  by (induction rows arbitrary: s) auto

lemma restore_telemetry_law:
  assumes "list_all2 stored table T" "in_order T" "year_ok limit" "remembers s []"
    and rows: "mset rows = mset (filter (\<lambda>x. rfc3339 limit \<le> tr_observed_at x) table)"
      "sorted (map tr_observed_at rows)"
  obtains s1 where
    "restore_telemetry (map (\<lambda>x. (tr_hostname x, tr_payload x)) rows) s = Inr s1"
    "remembers s1 (filter (\<lambda>d. unix limit \<le> unix (observed_at d)) T)"
    "ps_db s1 = ps_db s" "ps_incidents s1 = ps_incidents s" "ps_retention s1 = ps_retention s"
    "ps_anomalies s1 = ps_anomalies s"
proof -
  define dev where "dev r = the (unmarshal_device (tr_payload r))" for r :: telemetry_row
  have dev: "unmarshal_device (tr_payload r) = Some (dev r)" "tr_observed_at r = rfc3339 (observed_at (dev r))"
      "year_ok (observed_at (dev r))" if "r \<in> set table" for r
    using that assms(1) by (auto simp: dev_def stored_def list_all2_conv_all_nth in_set_conv_nth)
  have T: "T = map dev table"
    using assms(1) by (auto simp: list_all2_conv_all_nth stored_def dev_def intro!: nth_equalityI)
  have sub: "set rows \<subseteq> set table" using mset_eq_setD [OF rows(1)] by auto
  have r: "restore_telemetry (map (\<lambda>x. (tr_hostname x, tr_payload x)) rows) s =
      Inr (fold append_history (map dev rows) s)"
    by (rule restore_telemetry_Inr) (use dev sub in blast)
  let ?win = "filter (\<lambda>x. rfc3339 limit \<le> tr_observed_at x) table"
  have host: "filter (\<lambda>d. hostname d = h) (map dev rows) =
      filter (\<lambda>d. hostname d = h) (filter (\<lambda>d. unix limit \<le> unix (observed_at d)) T)" for h
  proof -
    let ?P = "\<lambda>r. hostname (dev r) = h"
    have "filter ?P rows = filter ?P ?win"
    proof (rule sorted_query_unique [of _ _ tr_observed_at])
      show "mset (filter ?P rows) = mset (filter ?P ?win)" using rows(1) by (simp only: mset_filter)
      show "sorted (map tr_observed_at (filter ?P rows))"
        using rows(2) by (simp add: sorted_map sorted_wrt_filter)
      have "sorted_wrt (\<lambda>a b. unix (observed_at (dev a)) < unix (observed_at (dev b))) (filter ?P table)"
        using assms(2) unfolding in_order_def T by (simp add: filter_map sorted_wrt_map o_def)
      then have "sorted_wrt (\<lambda>a b. tr_observed_at a < tr_observed_at b) (filter ?P table)"
        by (rule sorted_wrt_mono_rel [rotated]) (use dev in \<open>auto simp: rfc3339_less_iff\<close>)
      from sorted_wrt_filter [OF this, of "\<lambda>x. rfc3339 limit \<le> tr_observed_at x"]
      show "sorted_wrt (<) (map tr_observed_at (filter ?P ?win))"
        by (simp add: sorted_wrt_map filter_filter conj_commute)
    qed
    moreover have "?win = filter (\<lambda>x. unix limit \<le> unix (observed_at (dev x))) table"
      by (rule filter_cong) (use dev assms(3) rfc3339_le_iff in auto)
    ultimately show ?thesis by (simp add: T filter_map o_def)
  qed
  have "remembers (fold append_history (map dev rows) s) ([] @ map dev rows)"
    by (rule remembers_fold [OF assms(4)])
  then have "remembers (fold append_history (map dev rows) s) (filter (\<lambda>d. unix limit \<le> unix (observed_at d)) T)"
    unfolding remembers_def append_Nil host .
  then show thesis by (rule that [OF r]) (simp_all only: fold_append_history)
qed

lemma restore_decision_rows:
  assumes "mirrors t m" "store_ok m" "times_ok m"
    and rows: "mset rows = mset (tb_decisions t)" "sorted (map dr_decided_at rows)"
  obtains ds where "decisions_of_rows rows Map.empty = Inr ds"
    "\<And>iid. lookup_list ds iid = map trunc_decision (inc_decisions m iid)"
proof -
  have mine: "filter (\<lambda>r. dr_incident_id r = iid) rows = map decision_row_of (inc_decisions m iid)" for iid
  proof (rule sorted_query_unique [of _ _ dr_decided_at])
    show "mset (filter (\<lambda>r. dr_incident_id r = iid) rows) = mset (map decision_row_of (inc_decisions m iid))"
      using rows(1) assms(1) unfolding mirrors_def by (metis mset_filter)
    show "sorted (map dr_decided_at (filter (\<lambda>r. dr_incident_id r = iid) rows))"
      using rows(2) by (simp add: sorted_map sorted_wrt_filter)
    have "sorted_wrt (\<lambda>a b. unix (de_decided_at a) < unix (de_decided_at b)) (inc_decisions m iid)"
      using assms(3) by (simp add: times_ok_def sorted_wrt_map)
    then have "sorted_wrt (\<lambda>a b. rfc3339 (de_decided_at a) < rfc3339 (de_decided_at b)) (inc_decisions m iid)"
      by (rule sorted_wrt_mono_rel [rotated]) (use assms(3) in \<open>auto simp: times_ok_def rfc3339_less_iff\<close>)
    then show "sorted_wrt (<) (map dr_decided_at (map decision_row_of (inc_decisions m iid)))"
      by (simp add: sorted_wrt_map decision_row_of_def)
  qed
  have undo: "\<lparr>de_incident_id = dr_incident_id (decision_row_of d), de_status = dr_status (decision_row_of d),
      de_actor = dr_actor (decision_row_of d),
      de_decided_at = projr (parse_rfc3339 (dr_decided_at (decision_row_of d)))\<rparr> = trunc_decision d"
    if "d \<in> set (inc_decisions m iid)" for d iid
  proof -
    have "year_ok (de_decided_at d)" using assms(3) that by (auto simp: times_ok_def)
    then show ?thesis by (simp add: decision_row_of_def trunc_decision_def parse_rfc3339_rfc3339)
  qed
  have "\<exists>t. parse_rfc3339 (dr_decided_at r) = Inr t" if "r \<in> set rows" for r
  proof -
    have "r \<in> set (filter (\<lambda>x. dr_incident_id x = dr_incident_id r) rows)" using that by simp
    then obtain d where "d \<in> set (inc_decisions m (dr_incident_id r))" "r = decision_row_of d"
      unfolding mine by auto
    moreover from this(1) have "year_ok (de_decided_at d)" using assms(3) by (auto simp: times_ok_def)
    ultimately show ?thesis by (simp add: decision_row_of_def parse_rfc3339_rfc3339)
  qed
  then obtain ds where ds: "decisions_of_rows rows Map.empty = Inr ds"
      "\<forall>iid. lookup_list ds iid = lookup_list Map.empty iid @
       map (\<lambda>r. \<lparr>de_incident_id = dr_incident_id r, de_status = dr_status r, de_actor = dr_actor r,
              de_decided_at = projr (parse_rfc3339 (dr_decided_at r))\<rparr>)
         (filter (\<lambda>r. dr_incident_id r = iid) rows)"
    using decisions_of_rows_Inr [of rows Map.empty] by blast
  show thesis
    by (rule that [OF ds(1)]) (use ds(2) undo in \<open>simp add: mine\<close>)
qed

lemma restart_law:
  assumes "sql_laws drv committed pending" "pending db = None"
    and "list_all2 stored (tb_telemetry (committed db)) T" "in_order T"
    and "mirrors (committed db) m" "store_ok m" "times_ok m"
    and "in_int64 (- retention)" "year_ok (now - retention)"
  shows "case new_store drv (Inr db) retention now of
    Inl e \<Rightarrow> \<exists>q. e = ErrQuery q
  | Inr s \<Rightarrow>
      (\<forall>h. device_history s h = take_last 90
         (filter (\<lambda>d. hostname d = h \<and> unix (now - retention) \<le> unix (observed_at d)) T)) \<and>
      is_incidents (ps_incidents s) = map_option trunc_incident \<circ> is_incidents m \<and>
      (\<forall>k. inc_history (ps_incidents s) k = inc_history m k) \<and>
      (\<forall>iid. incident_decisions s iid = map trunc_decision (inc_decisions m iid)) \<and>
      ps_anomalies s = [] \<and> committed (ps_db s) = committed db"
proof -
  let ?s0 = "initial_pstore db retention"
  have cut: "retention_cutoff now ?s0 = now - retention" "ps_db ?s0 = db"
    using assms(8) by (simp_all add: retention_cutoff_def time_add_def initial_pstore_def)
  have rem0: "remembers ?s0 []" by (simp add: remembers_def device_history_def initial_pstore_def)
  obtain db1 r1 where q1: "sd_query_telemetry drv (rfc3339 (now - retention)) db = (db1, r1)" by fastforce
  note l1 = sql_laws.query_telemetry_law [OF assms(1,2) q1]
  obtain db2 r2 where q2: "sd_query_incidents drv db1 = (db2, r2)" by fastforce
  from l1 have p1: "pending db1 = None" "committed db1 = committed db" by simp_all
  note l2 = sql_laws.query_incidents_law [OF assms(1) p1(1) q2]
  obtain db3 r3 where q3: "sd_query_decisions drv db2 = (db3, r3)" by fastforce
  from l2 p1 have p2: "pending db2 = None" "committed db2 = committed db" by simp_all
  note l3 = sql_laws.query_decisions_law [OF assms(1) p2(1) q3]
  show ?thesis
  proof (cases r1)
    case (Inl e)
    then show ?thesis by (simp add: new_store_def restore_def cut q1)
  next
    case R1: (Inr xs)
    from l1 R1 obtain rows where rows: "xs = map (\<lambda>x. (tr_hostname x, tr_payload x)) rows"
        "mset rows = mset (filter (\<lambda>x. rfc3339 (now - retention) \<le> tr_observed_at x) (tb_telemetry (committed db)))"
        "sorted (map tr_observed_at rows)" by blast
    from restore_telemetry_law [OF assms(3,4,9) rem0 rows(2,3)] obtain s1 where
        s1: "restore_telemetry xs ?s0 = Inr s1"
        "remembers s1 (filter (\<lambda>d. unix (now - retention) \<le> unix (observed_at d)) T)"
        "ps_incidents s1 = new_incident_store" "ps_anomalies s1 = []"
      unfolding rows(1) [symmetric] by (auto simp: initial_pstore_def)
    show ?thesis
    proof (cases r2)
      case (Inl e)
      then show ?thesis by (simp add: new_store_def restore_def cut q1 R1 s1 q2)
    next
      case R2: (Inr irows)
      have ir: "mset irows = mset (tb_incidents (committed db))"
          "sorted (map (\<lambda>x. (ir_occurrence_key x, ir_occurrence_sequence x)) irows)"
        using l2 R2 p1 by simp_all
      show ?thesis
      proof (cases r3)
        case (Inl e)
        from restore_incident_rows [OF assms(5,6,7) ir] obtain all where "incidents_of_rows irows = Inr all" by blast
        then show ?thesis using Inl by (simp add: new_store_def restore_def cut q1 R1 s1 q2 R2 q3)
      next
        case R3: (Inr drows)
        have dr: "mset drows = mset (tb_decisions (committed db))" "sorted (map dr_decided_at drows)"
          using l3 R3 p2 by simp_all
        from restore_decision_rows [OF assms(5,6,7) dr] obtain ds where
            ds: "decisions_of_rows drows Map.empty = Inr ds"
            "\<And>iid. lookup_list ds iid = map trunc_decision (inc_decisions m iid)" by blast
        from restore_incident_rows [OF assms(5,6,7) ir] obtain all where all: "incidents_of_rows irows = Inr all"
            "is_incidents (inc_restore all ds new_incident_store) = map_option trunc_incident \<circ> is_incidents m"
            "\<And>k. inc_history (inc_restore all ds new_incident_store) k = inc_history m k"
            "is_decisions (inc_restore all ds new_incident_store) = ds" by blast
        let ?s = "s1\<lparr>ps_db := db3, ps_incidents := inc_restore all ds new_incident_store\<rparr>"
        have ns: "new_store drv (Inr db) retention now = Inr ?s"
          by (simp add: new_store_def restore_def cut q1 R1 s1 q2 R2 q3 R3 all(1) ds(1))
        have "device_history ?s h = take_last 90
            (filter (\<lambda>d. hostname d = h \<and> unix (now - retention) \<le> unix (observed_at d)) T)" for h
          using s1(2) by (simp add: remembers_def device_history_def filter_filter conj_commute)
        then show ?thesis
          unfolding ns using all(2-4) ds(2) s1(4) l3 p2
          by (simp add: incident_decisions_def inc_decisions_def)
      qed
    qed
  qed
qed

text \<open>
  C13: A restart recovers the store. From tables that hold the accepted samples \<open>T\<close> and mirror the
  incident store \<open>m\<close>, \<open>NewStore\<close> fails only if a query fails, and otherwise the histories are the
  last 90 samples of each host inside the retention window, incidents, recurrence histories and audit
  trails are those of \<open>m\<close> with their instants cut to the second, and the tables are unchanged. The
  samples of a host and the decisions on an incident have to fall into different seconds, because the
  stored timestamps, by which the rows are ordered, have no fraction.
\<close>

theorem restart_recovers:
  assumes "sql_laws drv committed pending" "pending db = None"
    and "list_all2 stored (tb_telemetry (committed db)) T" "in_order T"
    and "mirrors (committed db) m" "store_ok m" "times_ok m"
    and "in_int64 (- retention)" "year_ok (now - retention)"
  shows "case new_store drv (Inr db) retention now of
    Inl e \<Rightarrow> \<exists>q. e = ErrQuery q
  | Inr s \<Rightarrow>
      (\<forall>h. device_history s h = take_last 90
         (filter (\<lambda>d. hostname d = h \<and> unix (now - retention) \<le> unix (observed_at d)) T)) \<and>
      is_incidents (ps_incidents s) = map_option trunc_incident \<circ> is_incidents m \<and>
      (\<forall>k. inc_history (ps_incidents s) k = inc_history m k) \<and>
      (\<forall>iid. incident_decisions s iid = map trunc_decision (inc_decisions m iid)) \<and>
      ps_anomalies s = [] \<and> committed (ps_db s) = committed db"
  by (rule restart_law [OF assms])

section \<open>A restart without assumptions on the telemetry\<close>

lemma restore_telemetry_fold:
  "restore_telemetry rows s = Inr s' \<Longrightarrow> \<exists>ds. s' = fold append_history ds s"
proof (induction rows s rule: restore_telemetry.induct)
  case (1 s)
  then show ?case by (auto intro: exI [of _ "[]"])
next
  case (2 host payload rows s)
  then obtain d where d: "unmarshal_device payload = Some d" by (auto split: option.splits)
  with 2 obtain ds where "s' = fold append_history ds (append_history d s)" by auto
  then show ?case by (intro exI [of _ "d # ds"]) simp
qed

lemma new_store_InrE:
  assumes "sql_laws drv committed pending" "pending db = None" "new_store drv (Inr db) retention now = Inr s"
  obtains ds irows all drows decided db' where
    "s = (fold append_history ds (initial_pstore db retention))
       \<lparr>ps_db := db', ps_incidents := inc_restore all decided new_incident_store\<rparr>"
    "mset irows = mset (tb_incidents (committed db))"
    "sorted (map (\<lambda>x. (ir_occurrence_key x, ir_occurrence_sequence x)) irows)"
    "incidents_of_rows irows = Inr all"
    "mset drows = mset (tb_decisions (committed db))" "sorted (map dr_decided_at drows)"
    "decisions_of_rows drows Map.empty = Inr decided"
    "pending db' = None" "committed db' = committed db"
proof -
  let ?s = "initial_pstore db retention"
  have init: "ps_db ?s = db" by (simp add: initial_pstore_def)
  obtain db1 r1 where q1: "sd_query_telemetry drv (rfc3339 (retention_cutoff now ?s)) db = (db1, r1)" by fastforce
  obtain db2 r2 where q2: "sd_query_incidents drv db1 = (db2, r2)" by fastforce
  obtain db3 r3 where q3: "sd_query_decisions drv db2 = (db3, r3)" by fastforce
  have l1: "committed db1 = committed db" "pending db1 = None"
    using sql_laws.query_telemetry_law [OF assms(1,2) q1] by simp_all
  note l2 = sql_laws.query_incidents_law [OF assms(1) l1(2) q2]
  then have p2: "pending db2 = None" "committed db2 = committed db" using l1 by simp_all
  note l3 = sql_laws.query_decisions_law [OF assms(1) p2(1) q3]
  obtain s1 irows all drows decided where res: "restore_telemetry (projr r1) ?s = Inr s1"
      "r2 = Inr irows" "incidents_of_rows irows = Inr all" "r3 = Inr drows"
      "decisions_of_rows drows Map.empty = Inr decided"
      "s = s1\<lparr>ps_db := db3, ps_incidents := inc_restore all decided (ps_incidents s1)\<rparr>"
    using assms(3) by (auto simp: new_store_def restore_def init q1 q2 q3 split: sum.splits)
  from restore_telemetry_fold [OF res(1)] obtain ds where s1: "s1 = fold append_history ds ?s" ..
  then have "ps_incidents s1 = new_incident_store" by (simp add: fold_append_history) (simp add: initial_pstore_def)
  with res(6) s1 have "s = (fold append_history ds ?s)
      \<lparr>ps_db := db3, ps_incidents := inc_restore all decided new_incident_store\<rparr>" by simp
  from that [OF this _ _ res(3) _ _ res(5)] show thesis using l1 l2 l3 p2 res(2,4) by simp
qed

section \<open>The anomaly buffer and the newest samples\<close>

lemma fold_add_anomaly:
  assumes "distinct (map an_id as)"
  shows "\<exists>new'. fst (fold add_anomaly new (as, set (map an_id as))) = rev new' @ as \<and>
    distinct (map an_id (rev new' @ as)) \<and> subseq new' new \<and>
    set (map an_id new) \<subseteq> set (map an_id (new' @ as))"
  using assms
proof (induction new arbitrary: as)
  case Nil
  then show ?case by (intro exI [of _ "[]"]) simp
next
  case (Cons a new)
  show ?case
  proof (cases "an_id a \<in> set (map an_id as)")
    case True
    then have "add_anomaly a (as, set (map an_id as)) = (as, set (map an_id as))" by (simp add: add_anomaly_def)
    moreover from Cons.IH [OF Cons.prems] obtain new' where
        "fst (fold add_anomaly new (as, set (map an_id as))) = rev new' @ as"
        "distinct (map an_id (rev new' @ as))" "subseq new' new"
        "set (map an_id new) \<subseteq> set (map an_id (new' @ as))" by blast
    ultimately show ?thesis using True by (intro exI [of _ new']) auto
  next
    case False
    then have e: "add_anomaly a (as, set (map an_id as)) = (a # as, set (map an_id (a # as)))"
      by (simp add: add_anomaly_def)
    have "distinct (map an_id (a # as))" using False Cons.prems by simp
    from Cons.IH [OF this] obtain new' where n:
        "fst (fold add_anomaly new (a # as, set (map an_id (a # as)))) = rev new' @ a # as"
        "distinct (map an_id (rev new' @ a # as))" "subseq new' new"
        "set (map an_id new) \<subseteq> set (map an_id (new' @ a # as))" by blast
    show ?thesis
      using n e by (intro exI [of _ "a # new'"]) auto
  qed
qed

text \<open>
  The anomaly buffer never exceeds 100 entries and never holds two with one identifier:
  recording a batch puts the new ones, each identifier once, in front of the old ones, latest first,
  and drops the oldest beyond 100.
\<close>

lemma record_anomalies_bounded:
  assumes "distinct (map an_id (ps_anomalies s))"
  shows "\<exists>new'. ps_anomalies (record_anomalies new s) = take 100 (rev new' @ ps_anomalies s) \<and>
    subseq new' new \<and> set (map an_id new) \<subseteq> set (map an_id (new' @ ps_anomalies s)) \<and>
    distinct (map an_id (ps_anomalies (record_anomalies new s))) \<and>
    length (ps_anomalies (record_anomalies new s)) \<le> 100"
proof -
  from fold_add_anomaly [OF assms, of new] obtain new' where n:
      "fst (fold add_anomaly new (ps_anomalies s, set (map an_id (ps_anomalies s)))) = rev new' @ ps_anomalies s"
      "distinct (map an_id (rev new' @ ps_anomalies s))" "subseq new' new"
      "set (map an_id new) \<subseteq> set (map an_id (new' @ ps_anomalies s))" by blast
  have e: "ps_anomalies (record_anomalies new s) = take 100 (rev new' @ ps_anomalies s)"
    unfolding record_anomalies_def n(1) Let_def max_anomalies_def by simp
  have "distinct (map an_id (take 100 (rev new' @ ps_anomalies s)))"
    using n(2) by (simp only: take_map [symmetric] distinct_take)
  with e n(3,4) show ?thesis by (intro exI [of _ new']) simp
qed

lemma latest_devices_law:
  assumes "remembers s S" "distinct order" "set order = dom (ps_latest s)"
  shows "sorted_wrt (<) (map hostname (latest_devices order s)) \<and>
    set (latest_devices order s) = ran (ps_latest s) \<and>
    set (map hostname (latest_devices order s)) = hostname ` set S"
proof -
  let ?xs = "List.map_filter (ps_latest s) order"
  have host: "hostname d = h \<and> h \<in> hostname ` set S" if "ps_latest s h = Some d" for h d
  proof -
    have "d = last (filter (\<lambda>d. hostname d = h) S)" "filter (\<lambda>d. hostname d = h) S \<noteq> []"
      using assms(1) that by (auto simp: remembers_def Let_def split: if_splits)
    then have "d \<in> set (filter (\<lambda>d. hostname d = h) S)" by (metis last_in_set)
    then show ?thesis by auto
  qed
  have some: "ps_latest s (hostname d) \<noteq> None" if "d \<in> set S" for d
    using assms(1) that by (auto simp: remembers_def Let_def filter_empty_conv)
  have mf: "\<lbrakk>set ks \<subseteq> dom m; \<forall>h d. m h = Some d \<longrightarrow> hostname d = h\<rbrakk> \<Longrightarrow>
      map hostname (List.map_filter m ks) = ks \<and> set (List.map_filter m ks) = {d. \<exists>k \<in> set ks. m k = Some d}"
    for m :: "string \<rightharpoonup> device_telemetry" and ks
    by (induction ks) (auto simp: List.map_filter_simps)
  have x: "map hostname ?xs = order" "set ?xs = ran (ps_latest s)"
    using mf [of order "ps_latest s"] host assms(3) by (auto simp: ran_def dom_def)
  have "sorted (map hostname (latest_devices order s))" by (simp add: latest_devices_def)
  moreover have "distinct (map hostname (latest_devices order s))"
  proof -
    have "mset (map hostname (latest_devices order s)) = mset order"
      unfolding latest_devices_def by (metis mset_map mset_sort x(1))
    then show ?thesis using assms(2) mset_eq_imp_distinct_iff by blast
  qed
  moreover have "set (latest_devices order s) = ran (ps_latest s)"
    using x(2) by (simp add: latest_devices_def)
  moreover from this have "set (map hostname (latest_devices order s)) = hostname ` set S"
    using host some by (fastforce simp: ran_def image_iff)
  ultimately show ?thesis by (simp add: strict_sorted_iff)
qed

text \<open>
  After any run the newest samples are listed once per host in strictly increasing order of the
  host name, whatever order the map is visited in.
\<close>

lemma latest_devices_sorted:
  assumes "remembers s S" "distinct order" "set order = dom (ps_latest s)"
  shows "sorted_wrt (<) (map hostname (latest_devices order s)) \<and>
    set (latest_devices order s) = ran (ps_latest s) \<and>
    set (map hostname (latest_devices order s)) = hostname ` set S"
  by (rule latest_devices_law [OF assms])

section \<open>Witnesses\<close>

definition demo_db :: "tables \<Rightarrow> bool list \<Rightarrow> table_db" where
  "demo_db t faults = \<lparr>td_committed = t, td_pending = None, td_faults = faults\<rparr>"

definition demo_sample :: device_telemetry where
  "demo_sample = demo_device (Fin 40) (Fin 40) (Fin 15) (Fin 0)"

definition demo_retention :: duration where
  "demo_retention = 3600 * 10 ^ 9"

definition demo_pstore :: "bool list \<Rightarrow> table_db pstore" where
  "demo_pstore faults = initial_pstore (demo_db empty_tables faults) demo_retention"

lemma demo_laws: "sql_laws table_driver td_committed td_pending"
  by (rule table_sql.sql_laws_axioms)

lemma demo_year_ok: "year_ok demo_time" "year_ok (demo_time - demo_retention)" "year_ok (demo_time + 1)"
  by code_simp+

lemma demo_pstore_simps [simp]:
  "td_pending (ps_db (demo_pstore fs)) = None" "td_committed (ps_db (demo_pstore fs)) = empty_tables"
  "remembers (demo_pstore fs) []" "ps_incidents (demo_pstore fs) = new_incident_store"
  "ps_retention (demo_pstore fs) = demo_retention"
  by (simp_all add: demo_pstore_def initial_pstore_def demo_db_def remembers_def device_history_def)

lemma demo_sample_validates: "validate demo_sample = None"
  unfolding demo_sample_def by (rule demo_device_validates) (simp_all add: f64_simps)

lemma demo_sample_bad: "validate (demo_sample\<lparr>hostname := ''''\<rparr>) = Some EmptyHostname"
  by (simp add: validate_def)

lemma demo_sample_storable: "storable demo_sample"
  using demo_year_ok by (simp add: storable_def demo_sample_def f64_simps) (simp add: demo_device_def)

theorem ingest_atomic_witness:
  "\<exists>s' r err. ingest table_driver [demo_sample, demo_sample\<lparr>hostname := ''''\<rparr>] ''run'' demo_time
       (demo_pstore [False, False, True]) = (s', r, err) \<and>
     ig_accepted r = 1 \<and> ig_rejected r = 1 \<and>
     (err \<noteq> None \<longrightarrow> td_committed (ps_db s') = empty_tables)"
proof -
  let ?ds = "[demo_sample, demo_sample\<lparr>hostname := ''''\<rparr>]"
  let ?s = "demo_pstore [False, False, True]"
  obtain s' r err where i: "ingest table_driver ?ds ''run'' demo_time ?s = (s', r, err)"
    by (cases "ingest table_driver ?ds ''run'' demo_time ?s")
  from ingest_atomic [OF demo_laws _ _ i, of "[]"] i show ?thesis
    by (simp add: demo_sample_validates demo_sample_bad)
qed

text \<open>A table with the row of one sample, and the driver that reads it.\<close>

definition demo_row :: telemetry_row where
  "demo_row = telemetry_row_of demo_sample (the (marshal_device demo_sample)) ''run'' (rfc3339 demo_time)"

lemma demo_row_observed: "tr_observed_at demo_row = rfc3339 demo_time"
  by (simp add: demo_row_def telemetry_row_of_def demo_sample_def demo_device_def)

definition demo_pstore1 :: "table_db pstore" where
  "demo_pstore1 = initial_pstore (demo_db (empty_tables\<lparr>tb_telemetry := [demo_row]\<rparr>) []) demo_retention"

theorem prune_exact_witness:
  "\<exists>s'. prune table_driver demo_time demo_pstore1 = (s', Inr 0) \<and>
     td_committed (ps_db s') = empty_tables\<lparr>tb_telemetry := [demo_row]\<rparr>"
proof -
  let ?s = "demo_pstore1"
  obtain s' res where p: "prune table_driver demo_time ?s = (s', res)" by (cases "prune table_driver demo_time ?s")
  have s: "td_pending (ps_db ?s) = None" "td_committed (ps_db ?s) = empty_tables\<lparr>tb_telemetry := [demo_row]\<rparr>"
      "ps_retention ?s = demo_retention"
    by (simp_all add: demo_pstore1_def initial_pstore_def demo_db_def)
  have "\<exists>n. res = Inr n"
    using p by (auto simp: prune_def table_driver_def td_exec_def next_fault_def demo_pstore1_def
        initial_pstore_def demo_db_def Let_def)
  then obtain n where n: "res = Inr n" ..
  have u: "unix (demo_time - demo_retention) \<le> unix demo_time" by code_simp
  have r: "in_int64 (- ps_retention ?s)" unfolding s by (simp add: demo_retention_def)
  have "\<forall>r \<in> set (tb_telemetry (td_committed (ps_db ?s))). year_ok ((\<lambda>_. demo_time) r) \<and>
      tr_observed_at r = rfc3339 ((\<lambda>_. demo_time) r)"
    by (simp add: s demo_row_observed demo_year_ok)
  from prune_exact [OF demo_laws s(1) p r this] n u p show ?thesis
    by (auto simp add: s demo_year_ok)
qed

lemma demo_run:
  "\<exists>s. durable_run table_driver [] (demo_pstore []) [] s \<and> is_incidents (ps_incidents s) \<noteq> Map.empty"
proof -
  obtain s inc created err where
      u: "upsert_incident table_driver demo_candidate (demo_time + 1) (demo_pstore []) = (s, inc, created, err)"
    by (cases "upsert_incident table_driver demo_candidate (demo_time + 1) (demo_pstore [])")
  have e: "err = None" "ps_incidents s = demo_store1"
    using u by (auto simp: upsert_incident_def demo_upsert1 table_driver_def td_exec_def next_fault_def
        demo_pstore_def initial_pstore_def demo_db_def empty_tables_def Let_def)
  have "durable_run table_driver [] (demo_pstore []) [] s"
    by (rule run_upsert [OF run_start _ u [unfolded e(1)]]) (simp add: demo_fresh1)
  moreover have "is_incidents (ps_incidents s) \<noteq> Map.empty" by (simp add: e(2) demo_store1)
  ultimately show ?thesis by blast
qed

theorem durable_mirror_witness:
  "\<exists>s :: table_db pstore. is_incidents (ps_incidents s) \<noteq> Map.empty \<and>
     mirrors (td_committed (ps_db s)) (ps_incidents s)"
proof -
  obtain s where s: "durable_run table_driver [] (demo_pstore []) [] s" "is_incidents (ps_incidents s) \<noteq> Map.empty"
    using demo_run by blast
  have "td_pending (demo_db empty_tables []) = None" "td_committed (demo_db empty_tables []) = empty_tables"
    by (simp_all add: demo_db_def)
  from durable_mirror [OF demo_laws this s(1) [unfolded demo_pstore_def], of "''rtr-01''"] s(2)
  show ?thesis by blast
qed

theorem failed_insert_not_retried_witness:
  "\<exists>s1. upsert_incident table_driver demo_candidate (demo_time + 1) (demo_pstore [True]) =
       (s1, demo_incident 1, True, Some (ErrIncidentInsert (in_id (demo_incident 1)) td_error)) \<and>
     td_committed (ps_db s1) = empty_tables \<and>
     upsert_incident table_driver demo_candidate (demo_time + 2) s1 = (s1, demo_incident 1, False, None)"
proof -
  obtain s1 inc created err where
      u: "upsert_incident table_driver demo_candidate (demo_time + 1) (demo_pstore [True]) = (s1, inc, created, err)"
    by (cases "upsert_incident table_driver demo_candidate (demo_time + 1) (demo_pstore [True])")
  then have e: "inc = demo_incident 1" "created"
      "err = Some (ErrIncidentInsert (in_id (demo_incident 1)) td_error)"
    by (auto simp: upsert_incident_def demo_upsert1 table_driver_def td_exec_def next_fault_def
        demo_pstore_def initial_pstore_def demo_db_def empty_tables_def Let_def)
  have u': "upsert_incident table_driver demo_candidate (demo_time + 1) (demo_pstore [True]) =
      (s1, demo_incident 1, True, Some (ErrIncidentInsert (in_id (demo_incident 1)) td_error))"
    using u e by simp
  from failed_insert_not_retried [OF demo_laws _ _ _ u' refl, of "demo_time + 2"] u' show ?thesis
    by (simp add: demo_fresh1)
qed

definition demo_tables :: tables where
  "demo_tables = \<lparr>tb_telemetry = [demo_row], tb_incidents = [incident_row_of (demo_incident 1)],
     tb_decisions = []\<rparr>"

lemma no_query_error:
  "restore_telemetry rows s \<noteq> Inl (ErrQuery q)" "incidents_of_rows irows \<noteq> Inl (ErrQuery q)"
  "decisions_of_rows drows ds \<noteq> Inl (ErrQuery q)"
proof -
  show "restore_telemetry rows s \<noteq> Inl (ErrQuery q)"
    by (induction rows s rule: restore_telemetry.induct) (auto split: option.splits)
  show "incidents_of_rows irows \<noteq> Inl (ErrQuery q)"
    by (induction irows) (auto simp: incident_of_row_def split: option.splits sum.splits)
  show "decisions_of_rows drows ds \<noteq> Inl (ErrQuery q)"
    by (induction drows ds rule: decisions_of_rows.induct) (auto simp del: fun_upd_apply split: sum.splits)
qed

text \<open>The database of the restart witness mirrors a store with one active incident.\<close>

lemma demo_tables_hyps:
  shows demo_tables_db: "td_pending (demo_db demo_tables fs) = None"
      "td_committed (demo_db demo_tables fs) = demo_tables"
    and demo_tables_mirror: "mirrors (td_committed (demo_db demo_tables fs)) demo_store1"
    and demo_tables_stored: "list_all2 stored (tb_telemetry (td_committed (demo_db demo_tables fs))) [demo_sample]"
    and demo_store1_ok: "store_ok demo_store1" "times_ok demo_store1"
    and demo_retention_range: "in_int64 (- demo_retention)"
proof -
  obtain j where j: "marshal_device demo_sample = Some j" using marshal_device_Some [OF demo_sample_storable] by blast
  have "written ''run'' (rfc3339 demo_time) demo_row demo_sample"
    by (simp add: written_def j demo_row_def)
  then show "list_all2 stored (tb_telemetry (td_committed (demo_db demo_tables fs))) [demo_sample]"
    using written_stored demo_sample_storable by (simp add: demo_db_def demo_tables_def storable_def)
  show "td_pending (demo_db demo_tables fs) = None" "td_committed (demo_db demo_tables fs) = demo_tables"
    by (simp_all add: demo_db_def)
  show "mirrors (td_committed (demo_db demo_tables fs)) demo_store1"
    by (simp add: mirrors_def demo_db_def demo_tables_def demo_store1 inc_decisions_def)
  show "store_ok demo_store1" by (rule store_reachable_ok [OF demo_reachable1])
  show "times_ok demo_store1"
    by (simp add: times_ok_def demo_store1 inc_decisions_def demo_incident_def demo_year_ok)
  show "in_int64 (- demo_retention)" by (simp add: demo_retention_def)
qed

lemma demo_in_order: "in_order [demo_sample]"
  by (simp add: in_order_def)

lemmas demo_restart_law =
  restart_law [OF demo_laws demo_tables_db(1) demo_tables_stored demo_in_order demo_tables_mirror
    demo_store1_ok demo_retention_range demo_year_ok(2)]

lemma demo_restart:
  "\<exists>s. new_store table_driver (Inr (demo_db demo_tables [])) demo_retention demo_time = Inr s \<and>
     is_incidents (ps_incidents s) = map_option trunc_incident \<circ> is_incidents demo_store1 \<and>
     td_faults (ps_db s) = [] \<and> td_pending (ps_db s) = None"
proof (cases "new_store table_driver (Inr (demo_db demo_tables [])) demo_retention demo_time")
  case (Inl e)
  with demo_restart_law [of "[]"] obtain q where "e = ErrQuery q" by auto
  with Inl show ?thesis
    by (auto simp: new_store_def restore_def table_driver_def td_read_def next_fault_def initial_pstore_def
        demo_db_def no_query_error split: sum.splits)
next
  case (Inr s)
  then have "td_faults (ps_db s) = [] \<and> td_pending (ps_db s) = None"
    by (auto simp: new_store_def restore_def table_driver_def td_read_def next_fault_def initial_pstore_def
        demo_db_def split: sum.splits)
  with demo_restart_law [of "[]"] Inr show ?thesis by simp
qed

theorem restart_recovers_witness:
  "\<exists>s. new_store table_driver (Inr (demo_db demo_tables [])) demo_retention demo_time = Inr s \<and>
     device_history s ''rtr-01'' = [demo_sample] \<and>
     is_incidents (ps_incidents s) (in_id (demo_incident 1)) = Some (trunc_incident (demo_incident 1))"
proof -
  obtain s where s: "new_store table_driver (Inr (demo_db demo_tables [])) demo_retention demo_time = Inr s"
    using demo_restart by blast
  have "unix (demo_time - demo_retention) \<le> unix demo_time" by code_simp
  then have "filter (\<lambda>d. hostname d = ''rtr-01'' \<and> unix (demo_time - demo_retention) \<le> unix (observed_at d))
      [demo_sample] = [demo_sample]"
    by (simp add: demo_sample_def demo_device_def)
  with restart_recovers [OF demo_laws demo_tables_db(1) demo_tables_stored demo_in_order demo_tables_mirror
      demo_store1_ok demo_retention_range demo_year_ok(2), of "[]"] s
  show ?thesis by (simp add: demo_store1)
qed

definition demo_anomaly :: "string \<Rightarrow> anomaly" where
  "demo_anomaly i = \<lparr>an_id = i, an_score = Fin 1, an_severity = SeverityCritical, an_device = ''rtr-01'',
     an_signal = ''packet_loss'', an_detected_at = demo_time\<rparr>"

lemma record_anomalies_bounded_witness:
  "length (ps_anomalies (record_anomalies [demo_anomaly ''a'', demo_anomaly ''a''] (demo_pstore []))) \<le> 100 \<and>
   map an_id (ps_anomalies (record_anomalies [demo_anomaly ''a'', demo_anomaly ''a''] (demo_pstore []))) = [''a'']"
proof -
  have "distinct (map an_id (ps_anomalies (demo_pstore [])))" by (simp add: demo_pstore_def initial_pstore_def)
  from record_anomalies_bounded [OF this] show ?thesis
    by (simp add: record_anomalies_def demo_pstore_def initial_pstore_def add_anomaly_def demo_anomaly_def
        max_anomalies_def Let_def)
qed

lemma latest_devices_sorted_witness:
  "map hostname (latest_devices [''rtr-01''] (append_history demo_sample (demo_pstore []))) = [''rtr-01'']"
proof -
  have h: "hostname demo_sample = ''rtr-01''" by (simp add: demo_sample_def demo_device_def)
  have r: "remembers (append_history demo_sample (demo_pstore [])) [demo_sample]"
    using remembers_append [of "demo_pstore []" "[]" demo_sample] by simp
  have d: "set [''rtr-01''] = dom (ps_latest (append_history demo_sample (demo_pstore [])))"
    by (simp add: append_history_def h demo_pstore_def initial_pstore_def)
  from latest_devices_sorted [OF r _ d] show ?thesis
    by (simp add: latest_devices_def List.map_filter_simps append_history_def h)
qed

end
