(* ===== verification/ApiProps.thy ===== *)
theory ApiProps
  imports Api Durability
begin

text \<open>
  Properties of the HTTP API as a whole: the request pipeline as a contract of middleware and
  handlers, CORS, the read-only methods and the calls on the instruments.
\<close>

section \<open>The pipeline\<close>

lemma serve_cases:
  assumes "serve drv ev rq s = (s', resp)"
  shows "(rq_method rq = ''OPTIONS'' \<and> s' = s \<and>
      resp = Some \<lparr>rs_status = 204, rs_headers = cors_headers s (rq_origin rq), rs_body = NoBody\<rparr>) \<or>
    (s' = s \<and> (\<exists>code. resp = Some \<lparr>rs_status = code, rs_headers = cors_headers s (rq_origin rq), rs_body = PlainText\<rparr>)) \<or>
    (\<exists>r args s1 resp1 resp2. find_route (registered_routes s) (rq_method rq) (rq_path rq) = Some (r, args) \<and>
       dispatch drv ev rq r args s = (s1, resp1) \<and>
       with_metrics ev (rq_method rq) r (s1, resp1) = (s', resp2) \<and>
       resp = map_option (\<lambda>x. x\<lparr>rs_headers := cors_headers s (rq_origin rq) @ rs_headers x\<rparr>) resp2)"
proof (cases "rq_method rq = ''OPTIONS''")
  case True
  with assms show ?thesis by (auto simp: serve_def Let_def)
next
  case nopt: False
  show ?thesis
  proof (cases "find_route (registered_routes s) (rq_method rq) (rq_path rq)")
    case None
    with nopt assms show ?thesis by (auto simp: serve_def mux_def Let_def)
  next
    case (Some ra)
    obtain r args where ra: "ra = (r, args)" by (cases ra)
    obtain s1 resp1 where d: "dispatch drv ev rq r args s = (s1, resp1)" by fastforce
    obtain s2 resp2 where w: "with_metrics ev (rq_method rq) r (s1, resp1) = (s2, resp2)" by fastforce
    have "mux drv ev rq s = (s2, resp2)" by (simp add: mux_def Some ra d w)
    with nopt assms have "s2 = s' \<and>
        resp = map_option (\<lambda>x. x\<lparr>rs_headers := cors_headers s (rq_origin rq) @ rs_headers x\<rparr>) resp2"
      by (auto simp: serve_def Let_def)
    with Some ra d w show ?thesis by blast
  qed
qed

lemma with_metrics_cases:
  assumes "with_metrics ev meth r (s1, resp) = (s', resp')"
  obtains "resp' = resp" "s' = s1"
  | x v where "resp' = resp" "resp = Some x" "r \<noteq> GetMetrics"
    "s' = record_metrics [MetricObserve HTTPDuration [meth, route_label r, status_class (rs_status x)] v,
       MetricAdd HTTPRequests [meth, route_label r, status_class (rs_status x)] 1] s1"
  using assms by (auto simp: with_metrics_def Let_def split: option.splits if_splits)

lemma record_metrics_simps [simp]:
  "sv_store (record_metrics es s) = sv_store s" "sv_config (record_metrics es s) = sv_config s"
  "sv_runbooks (record_metrics es s) = sv_runbooks s"
  "sv_metrics (record_metrics es s) = map_option (\<lambda>old. old @ es) (sv_metrics s)"
  by (simp_all add: record_metrics_def)

lemma find_route_method:
  "find_route rs meth path = Some (r, args) \<Longrightarrow> \<exists>m ss. (m, ss, r) \<in> set rs \<and> method_matches m meth \<and>
     match_path ss path = Some args"
  by (induction rs meth path rule: find_route.induct) (auto split: option.splits if_splits)

lemma response_simps [simp]:
  "rs_status (write_json c j) = c" "rs_headers (write_json c j) = [(''Content-Type'', ''application/json'')]"
  "rs_status (write_error ev c a b) = c" "rs_headers (write_error ev c a b) = [(''Content-Type'', ''application/json'')]"
  by (simp_all add: write_json_def write_error_def)

text \<open>Every handler answers with a JSON reply of one of six statuses.\<close>

definition json_reply :: "response \<Rightarrow> bool" where
  "json_reply x \<longleftrightarrow> rs_headers x = [(''Content-Type'', ''application/json'')] \<and>
     rs_status x \<in> {200, 400, 404, 500, 501, 503}"

lemma json_reply_simps [simp]:
  "json_reply (write_json c j) \<longleftrightarrow> c \<in> {200, 400, 404, 500, 501, 503}"
  "json_reply (write_error ev c a b) \<longleftrightarrow> c \<in> {200, 400, 404, 500, 501, 503}"
  by (auto simp: json_reply_def)

lemma handler_reply:
  "handle_health drv s = (s', Some x) \<Longrightarrow> json_reply x"
  "handle_ingest drv ev b s = (s', Some x) \<Longrightarrow> json_reply x"
  "handle_get_telemetry ev s = (s', Some x) \<Longrightarrow> json_reply x"
  "handle_forecast ev d s = (s', Some x) \<Longrightarrow> json_reply x"
  "handle_anomalies s = (s', Some x) \<Longrightarrow> json_reply x"
  "handle_list_incidents ev s = (s', Some x) \<Longrightarrow> json_reply x"
  "handle_decide_incident drv ev i b s = (s', Some x) \<Longrightarrow> json_reply x"
  "handle_decisions i s = (s', Some x) \<Longrightarrow> json_reply x"
  "handle_runbook q s = (s', Some x) \<Longrightarrow> json_reply x"
  "handle_list_scenarios s = (s', Some x) \<Longrightarrow> json_reply x"
  "handle_run_scenario ev s = (s', Some x) \<Longrightarrow> json_reply x"
  "handle_scenario_run ev s = (s', Some x) \<Longrightarrow> json_reply x"
             apply (auto simp: handle_health_def Let_def split: prod.splits if_splits)[1]
            apply (auto simp: handle_ingest_def Let_def split: sum.splits option.splits prod.splits)[1]
           apply (auto simp: handle_get_telemetry_def)[1]
          apply (auto simp: handle_forecast_def Let_def split: option.splits)[1]
         apply (auto simp: handle_anomalies_def)[1]
        apply (auto simp: handle_list_incidents_def)[1]
       apply (auto simp: handle_decide_incident_def split: sum.splits option.splits prod.splits)[1]
      apply (auto simp: handle_decisions_def)[1]
     apply (auto simp: handle_runbook_def Let_def)[1]
    apply (auto simp: handle_list_scenarios_def)[1]
   apply (auto simp: handle_run_scenario_def)[1]
  apply (auto simp: handle_scenario_run_def)[1]
  done

lemma dispatch_reply:
  assumes "dispatch drv ev rq r args s = (s', Some x)"
  shows "json_reply x \<or> (r = GetMetrics \<and> rs_headers x = [])"
  using assms by (cases r) (auto simp: dispatch_def Let_def dest: handler_reply)

lemma dispatch_headers:
  assumes "dispatch drv ev rq r args s = (s', Some x)"
  shows "\<forall>h \<in> set (rs_headers x). fst h = ''Content-Type''"
  using dispatch_reply [OF assms] by (auto simp: json_reply_def)

lemma route_methods:
  assumes "find_route (registered_routes s) meth path = Some (r, args)"
  shows "meth \<in> {''GET'', ''HEAD'', ''POST''} \<and> (r \<in> {PostTelemetry, PostDecision, PostScenarioRun} \<longrightarrow> meth = ''POST'')"
proof -
  from find_route_method [OF assms] obtain m ss where
    "(m, ss, r) \<in> set (registered_routes s)" "method_matches m meth" by blast
  then show ?thesis
    by (auto simp: registered_routes_def route_table_def method_matches_def Let_def split: if_splits)
qed

definition status_classes :: "string set" where
  "status_classes = {''2xx'', ''4xx'', ''5xx''}"

lemma status_class_codes: "c \<in> {200, 400, 404, 500, 501, 503} \<Longrightarrow> status_class c \<in> status_classes"
proof -
  have "show_int 2 = ''2''" "show_int 4 = ''4''" "show_int 5 = ''5''" by code_simp+
  then show "c \<in> {200, 400, 404, 500, 501, 503} \<Longrightarrow> status_class c \<in> status_classes"
    by (auto simp: status_class_def status_classes_def)
qed

text \<open>What holds of every handler holds of the server: the middleware only adds its own calls on the
  instruments and the CORS headers.\<close>

locale middleware =
  fixes drv :: "'db sql_driver" and ok :: "env \<Rightarrow> request \<Rightarrow> route \<Rightarrow> 'db server \<Rightarrow> bool"
    and R :: "'db server \<Rightarrow> 'db server \<Rightarrow> bool"
  assumes unchanged: "R s s"
    and handler: "find_route (registered_routes s) (rq_method rq) (rq_path rq) = Some (r, args) \<Longrightarrow>
      ok ev rq r s \<Longrightarrow> dispatch drv ev rq r args s = (s', resp) \<Longrightarrow> R s s'"
    and timing: "R s s' \<Longrightarrow> a \<in> {''GET'', ''HEAD'', ''POST''} \<Longrightarrow> b \<in> range route_label \<Longrightarrow>
      c \<in> status_classes \<Longrightarrow> R s (record_metrics
      [MetricObserve HTTPDuration [a, b, c] v, MetricAdd HTTPRequests [a, b, c] 1] s')"
begin

lemma serve_keeps:
  assumes "serve drv ev rq s = (s', resp)" "\<forall>r. ok ev rq r s" shows "R s s'"
proof -
  have "R s s'" if f: "find_route (registered_routes s) (rq_method rq) (rq_path rq) = Some (r, args)"
      and d: "dispatch drv ev rq r args s = (s1, resp1)"
      and w: "with_metrics ev (rq_method rq) r (s1, resp1) = (s', resp2)" for r args s1 resp1 resp2
  proof -
    have s1: "R s s1" using handler [OF f _ d] assms(2) by blast
    from w show ?thesis
    proof (cases rule: with_metrics_cases)
      case (2 x v)
      have "r \<noteq> GetMetrics \<Longrightarrow> status_class (rs_status x) \<in> status_classes"
        using dispatch_reply [of drv ev rq r args s s1 x] d 2(2) by (auto simp: json_reply_def intro: status_class_codes)
      with 2 s1 route_methods [OF f] show ?thesis by (auto intro!: timing)
    qed (use s1 in simp)
  qed
  then show ?thesis using serve_cases [OF assms(1)] unchanged by blast
qed

end

section \<open>CORS\<close>

text \<open>
  C37: A response names an allowed origin exactly when the request's origin is one of the configured
  ones, and then it echoes that origin: no wildcard, no other origin is ever reflected.
\<close>

theorem cors_allow_listed:
  assumes "serve drv ev rq s = (s', Some x)"
  shows "(''Access-Control-Allow-Origin'', v) \<in> set (rs_headers x) \<longleftrightarrow>
    v = rq_origin rq \<and> v \<noteq> '''' \<and> v \<in> set (cf_cors_origins (sv_config s))"
proof -
  have c: "(''Access-Control-Allow-Origin'', v) \<in> set (cors_headers s (rq_origin rq)) \<longleftrightarrow>
      v = rq_origin rq \<and> v \<noteq> '''' \<and> v \<in> set (cf_cors_origins (sv_config s))"
    by (auto simp: cors_headers_def)
  have "(''Access-Control-Allow-Origin'', v) \<notin> set (rs_headers y)"
    if "dispatch drv ev rq r args s = (s1, resp1)" "with_metrics ev (rq_method rq) r (s1, resp1) = (s', Some y)"
    for r args s1 resp1 y
    using that(2) dispatch_headers [of drv ev rq r args s s1 y] that(1)
    by (cases rule: with_metrics_cases) auto
  then have route: ?thesis
    if "dispatch drv ev rq r args s = (s1, resp1)" "with_metrics ev (rq_method rq) r (s1, resp1) = (s', resp2)"
      "Some x = map_option (\<lambda>x. x\<lparr>rs_headers := cors_headers s (rq_origin rq) @ rs_headers x\<rparr>) resp2"
    for r args s1 resp1 resp2
    using that c by (cases resp2) auto
  have plain: ?thesis if "rs_headers x = cors_headers s (rq_origin rq)" using c that by simp
  from serve_cases [OF assms] show ?thesis
    by (elim disjE exE conjE) (use plain route in auto)
qed

section \<open>Requests that change nothing\<close>

definition same_store :: "('db \<Rightarrow> tables) \<Rightarrow> ('db \<Rightarrow> tables option) \<Rightarrow> 'db server \<Rightarrow> 'db server \<Rightarrow> bool" where
  "same_store committed pending s s' \<longleftrightarrow>
     sv_config s' = sv_config s \<and> sv_runbooks s' = sv_runbooks s \<and>
     (case sv_store s of
        None \<Rightarrow> sv_store s' = None
      | Some st \<Rightarrow> \<exists>db. sv_store s' = Some (st\<lparr>ps_db := db\<rparr>) \<and> committed db = committed (ps_db st) \<and>
          pending db = pending (ps_db st))"

lemma same_store_refl [simp]: "same_store committed pending s s"
  by (auto simp: same_store_def intro!: exI [of _ "ps_db st" for st] split: option.splits)

lemma same_store_record_metrics [simp]:
  "same_store committed pending s (record_metrics es s') = same_store committed pending s s'"
  by (cases "sv_store s") (simp_all add: same_store_def)

lemma health_same_store:
  assumes "sql_laws drv committed pending" "handle_health drv s = (s', resp)"
  shows "same_store committed pending s s'"
proof (cases "sv_store s")
  case None
  with assms(2) show ?thesis by (auto simp: handle_health_def same_store_def Let_def)
next
  case (Some st)
  obtain db e where p: "sd_ping drv (ps_db st) = (db, e)" by fastforce
  have "sv_store s' = Some (st\<lparr>ps_db := db\<rparr>) \<and> sv_config s' = sv_config s \<and> sv_runbooks s' = sv_runbooks s"
    using assms(2) Some p by (auto simp: handle_health_def ping_def Let_def split: option.splits)
  with sql_laws.ping_law [OF assms(1) p] Some show ?thesis by (auto simp: same_store_def)
qed

lemma get_same_store:
  assumes "sql_laws drv committed pending" "dispatch drv ev rq r args s = (s', resp)"
    and "r \<noteq> PostTelemetry" "r \<noteq> PostDecision"
  shows "same_store committed pending s s'"
proof (cases "r = Healthz")
  case True
  with assms(2) have "handle_health drv s = (s', resp)" by (simp add: dispatch_def)
  with assms(1) show ?thesis by (rule health_same_store)
next
  case False
  with assms(2-4) have "s' = s"
    by (cases r) (auto simp: dispatch_def Let_def handle_get_telemetry_def handle_forecast_def
      handle_anomalies_def handle_list_incidents_def handle_decisions_def handle_runbook_def
      handle_list_scenarios_def handle_run_scenario_def handle_scenario_run_def split: option.splits)
  then show ?thesis by simp
qed

interpretation readonly: middleware drv
  "\<lambda>ev rq r s. sql_laws drv committed pending \<and> rq_method rq \<noteq> ''POST''" "same_store committed pending"
  for drv :: "'db sql_driver" and committed :: "'db \<Rightarrow> tables" and pending :: "'db \<Rightarrow> tables option"
  by unfold_locales (auto dest!: route_methods intro!: get_same_store)

text \<open>
  C36: A request with any method but POST leaves everything behind the API as it was: the incidents,
  the anomalies, the histories and every row of the database.
\<close>

theorem safe_methods:
  assumes "sql_laws drv committed pending" "serve drv ev rq s = (s', resp)" "rq_method rq \<noteq> ''POST''"
    and "sv_store s = Some st"
  shows "\<exists>db. sv_store s' = Some (st\<lparr>ps_db := db\<rparr>) \<and> committed db = committed (ps_db st) \<and>
    pending db = pending (ps_db st)"
  using readonly.serve_keeps [OF assms(2), of committed pending] assms(1,3,4) by (auto simp: same_store_def)

section \<open>The calls on the instruments\<close>

definition label_values :: "string \<Rightarrow> string set" where
  "label_values md =
     {md, ''synthetic'', ''validation'', ''GET'', ''HEAD'', ''POST''} \<union> range inc_severity_text \<union>
     range route_label \<union> status_classes"

lemma finite_label_values [simp]: "finite (label_values md)"
proof -
  have sev: "(UNIV :: inc_severity set) = {IncLow, IncMedium, IncHigh, IncCritical}"
    using inc_severity.exhaust by auto
  have "x \<in> {Healthz, PostTelemetry, GetTelemetry, GetForecast, GetAnomalies, GetIncidents, PostDecision,
      GetDecisions, GetRunbook, GetScenarios, PostScenarioRun, GetScenarioRun, GetMetrics}" for x
    by (cases x) simp_all
  then have "(UNIV :: route set) \<subseteq> {Healthz, PostTelemetry, GetTelemetry, GetForecast, GetAnomalies,
      GetIncidents, PostDecision, GetDecisions, GetRunbook, GetScenarios, PostScenarioRun, GetScenarioRun,
      GetMetrics}" by blast
  then have "finite (UNIV :: route set)" by (rule finite_subset) simp
  moreover have "finite (UNIV :: inc_severity set)" unfolding sev by simp
  ultimately show ?thesis by (simp add: label_values_def status_classes_def)
qed

fun event_labels :: "metric_event \<Rightarrow> string list" where
  "event_labels (MetricAdd i ls n) = ls"
| "event_labels (MetricObserve i ls v) = ls"

definition call_ok :: "string \<Rightarrow> metric_event \<Rightarrow> bool" where
  "call_ok md e \<longleftrightarrow> well_labelled e \<and> counter_grows e \<and> set (event_labels e) \<subseteq> label_values md"

definition calls_added :: "'db server \<Rightarrow> 'db server \<Rightarrow> bool" where
  "calls_added s s' \<longleftrightarrow> sv_config s' = sv_config s \<and>
     (case sv_metrics s of
        None \<Rightarrow> sv_metrics s' = None
      | Some es \<Rightarrow> \<exists>new. sv_metrics s' = Some (es @ new) \<and> (\<forall>e \<in> set new. call_ok (mode_label s) e))"

lemma calls_added_refl [simp]: "calls_added s s"
  by (cases "sv_metrics s") (simp_all add: calls_added_def)

lemma calls_added_store [simp]:
  "calls_added s (s'\<lparr>sv_store := st\<rparr>) = calls_added s s'"
  "calls_added (s\<lparr>sv_store := st\<rparr>) s' = calls_added s s'"
  by (cases "sv_metrics s"; simp add: calls_added_def mode_label_def)+

lemma calls_added_trans: "calls_added s1 s2 \<Longrightarrow> calls_added s2 s3 \<Longrightarrow> calls_added s1 s3"
  by (cases "sv_metrics s1") (auto simp: calls_added_def mode_label_def)

lemma calls_added_record:
  "calls_added s s' \<Longrightarrow> \<forall>e \<in> set es. call_ok (mode_label s) e \<Longrightarrow> calls_added s (record_metrics es s')"
  by (cases "sv_metrics s") (auto simp: calls_added_def)

lemma mode_label_store [simp]:
  "mode_label (s\<lparr>sv_store := st\<rparr>) = mode_label s" "mode_label (record_metrics es s) = mode_label s"
  by (simp_all add: mode_label_def)

lemma severity_label [simp]: "inc_severity_text x \<in> label_values md" "md \<in> label_values md"
  "''synthetic'' \<in> label_values md" "''validation'' \<in> label_values md"
  by (simp_all add: label_values_def)

lemma upsert_step_calls: "calls_added s (upsert_step drv now c s)"
proof (cases "sv_store s")
  case (Some st)
  obtain st' inc created err where u: "upsert_incident drv c now st = (st', inc, created, err)"
    by (cases "upsert_incident drv c now st")
  show ?thesis
    by (auto simp: upsert_step_def Some u Let_def call_ok_def instrument_labels_def intro!: calls_added_record)
qed (simp add: upsert_step_def)

lemma correlate_calls: "calls_added s (correlate_incidents drv valid now s)"
proof -
  have "calls_added s (fold (upsert_step drv now) cs s)" for cs
    by (induction cs arbitrary: s) (auto intro: calls_added_trans [OF upsert_step_calls])
  then show ?thesis by (simp add: correlate_incidents_def)
qed

lemma ingest_calls:
  assumes "handle_ingest drv ev b s = (s', resp)" shows "calls_added s s'"
proof -
  have c: "calls_added s (count_ingest r (s\<lparr>sv_store := st\<rparr>))" for r st
    by (auto simp: count_ingest_def call_ok_def instrument_labels_def intro!: calls_added_record)
  have d: "calls_added s (detect_anomalies ds now s1)" if "calls_added s s1" for ds now s1
    using that by (simp add: detect_anomalies_def)
  show ?thesis
    using assms by (auto simp: handle_ingest_def Let_def split: sum.splits option.splits prod.splits
      intro!: calls_added_trans [OF _ correlate_calls] d c)
qed

lemma decide_calls:
  assumes "handle_decide_incident drv ev iid b s = (s', resp)" shows "calls_added s s'"
  using assms by (auto simp: handle_decide_incident_def call_ok_def instrument_labels_def
    split: sum.splits option.splits prod.splits if_splits intro!: calls_added_record)

lemma health_calls: "handle_health drv s = (s', resp) \<Longrightarrow> calls_added s s'"
  by (auto simp: handle_health_def Let_def split: prod.splits)

lemma dispatch_calls:
  assumes "dispatch drv ev rq r args s = (s', resp)" shows "calls_added s s'"
  using assms by (cases r) (auto simp: dispatch_def Let_def handle_get_telemetry_def handle_forecast_def
    handle_anomalies_def handle_list_incidents_def handle_decisions_def handle_runbook_def
    handle_list_scenarios_def handle_run_scenario_def handle_scenario_run_def split: option.splits
    dest: ingest_calls decide_calls health_calls)

interpretation instruments: middleware drv "\<lambda>ev rq r s. True" calls_added
  for drv :: "'db sql_driver"
proof
  show "calls_added s s'" if "dispatch drv ev rq r args s = (s', resp)"
    for ev rq r args and s s' :: "'db server" and resp
    using that by (rule dispatch_calls)
next
  fix s s' :: "'db server" and a b c v
  assume "calls_added s s'" "a \<in> {''GET'', ''HEAD'', ''POST''}" "b \<in> range route_label" "c \<in> status_classes"
  then show "calls_added s (record_metrics
      [MetricObserve HTTPDuration [a, b, c] v, MetricAdd HTTPRequests [a, b, c] 1] s')"
    by (intro calls_added_record) (auto simp: call_ok_def instrument_labels_def label_values_def)
qed simp

text \<open>
  C38: Whatever a request contains, it only appends calls on the instruments, every call has as many
  label values as the instrument declares (another number would be a panic), no counter is
  decremented, and all label values come from one finite set fixed by the configuration: no path
  parameter, host name or run identifier ever becomes a label.
\<close>

theorem metric_calls_safe:
  assumes "serve drv ev rq s = (s', resp)" "sv_metrics s = Some es"
  shows "finite (label_values (cf_environment_mode (sv_config s))) \<and>
    (\<exists>new. sv_metrics s' = Some (es @ new) \<and>
       (\<forall>e \<in> set new. well_labelled e \<and> counter_grows e \<and>
          set (event_labels e) \<subseteq> label_values (cf_environment_mode (sv_config s))))"
  using instruments.serve_keeps [OF assms(1)] assms(2)
  by (auto simp: calls_added_def call_ok_def mode_label_def)

end
