(* ===== verification/ServerRuns.thy ===== *)
theory ServerRuns
  imports ApiProps
begin

text \<open>
  Runs of the whole server: requests in any order, the retention pruning of the background in
  between. A request is a composition of operations of the durable store, so its guarantees carry
  over; the gauge \<open>vyomm_incidents_active\<close> follows the incident store along the run.
\<close>

section \<open>Runs\<close>

text \<open>The side condition of the upserts of one telemetry request: each new incident has an identifier
  of its own and its INSERT succeeds.\<close>

fun upserts_legal :: "'db sql_driver \<Rightarrow> gotime \<Rightarrow> candidate list \<Rightarrow> 'db pstore \<Rightarrow> bool" where
  "upserts_legal drv now [] st \<longleftrightarrow> True"
| "upserts_legal drv now (c # cs) st \<longleftrightarrow>
     (case upsert_incident drv c now st of
        (st', inc, created, err) \<Rightarrow>
          fresh_id c now (ps_incidents st) \<and> err = None \<and> upserts_legal drv now cs st')"

text \<open>A request whose incident statements succeed; requests that have none are always legal.\<close>

definition legal_request :: "'db sql_driver \<Rightarrow> env \<Rightarrow> request \<Rightarrow> route \<Rightarrow> string list \<Rightarrow> 'db server \<Rightarrow> bool" where
  "legal_request drv ev rq r args s \<longleftrightarrow>
     (case (r, sv_store s) of
        (PostTelemetry, Some st) \<Rightarrow>
          (case decode_body ev decode_ingest (rq_body rq) of
             Inl _ \<Rightarrow> True
           | Inr req \<Rightarrow>
               (case ingest drv (iq_devices req) (iq_run_id req) (ev_now ev) st of
                  (st', r', None) \<Rightarrow> upserts_legal drv (ev_now ev) (correlate (ig_valid r'))
                    (record_anomalies (detect (ig_valid r') (ev_now ev)) st')
                | (st', r', Some _) \<Rightarrow> True))
      | (PostDecision, Some st) \<Rightarrow>
          (case decode_body ev decode_decision (rq_body rq) of
             Inl _ \<Rightarrow> True
           | Inr req \<Rightarrow>
               (case decision_status (dq_status req) of
                  None \<Rightarrow> True
                | Some status \<Rightarrow>
                    (case decide_incident drv (case args of [] \<Rightarrow> '''' | a # _ \<Rightarrow> a) status (dq_actor req)
                        (ev_now ev) st of
                       (st', u, err) \<Rightarrow> u = None \<or> err = None)))
      | _ \<Rightarrow> True)"

inductive server_run :: "'db sql_driver \<Rightarrow> 'db server \<Rightarrow> 'db server \<Rightarrow> bool"
  for drv :: "'db sql_driver" and s0 :: "'db server" where
  server_start: "server_run drv s0 s0"
| server_request: "server_run drv s0 s \<Longrightarrow>
    \<forall>r args. find_route (registered_routes s) (rq_method rq) (rq_path rq) = Some (r, args) \<longrightarrow>
      legal_request drv ev rq r args s \<Longrightarrow>
    serve drv ev rq s = (s', resp) \<Longrightarrow> server_run drv s0 s'"
| server_prune: "server_run drv s0 s \<Longrightarrow> sv_store s = Some st \<Longrightarrow> prune drv now st = (st', res) \<Longrightarrow>
    server_run drv s0 (s\<lparr>sv_store := Some st'\<rparr>)"

section \<open>The gauge and the store along a run\<close>

text \<open>The server runs over a durable store that started as \<open>st0\<close> with \<open>base\<close> active incidents, which the
  gauge does not know of.\<close>

definition tracked ::
  "'db sql_driver \<Rightarrow> device_telemetry list \<Rightarrow> 'db pstore \<Rightarrow> int \<Rightarrow> 'db server \<Rightarrow> bool" where
  "tracked drv S0 st0 base s \<longleftrightarrow>
     (\<exists>st es S. sv_store s = Some st \<and> sv_metrics s = Some es \<and> durable_run drv S0 st0 S st \<and>
        store_wf (ps_incidents st) \<and> total IncidentsActive es + base = active_count (ps_incidents st))"

lemma upsert_incident_store:
  "upsert_incident drv c now st = (st', inc, created, err) \<Longrightarrow>
     inc_upsert c now (ps_incidents st) = (ps_incidents st', inc, created)"
  by (auto simp: upsert_incident_def Let_def split: prod.splits if_splits sum.splits)

lemma decide_incident_store:
  "decide_incident drv iid status actor now st = (st', Some (u, was), err) \<Longrightarrow>
     inc_decide iid status actor now (ps_incidents st) = (ps_incidents st', Inr (u, was))"
  "decide_incident drv iid status actor now st = (st', None, err) \<Longrightarrow>
     ps_incidents st' = ps_incidents st \<and> is_incidents (ps_incidents st) iid = None"
  by (auto simp: decide_incident_def inc_decide_def Let_def split: prod.splits sum.splits option.splits)

lemma ingest_incidents:
  "ingest drv devices run_id now st = (st', r, err) \<Longrightarrow> ps_incidents st' = ps_incidents st"
  by (auto simp: ingest_def Let_def fold_append_history split: prod.splits option.splits)

lemma record_anomalies_incidents [simp]: "ps_incidents (record_anomalies as st) = ps_incidents st"
  by (simp add: record_anomalies_def Let_def)

lemma trackedI:
  "sv_store s = Some st \<Longrightarrow> sv_metrics s = Some es \<Longrightarrow> durable_run drv S0 st0 S st \<Longrightarrow>
   store_wf (ps_incidents st) \<Longrightarrow> total IncidentsActive es + base = active_count (ps_incidents st) \<Longrightarrow> tracked drv S0 st0 base s"
  unfolding tracked_def by blast

lemma upsert_step_tracked:
  assumes "tracked drv S0 st0 base s" "sv_store s = Some st" "upserts_legal drv now (c # cs) st"
  shows "tracked drv S0 st0 base (upsert_step drv now c s) \<and>
    (\<exists>st'. sv_store (upsert_step drv now c s) = Some st' \<and> upserts_legal drv now cs st')"
proof -
  from assms(1,2) obtain es S where t: "sv_metrics s = Some es" "durable_run drv S0 st0 S st"
      "store_wf (ps_incidents st)" "total IncidentsActive es + base = active_count (ps_incidents st)"
    by (auto simp: tracked_def)
  obtain st' inc created err where u: "upsert_incident drv c now st = (st', inc, created, err)"
    by (cases "upsert_incident drv c now st")
  have legal: "fresh_id c now (ps_incidents st)" "err = None" "upserts_legal drv now cs st'"
    using assms(3) u by auto
  have run: "durable_run drv S0 st0 S st'" by (rule run_upsert [OF t(2) legal(1) u [unfolded legal(2)]])
  note gauge.keeps [OF t(3), of "OpUpsert c now"] gauge.reports [OF t(3), of "OpUpsert c now"]
  then have wf: "store_wf (ps_incidents st')"
      "active_count (ps_incidents st') = active_count (ps_incidents st) + (if created then 1 else 0)"
    using legal(1) upsert_incident_store [OF u] by simp_all
  have "sv_store (upsert_step drv now c s) = Some st'"
    using legal(2) by (simp add: upsert_step_def assms(2) u Let_def)
  moreover have "\<exists>new. sv_metrics (upsert_step drv now c s) = Some (es @ new) \<and>
      total IncidentsActive new = (if created then 1 else 0)"
    using legal(2) t(1) by (simp add: upsert_step_def assms(2) u Let_def)
  ultimately show ?thesis using run wf t(4) legal(3) by (auto intro: trackedI)
qed

lemma upserts_tracked:
  "tracked drv S0 st0 base s \<Longrightarrow> sv_store s = Some st \<Longrightarrow> upserts_legal drv now cs st \<Longrightarrow>
   tracked drv S0 st0 base (fold (upsert_step drv now) cs s)"
proof (induction cs arbitrary: s st)
  case (Cons c cs)
  from upsert_step_tracked [OF Cons.prems] Cons.IH show ?case by auto
qed simp

lemma tracked_store_change:
  assumes "tracked drv S0 st0 base s" "sv_store s = Some st" "ps_incidents st' = ps_incidents st"
    and "\<And>S. durable_run drv S0 st0 S st \<Longrightarrow> \<exists>S'. durable_run drv S0 st0 S' st'"
  shows "tracked drv S0 st0 base (s\<lparr>sv_store := Some st'\<rparr>)"
proof -
  from assms(1,2) obtain es S where t: "sv_metrics s = Some es" "durable_run drv S0 st0 S st"
      "store_wf (ps_incidents st)" "total IncidentsActive es + base = active_count (ps_incidents st)"
    by (auto simp: tracked_def)
  from assms(4) [OF t(2)] obtain S' where "durable_run drv S0 st0 S' st'" ..
  with t assms(3) show ?thesis by (intro trackedI [of _ st' es _ _ _ S']) simp_all
qed

lemma tracked_record:
  "tracked drv S0 st0 base s \<Longrightarrow> total IncidentsActive es = 0 \<Longrightarrow> tracked drv S0 st0 base (record_metrics es s)"
  by (auto simp: tracked_def)

lemma handle_ingest_tracked:
  assumes "tracked drv S0 st0 base s" "handle_ingest drv ev (rq_body rq) s = (s', resp)"
    and "legal_request drv ev rq PostTelemetry args s"
  shows "tracked drv S0 st0 base s'"
proof (cases "decode_body ev decode_ingest (rq_body rq)")
  case (Inl e)
  with assms show ?thesis by (simp add: handle_ingest_def)
next
  case (Inr req)
  from assms(1) obtain st where st: "sv_store s = Some st" by (auto simp: tracked_def)
  obtain st' r err where i: "ingest drv (iq_devices req) (iq_run_id req) (ev_now ev) st = (st', r, err)"
    by (cases "ingest drv (iq_devices req) (iq_run_id req) (ev_now ev) st")
  have t1: "tracked drv S0 st0 base (s\<lparr>sv_store := Some st'\<rparr>)"
    by (rule tracked_store_change [OF assms(1) st ingest_incidents [OF i]]) (blast intro: run_ingest [OF _ i])
  show ?thesis
  proof (cases err)
    case (Some e)
    with assms(2) Inr st i t1 show ?thesis by (simp add: handle_ingest_def)
  next
    case None
    let ?s1 = "count_ingest r (s\<lparr>sv_store := Some st'\<rparr>)"
    let ?st2 = "record_anomalies (detect (ig_valid r) (ev_now ev)) st'"
    have "tracked drv S0 st0 base ?s1" unfolding count_ingest_def using t1 by (rule tracked_record) simp
    moreover have "sv_store ?s1 = Some st'" by (simp add: count_ingest_def)
    ultimately have "tracked drv S0 st0 base (?s1\<lparr>sv_store := Some ?st2\<rparr>)"
      by (rule tracked_store_change) (simp, blast intro: run_record)
    moreover have "detect_anomalies (ig_valid r) (ev_now ev) ?s1 = ?s1\<lparr>sv_store := Some ?st2\<rparr>"
      by (simp add: detect_anomalies_def count_ingest_def)
    moreover have "upserts_legal drv (ev_now ev) (correlate (ig_valid r)) ?st2"
      using assms(3) st Inr i None by (simp add: legal_request_def)
    ultimately have "tracked drv S0 st0 base (correlate_incidents drv (ig_valid r) (ev_now ev)
        (detect_anomalies (ig_valid r) (ev_now ev) ?s1))"
      unfolding correlate_incidents_def using upserts_tracked [of drv S0 st0 base _ ?st2] by simp
    with assms(2) Inr st i None show ?thesis by (auto simp: handle_ingest_def Let_def)
  qed
qed

lemma decision_status_cases: "decision_status t = Some status \<Longrightarrow> status \<noteq> IncActive"
  by (auto simp: decision_status_def split: if_splits)

lemma handle_decide_tracked:
  assumes "tracked drv S0 st0 base s"
    and "handle_decide_incident drv ev (case args of [] \<Rightarrow> '''' | a # _ \<Rightarrow> a) (rq_body rq) s = (s', resp)"
    and "legal_request drv ev rq PostDecision args s"
  shows "tracked drv S0 st0 base s'"
proof -
  define iid where "iid = (case args of [] \<Rightarrow> '''' | a # _ \<Rightarrow> a)"
  note h = assms(2) [folded iid_def]
  from assms(1) obtain st es S where t: "sv_store s = Some st" "sv_metrics s = Some es"
      "durable_run drv S0 st0 S st" "store_wf (ps_incidents st)"
      "total IncidentsActive es + base = active_count (ps_incidents st)"
    by (auto simp: tracked_def)
  show ?thesis
  proof (cases "\<exists>req status. decode_body ev decode_decision (rq_body rq) = Inr req \<and>
      decision_status (dq_status req) = Some status")
    case False
    then have "s' = s" using h by (auto simp: handle_decide_incident_def split: sum.splits option.splits)
    with assms(1) show ?thesis by simp
  next
    case True
    then obtain req status where rq: "decode_body ev decode_decision (rq_body rq) = Inr req"
        "decision_status (dq_status req) = Some status" by blast
    obtain st' u err where d: "decide_incident drv iid status (dq_actor req) (ev_now ev) st = (st', u, err)"
      by (cases "decide_incident drv iid status (dq_actor req) (ev_now ev) st")
    have ok: "u = None \<or> err = None"
      using assms(3) t(1) rq d by (simp add: legal_request_def iid_def)
    have na: "status \<noteq> IncActive" by (rule decision_status_cases [OF rq(2)])
    have run: "durable_run drv S0 st0 S st'" by (rule run_decide [OF t(3) na d]) (use ok in auto)
    note tally = gauge.keeps [OF t(4), of "OpDecide iid status (dq_actor req) (ev_now ev)"]
      gauge.reports [OF t(4), of "OpDecide iid status (dq_actor req) (ev_now ev)"]
    show ?thesis
    proof (cases u)
      case None
      then have "ps_incidents st' = ps_incidents st" using decide_incident_store(2) d by blast
      then have "tracked drv S0 st0 base (s\<lparr>sv_store := Some st'\<rparr>)"
        using assms(1) t(1) run tracked_store_change by blast
      moreover have "s' = s\<lparr>sv_store := Some st'\<rparr>"
        using h t(1) rq d None by (auto simp: handle_decide_incident_def split: option.splits)
      ultimately show ?thesis by simp
    next
      case (Some uw)
      obtain v was where uw: "uw = (v, was)" by (cases uw)
      with ok Some have e: "err = None" by simp
      from tally na decide_incident_store(1) [OF d [unfolded Some uw]]
      have wf: "store_wf (ps_incidents st')"
          "active_count (ps_incidents st') = active_count (ps_incidents st) + (if was then - 1 else 0)"
        by simp_all
      have "sv_store s' = Some st'" "\<exists>new. sv_metrics s' = Some (es @ new) \<and>
          total IncidentsActive new = (if was then - 1 else 0)"
        using h t(1,2) rq d Some uw e by (auto simp: handle_decide_incident_def)
      then show ?thesis using run wf t(5) by (auto intro: trackedI)
    qed
  qed
qed

lemma dispatch_tracked:
  assumes "tracked drv S0 st0 base s" "dispatch drv ev rq r args s = (s', resp)" "legal_request drv ev rq r args s"
  shows "tracked drv S0 st0 base s'"
proof -
  consider "r = PostTelemetry" | "r = PostDecision" | "r = Healthz" | "s' = s"
    using assms(2) by (cases r) (auto simp: dispatch_def Let_def handle_get_telemetry_def handle_forecast_def
      handle_anomalies_def handle_list_incidents_def handle_decisions_def handle_runbook_def
      handle_list_scenarios_def handle_run_scenario_def handle_scenario_run_def split: option.splits)
  then show ?thesis
  proof cases
    case 1
    with assms(2) have "handle_ingest drv ev (rq_body rq) s = (s', resp)" by (simp add: dispatch_def)
    with assms(1,3) 1 show ?thesis using handle_ingest_tracked by blast
  next
    case 2
    with assms(2) have
      "handle_decide_incident drv ev (case args of [] \<Rightarrow> '''' | a # _ \<Rightarrow> a) (rq_body rq) s = (s', resp)"
      by (simp add: dispatch_def Let_def)
    with assms(1,3) 2 show ?thesis using handle_decide_tracked by blast
  next
    case 3
    from assms(1) obtain st where st: "sv_store s = Some st" by (auto simp: tracked_def)
    obtain st' e where p: "ping drv st = (st', e)" by fastforce
    then have "ps_incidents st' = ps_incidents st" by (auto simp: ping_def split: prod.splits)
    then have "tracked drv S0 st0 base (s\<lparr>sv_store := Some st'\<rparr>)"
      using tracked_store_change [OF assms(1) st] run_ping [OF _ p] by blast
    moreover have "s' = s\<lparr>sv_store := Some st'\<rparr>"
      using assms(2) 3 st p by (auto simp: dispatch_def handle_health_def Let_def split: option.splits)
    ultimately show ?thesis by simp
  next
    case 4
    with assms(1) show ?thesis by simp
  qed
qed

interpretation gauge_run: middleware drv
  "\<lambda>ev rq r s. \<forall>args. find_route (registered_routes s) (rq_method rq) (rq_path rq) = Some (r, args) \<longrightarrow>
     legal_request drv ev rq r args s"
  "\<lambda>s s'. tracked drv S0 st0 base s \<longrightarrow> tracked drv S0 st0 base s'"
  for drv :: "'db sql_driver" and S0 :: "device_telemetry list" and st0 :: "'db pstore" and base :: int
  by unfold_locales (auto intro: dispatch_tracked intro!: tracked_record)

lemma server_run_tracked:
  assumes "server_run drv s0 s" "tracked drv S0 st0 base s0" shows "tracked drv S0 st0 base s"
  using assms
proof (induction rule: server_run.induct)
  case (server_request s rq ev s' resp)
  have "tracked drv S0 st0 base s \<longrightarrow> tracked drv S0 st0 base s'"
    by (rule gauge_run.serve_keeps [OF server_request.hyps(3)]) (use server_request.hyps(2) in blast)
  with server_request show ?case by blast
next
  case (server_prune s st now st' res)
  have "ps_incidents st' = ps_incidents st"
    using server_prune.hyps(3) by (auto simp: prune_def split: prod.splits sum.splits)
  then show ?case
    using tracked_store_change [OF server_prune.IH [OF server_prune.prems] server_prune.hyps(2)]
      run_prune [OF _ server_prune.hyps(3)] by blast
qed simp

text \<open>
  Started on an empty database, after any sequence of HTTP requests and prunings whose incident
  statements succeed the server has one and the same incidents in memory and in the tables, and the
  gauge \<open>vyomm_incidents_active\<close> is exactly the number of active incidents, so never negative.
\<close>

lemma gauge_tracks_server:
  assumes "sql_laws drv committed pending" "pending db = None" "committed db = empty_tables"
    and "sv_store s0 = Some (initial_pstore db retention)" "sv_metrics s0 = Some []"
    and "server_run drv s0 s"
  shows "\<exists>st es. sv_store s = Some st \<and> sv_metrics s = Some es \<and>
    total IncidentsActive es = active_count (ps_incidents st) \<and> 0 \<le> total IncidentsActive es \<and>
    store_ok (ps_incidents st) \<and> mirrors (committed (ps_db st)) (ps_incidents st)"
proof -
  let ?st0 = "initial_pstore db retention"
  have "ps_incidents ?st0 = new_incident_store" by (simp add: initial_pstore_def)
  moreover have "active_count new_incident_store = 0" by (simp add: active_count_def new_incident_store_def)
  ultimately have "tracked drv [] ?st0 0 s0" using assms(4,5) by (auto intro: trackedI run_start)
  from server_run_tracked [OF assms(6) this] obtain st es S where t: "sv_store s = Some st"
      "sv_metrics s = Some es" "durable_run drv [] ?st0 S st"
      "total IncidentsActive es = active_count (ps_incidents st)"
    by (auto simp: tracked_def)
  have "durable_ok committed pending S st"
    using durable_run_ok [OF assms(1) t(3)] durable_ok_initial [of pending db committed retention] assms(2,3)
    by blast
  with t show ?thesis by (auto simp: durable_ok_def active_count_def)
qed

section \<open>The decision endpoint\<close>

text \<open>
  C22: The decision endpoint, on every branch. A malformed body or another status than resolved or
  ignored is a 400 and changes nothing; an unknown incident is a 404 and changes nothing. A known
  incident is decided in memory and the audit trail grows by this decision; the reply is 200 and
  the tables agree, or the database failed and then the reply is 404 although the incident exists
  and is decided in memory, with the tables as they were.
\<close>

theorem decide_endpoint:
  assumes "sql_laws drv committed pending" "sv_store s = Some st" "pending (ps_db st) = None"
    and "store_ok (ps_incidents st)" "mirrors (committed (ps_db st)) (ps_incidents st)"
    and "handle_decide_incident drv ev iid bdy s = (s', Some x)"
  shows "case decode_body ev decode_decision bdy of
      Inl e \<Rightarrow> s' = s \<and> rs_status x = 400
    | Inr req \<Rightarrow>
        (case decision_status (dq_status req) of
           None \<Rightarrow> s' = s \<and> rs_status x = 400
         | Some status \<Rightarrow>
             (\<exists>st'. sv_store s' = Some st' \<and>
                (case is_incidents (ps_incidents st) iid of
                   None \<Rightarrow> rs_status x = 404 \<and> st' = st
                 | Some i \<Rightarrow>
                     is_incidents (ps_incidents st') = (is_incidents (ps_incidents st))
                       (iid \<mapsto> i\<lparr>in_status := status, in_updated_at := ev_now ev\<rparr>) \<and>
                     inc_decisions (ps_incidents st') iid = inc_decisions (ps_incidents st) iid @
                       [\<lparr>de_incident_id = iid, de_status = status, de_actor = dq_actor req,
                         de_decided_at = ev_now ev\<rparr>] \<and>
                     (rs_status x = 200 \<and> mirrors (committed (ps_db st')) (ps_incidents st') \<or>
                      rs_status x = 404 \<and> committed (ps_db st') = committed (ps_db st)))))"
proof (cases "decode_body ev decode_decision bdy")
  case (Inl e)
  with assms(6) show ?thesis by (auto simp: handle_decide_incident_def)
next
  case (Inr req)
  show ?thesis
  proof (cases "decision_status (dq_status req)")
    case None
    with Inr assms(6) show ?thesis by (auto simp: handle_decide_incident_def)
  next
    case (Some status)
    obtain st' u err where d: "decide_incident drv iid status (dq_actor req) (ev_now ev) st = (st', u, err)"
      by (cases "decide_incident drv iid status (dq_actor req) (ev_now ev) st")
    have na: "status \<noteq> IncActive" by (rule decision_status_cases [OF Some])
    have s': "sv_store s' = Some st' \<and> rs_status x = (if u \<noteq> None \<and> err = None then 200 else 404)"
      using assms(2,6) Inr Some d by (auto simp: handle_decide_incident_def split: option.splits)
    show ?thesis
    proof (cases "is_incidents (ps_incidents st) iid")
      case nf: None
      then have "u = None" "st' = st" using d by (auto simp: decide_incident_def inc_decide_def)
      with s' nf Inr Some show ?thesis by simp
    next
      case fi: (Some i)
      obtain m where dm: "inc_decide iid status (dq_actor req) (ev_now ev) (ps_incidents st) =
          (m, Inr (i\<lparr>in_status := status, in_updated_at := ev_now ev\<rparr>, in_status i = IncActive))"
        using fi by (simp add: inc_decide_def Let_def)
      from dm obtain e where e: "is_incidents (ps_incidents st) iid = Some e"
          "is_incidents m = (is_incidents (ps_incidents st))
             (iid \<mapsto> i\<lparr>in_status := status, in_updated_at := ev_now ev\<rparr>)"
          "\<forall>y. inc_decisions m y = (if y = iid then inc_decisions (ps_incidents st) iid @
             [\<lparr>de_incident_id = iid, de_status = status, de_actor = dq_actor req,
               de_decided_at = ev_now ev\<rparr>] else inc_decisions (ps_incidents st) y)"
        by (rule inc_decide_Inr)
      have m: "ps_incidents st' = m" "u \<noteq> None"
        using d dm by (auto simp: decide_incident_def split: prod.splits)
      have "err = None \<Longrightarrow> mirrors (committed (ps_db st')) (ps_incidents st')"
        using sql_laws.decide_incident_mirrors [OF assms(1,3-5) na d] by simp
      moreover have "err \<noteq> None \<Longrightarrow> committed (ps_db st') = committed (ps_db st)"
        using d dm sql_laws.store_decision_law [OF assms(1,3)]
        by (auto simp: decide_incident_def split: prod.splits)
      ultimately show ?thesis using s' Inr Some fi e m by auto
    qed
  qed
qed

section \<open>A restored store is finite\<close>

lemma restored_finite:
  assumes "sql_laws drv committed pending" "pending db = None" "new_store drv (Inr db) retention boot = Inr st"
  shows "finite (dom (is_incidents (ps_incidents st)))"
proof -
  obtain ds irows all drows decided db' where
    "st = (fold append_history ds (initial_pstore db retention))
       \<lparr>ps_db := db', ps_incidents := inc_restore all decided new_incident_store\<rparr>"
    by (rule new_store_InrE [OF assms])
  then show ?thesis by (simp add: inc_restore_def Let_def fold_restore(1) finite_dom_map_of) (simp add: new_incident_store_def)
qed

end
