(* ===== verification/Endpoints.thy ===== *)
theory Endpoints
  imports ServerRuns
begin

text \<open>
  Properties of single endpoints: health, telemetry ingestion, the default forecast target and the
  encoding of a forecast.
\<close>

section \<open>Health\<close>

text \<open>
  The health endpoint asks the database: it answers 200 and \<open>ok\<close> exactly when there is a store
  whose ping succeeds, otherwise 503 and \<open>degraded\<close>, and the LLM check never claims more than
  \<open>configured\<close>.
\<close>

lemma health_reports_database:
  assumes "handle_health drv s = (s', Some x)"
  shows "\<exists>chks rest. rs_body x = Json (JObj ([(''status'', JStr (if rs_status x = 200 then ''ok'' else ''degraded'')),
        (''mode'', JStr (cf_environment_mode (sv_config s))), (''checks'', JObj chks)] @ rest)) \<and>
    rs_status x = (if \<exists>st. sv_store s = Some st \<and> snd (sd_ping drv (ps_db st)) = None then 200 else 503) \<and>
    map_of chks ''llm_provider'' =
      Some (JStr (if trim_space (cf_llm_api_key (sv_config s)) = '''' then ''fallback'' else ''configured''))"
  using assms
  by (auto simp: handle_health_def health_json_def write_json_def has_real_llm_key_def mode_label_def
      ping_def Let_def split: option.splits prod.splits if_splits)

section \<open>What one telemetry request does\<close>

fun upserts_fresh :: "gotime \<Rightarrow> candidate list \<Rightarrow> incident_store \<Rightarrow> bool" where
  "upserts_fresh now [] m \<longleftrightarrow> True"
| "upserts_fresh now (c # cs) m \<longleftrightarrow> fresh_id c now m \<and> upserts_fresh now cs (fst (inc_upsert c now m))"

lemma upsert_keeps:
  assumes "fresh_id c now m" "is_incidents m iid = Some i"
  shows "is_incidents (fst (inc_upsert c now m)) iid = Some i"
  using assms by (cases rule: inc_upsert_cases [of m c now]) (auto simp: fresh_id_def)

lemma upsert_active:
  assumes "store_ok m"
  shows "\<exists>iid i. is_incidents (fst (inc_upsert c now m)) iid = Some i \<and>
    in_occurrence_key i = cd_occurrence_key c \<and> in_status i = IncActive"
proof (cases rule: inc_upsert_cases [of m c now])
  case (dup l)
  have "linked m" "active_is_last m" using assms by (simp_all add: store_ok_def)
  from dup(1) active_last_iff [OF this] dup(2) show ?thesis by auto
next
  case (new i)
  then show ?thesis by (intro exI [of _ "in_id i"] exI [of _ i]) simp
qed

lemma upserts_active:
  assumes "store_ok m" "upserts_fresh now cs m"
  shows "(\<forall>iid i. is_incidents m iid = Some i \<longrightarrow>
      is_incidents (fold (\<lambda>c m. fst (inc_upsert c now m)) cs m) iid = Some i) \<and>
    (\<forall>c \<in> set cs. \<exists>iid i. is_incidents (fold (\<lambda>c m. fst (inc_upsert c now m)) cs m) iid = Some i \<and>
      in_occurrence_key i = cd_occurrence_key c \<and> in_status i = IncActive)"
  using assms
proof (induction cs arbitrary: m)
  case (Cons c cs)
  let ?m = "fst (inc_upsert c now m)"
  have ok: "store_ok ?m"
    using store_ok_upsert [of m c now ?m "fst (snd (inc_upsert c now m))" "snd (snd (inc_upsert c now m))"]
      Cons.prems by simp
  from Cons.IH [OF ok] Cons.prems(2) have IH:
      "\<forall>iid i. is_incidents ?m iid = Some i \<longrightarrow>
         is_incidents (fold (\<lambda>c m. fst (inc_upsert c now m)) cs ?m) iid = Some i"
      "\<forall>c \<in> set cs. \<exists>iid i. is_incidents (fold (\<lambda>c m. fst (inc_upsert c now m)) cs ?m) iid = Some i \<and>
         in_occurrence_key i = cd_occurrence_key c \<and> in_status i = IncActive"
    by simp_all
  from IH(1) upsert_active [OF Cons.prems(1), of c now]
  have "\<exists>iid i. is_incidents (fold (\<lambda>c m. fst (inc_upsert c now m)) cs ?m) iid = Some i \<and>
      in_occurrence_key i = cd_occurrence_key c \<and> in_status i = IncActive" by blast
  with IH upsert_keeps [of c now m] Cons.prems(2) show ?case by auto
qed simp

lemma upserts_memory:
  assumes "sv_store s = Some st"
  shows "\<exists>st'. sv_store (fold (upsert_step drv now) cs s) = Some st' \<and>
    ps_incidents st' = fold (\<lambda>c m. fst (inc_upsert c now m)) cs (ps_incidents st) \<and>
    ps_history st' = ps_history st \<and> ps_anomalies st' = ps_anomalies st"
  using assms
proof (induction cs arbitrary: s st)
  case (Cons c cs)
  obtain st1 inc created err where u: "upsert_incident drv c now st = (st1, inc, created, err)"
    by (cases "upsert_incident drv c now st")
  have "sv_store (upsert_step drv now c s) = Some st1" by (simp add: upsert_step_def Cons.prems u Let_def)
  from Cons.IH [OF this] upsert_incident_store [OF u] upsert_incident_memory [OF u] show ?case by auto
qed simp

lemma ingest_endpoint_law:
  assumes "sql_laws drv committed pending" "sv_store s = Some st" "pending (ps_db st) = None"
    and "store_ok (ps_incidents st)" "remembers st S" "decode_body ev decode_ingest bdy = Inr req"
    and "upserts_fresh (ev_now ev) (correlate (filter (\<lambda>d. validate d = None) (iq_devices req))) (ps_incidents st)"
    and "handle_ingest drv ev bdy s = (s', Some x)" "rs_status x = 200"
  defines "valid \<equiv> filter (\<lambda>d. validate d = None) (iq_devices req)"
  shows "\<exists>st'. sv_store s' = Some st' \<and>
    (\<forall>h. device_history st' h = take_last 90 (filter (\<lambda>d. hostname d = h) (S @ valid))) \<and>
    ps_anomalies st' = ps_anomalies (record_anomalies (detect valid (ev_now ev)) st) \<and>
    (\<forall>c \<in> set (correlate valid). \<exists>iid i. is_incidents (ps_incidents st') iid = Some i \<and>
       in_occurrence_key i = cd_occurrence_key c \<and> in_status i = IncActive) \<and>
    (\<forall>iid i. is_incidents (ps_incidents st) iid = Some i \<longrightarrow> is_incidents (ps_incidents st') iid = Some i)"
proof -
  obtain st1 r err where i: "ingest drv (iq_devices req) (iq_run_id req) (ev_now ev) st = (st1, r, err)"
    by (cases "ingest drv (iq_devices req) (iq_run_id req) (ev_now ev) st")
  note law = ingest_law [OF assms(1,3,5) i, folded valid_def]
  have ok: "err = None" using assms(2,6,8,9) i by (cases err) (auto simp: handle_ingest_def)
  with law have r: "ig_valid r = valid" "remembers st1 (S @ valid)" "ps_incidents st1 = ps_incidents st"
      "ps_anomalies st1 = ps_anomalies st" by simp_all
  let ?st2 = "record_anomalies (detect valid (ev_now ev)) st1"
  let ?s2 = "detect_anomalies valid (ev_now ev) (count_ingest r (s\<lparr>sv_store := Some st1\<rparr>))"
  have s2: "sv_store ?s2 = Some ?st2" by (simp add: detect_anomalies_def count_ingest_def)
  have s': "s' = fold (upsert_step drv (ev_now ev)) (correlate valid) ?s2"
    using assms(2,6,8) i ok r(1) by (auto simp: handle_ingest_def correlate_incidents_def Let_def)
  from upserts_memory [OF s2, of drv "ev_now ev" "correlate valid"] obtain st' where
    st': "sv_store s' = Some st'" "ps_history st' = ps_history ?st2" "ps_anomalies st' = ps_anomalies ?st2"
      "ps_incidents st' = fold (\<lambda>c m. fst (inc_upsert c (ev_now ev) m)) (correlate valid) (ps_incidents st)"
    unfolding s' using r(3) by auto
  have "device_history st' h = take_last 90 (filter (\<lambda>d. hostname d = h) (S @ valid))" for h
    using r(2) st'(2) by (simp add: remembers_def device_history_def record_anomalies_def Let_def)
  moreover have "ps_anomalies st' = ps_anomalies (record_anomalies (detect valid (ev_now ev)) st)"
    using st'(3) r(4) by (simp add: record_anomalies_def Let_def)
  ultimately show ?thesis
    using upserts_active [OF assms(4,7)] st'(1) unfolding valid_def [symmetric] st'(4) [symmetric]
    by (intro exI [of _ st']) simp
qed

text \<open>
  C21: A telemetry request answered with 200 has done all of its work in memory, whatever the database
  did with the incidents: the accepted samples are in the histories, their anomalies in the buffer,
  every fault the rules find among them has an active incident, and no incident that existed before
  has changed: telemetry never closes or reopens one.
\<close>

theorem ingest_endpoint:
  assumes "sql_laws drv committed pending" "sv_store s = Some st" "pending (ps_db st) = None"
    and "store_ok (ps_incidents st)" "remembers st S" "decode_body ev decode_ingest bdy = Inr req"
    and "upserts_fresh (ev_now ev) (correlate (filter (\<lambda>d. validate d = None) (iq_devices req))) (ps_incidents st)"
    and "handle_ingest drv ev bdy s = (s', Some x)" "rs_status x = 200"
  defines "valid \<equiv> filter (\<lambda>d. validate d = None) (iq_devices req)"
  shows "\<exists>st'. sv_store s' = Some st' \<and>
    (\<forall>h. device_history st' h = take_last 90 (filter (\<lambda>d. hostname d = h) (S @ valid))) \<and>
    ps_anomalies st' = ps_anomalies (record_anomalies (detect valid (ev_now ev)) st) \<and>
    (\<forall>c \<in> set (correlate valid). \<exists>iid i. is_incidents (ps_incidents st') iid = Some i \<and>
       in_occurrence_key i = cd_occurrence_key c \<and> in_status i = IncActive) \<and>
    (\<forall>iid i. is_incidents (ps_incidents st) iid = Some i \<longrightarrow> is_incidents (ps_incidents st') iid = Some i)"
  unfolding valid_def by (rule ingest_endpoint_law [OF assms(1-9)])

section \<open>The default forecast target\<close>

lemma risk_weights:
  "\<exists>a. flit (35 / 100) = Fin a \<and> 0 < a" "\<exists>a. flit (2 / 10) = Fin a \<and> 0 < a"
proof -
  have "\<exists>a. flit q = Fin a \<and> 0 < a" if "1 / 8 \<le> q" "q \<le> 1" for q :: rat
  proof -
    have "rnd (1 / 8) \<le> rnd q" by (rule rnd_mono [OF that(1)])
    with rnd_bounded [of 0 q 1] that show ?thesis by (simp add: flit_def f64_simps)
  qed
  then show "\<exists>a. flit (35 / 100) = Fin a \<and> 0 < a" "\<exists>a. flit (2 / 10) = Fin a \<and> 0 < a" by simp_all
qed

lemma risk_score_number:
  assumes "sample_ok d" shows "risk_score d \<noteq> NaN"
proof -
  from assms obtain c m l p where v: "cpu_percent d = Fin c" "memory_percent d = Fin m" "latency_ms d = Fin l"
      "packet_loss_percent d = Fin p" "0 \<le> c" "0 \<le> m" "0 \<le> l" "0 \<le> p"
    by (auto simp: sample_ok_def)
  obtain a b where w: "flit (35 / 100) = Fin a" "0 < a" "flit (2 / 10) = Fin b" "0 < b" using risk_weights by auto
  have q: "flit (25 / 100) = Fin (1 / 4)" "flit 8 = Fin 8" by (simp_all add: flit_def f64_simps)
  have f: "Fin 0 \<le> Fin x * Fin y" if "0 \<le> x" "0 < y" for x y
    by (rule f64_nonneg(2) [OF _ that(2)]) (use that in simp)
  have "Fin 0 \<le> risk_score d"
    unfolding risk_score_def v w(1,3) q by (intro f64_nonneg(1) f) (use v w in auto)
  then show ?thesis by (cases "risk_score d") auto
qed

text \<open>The running maximum keeps the first of the largest.\<close>

lemma risk_fold:
  assumes "\<forall>e \<in> set (d # ds). risk_score e \<noteq> NaN"
  shows "\<exists>b pre post. fold risk_step ds (d, risk_score d) = (b, risk_score b) \<and> d # ds = pre @ b # post \<and>
    (\<forall>e \<in> set pre. risk_score e < risk_score b) \<and> (\<forall>e \<in> set post. risk_score e \<le> risk_score b)"
  using assms
proof (induction ds rule: rev_induct)
  case Nil
  then show ?case by (intro exI [of _ d] exI [of _ "[]"]) simp
next
  case (snoc x ds)
  then obtain b pre post where b: "fold risk_step ds (d, risk_score d) = (b, risk_score b)"
      "d # ds = pre @ b # post" "\<forall>e \<in> set pre. risk_score e < risk_score b"
      "\<forall>e \<in> set post. risk_score e \<le> risk_score b" by auto
  have nn: "risk_score x \<noteq> NaN" "risk_score b \<noteq> NaN"
  proof -
    have "b \<in> set (d # ds)" unfolding b(2) by simp
    with snoc.prems show "risk_score x \<noteq> NaN" "risk_score b \<noteq> NaN" by auto
  qed
  show ?case
  proof (cases "risk_score b < risk_score x")
    case True
    have "risk_score e \<le> risk_score b" if "e \<in> set pre" for e
      using b(3) that by (simp add: less_eq_f64_def)
    then have "\<forall>e \<in> set (pre @ b # post). risk_score e \<le> risk_score b"
      using b(4) f64_le_refl [OF nn(2)] by auto
    then have "\<forall>e \<in> set (d # ds). risk_score e < risk_score x"
      unfolding b(2) using f64_le_less_trans [OF _ True] by blast
    moreover have "fold risk_step (ds @ [x]) (d, risk_score d) = (x, risk_score x)"
      unfolding fold_append comp_apply b(1) using True by (simp add: risk_step_def)
    ultimately show ?thesis by (intro exI [of _ x] exI [of _ "d # ds"] exI [of _ "[]"]) simp
  next
    case False
    then have "risk_score x \<le> risk_score b" using not_less_f64 nn by blast
    moreover have "fold risk_step (ds @ [x]) (d, risk_score d) = (b, risk_score b)"
      unfolding fold_append comp_apply b(1) using False by (simp add: risk_step_def)
    ultimately show ?thesis using b(2-4) by (intro exI [of _ b] exI [of _ pre] exI [of _ "post @ [x]"]) auto
  qed
qed

text \<open>
  Without a device parameter the forecast is for the device of highest risk: no known device has a
  larger score, among equals it is the first by name, and the choice does not depend on the order
  of the map. It is empty exactly when no device is known.
\<close>

lemma riskiest_is_maximal:
  assumes "remembers st S" "\<forall>d \<in> set S. sample_ok d" "distinct order" "set order = dom (ps_latest st)"
  shows "(riskiest_device order st = '''' \<longleftrightarrow> S = []) \<and>
    (S \<noteq> [] \<longrightarrow> (\<exists>d. ps_latest st (riskiest_device order st) = Some d \<and>
       (\<forall>h e. ps_latest st h = Some e \<longrightarrow> risk_score e \<le> risk_score d \<and>
          (risk_score e = risk_score d \<longrightarrow> riskiest_device order st \<le> h))))"
proof -
  let ?ds = "latest_devices order st"
  have sorted: "sorted_wrt (<) (map hostname ?ds)" and ran: "set ?ds = ran (ps_latest st)"
      and hosts: "set (map hostname ?ds) = hostname ` set S"
    using latest_devices_law [OF assms(1,3,4)] by blast+
  have stored: "d \<in> set S \<and> hostname d = h" if "ps_latest st h = Some d" for h d
  proof -
    have "d = last (filter (\<lambda>d. hostname d = h) S)" "filter (\<lambda>d. hostname d = h) S \<noteq> []"
      using assms(1) that by (auto simp: remembers_def Let_def split: if_splits)
    then have "d \<in> set (filter (\<lambda>d. hostname d = h) S)" by (metis last_in_set)
    then show ?thesis by auto
  qed
  show ?thesis
  proof (cases ?ds)
    case Nil
    with hosts have "S = []" by simp
    with Nil show ?thesis by (simp add: riskiest_device_def)
  next
    case (Cons d ds)
    have num: "\<forall>e \<in> set (d # ds). risk_score e \<noteq> NaN"
      using ran stored assms(2) risk_score_number unfolding Cons [symmetric] by (auto simp: ran_def)
    from risk_fold [OF num] obtain b pre post where b:
        "fold risk_step ds (d, risk_score d) = (b, risk_score b)" "d # ds = pre @ b # post"
        "\<forall>e \<in> set pre. risk_score e < risk_score b" "\<forall>e \<in> set post. risk_score e \<le> risk_score b" by blast
    have r: "riskiest_device order st = hostname b" using b(1) by (simp add: riskiest_device_def Cons)
    have "b \<in> ran (ps_latest st)" unfolding ran [symmetric] Cons b(2) by simp
    then have latest: "ps_latest st (hostname b) = Some b" using stored by (auto simp: ran_def)
    have max: "risk_score e \<le> risk_score b \<and> (risk_score e = risk_score b \<longrightarrow> hostname b \<le> h)"
      if e: "ps_latest st h = Some e" for h e
    proof -
      have h: "hostname e = h" using stored [OF e] by simp
      have "e \<in> set (pre @ b # post)" using e ran unfolding Cons b(2) by (auto simp: ran_def)
      then consider "e \<in> set pre" | "e = b" | "e \<in> set post" by auto
      then show ?thesis
      proof cases
        case 1
        then have "risk_score e < risk_score b" using b(3) by blast
        moreover have "\<not> risk_score b < risk_score b" by (cases "risk_score b") auto
        moreover from \<open>risk_score e < risk_score b\<close> have "risk_score e \<le> risk_score b"
          by (simp add: less_eq_f64_def)
        ultimately show ?thesis by metis
      next
        case 2
        have "risk_score b \<noteq> NaN" using num unfolding b(2) by simp
        with 2 h show ?thesis by simp
      next
        case 3
        have "sorted_wrt (<) (map hostname (pre @ b # post))" using sorted unfolding Cons b(2) .
        with 3 have "hostname b < hostname e" by (auto simp: sorted_wrt_append)
        with 3 b(4) h show ?thesis by auto
      qed
    qed
    have "hostname b \<noteq> ''''" using stored [OF latest] assms(2) by (auto simp: sample_ok_def)
    moreover have "S \<noteq> []" using stored [OF latest] by auto
    ultimately show ?thesis using r latest max by auto
  qed
qed

section \<open>A forecast that cannot be encoded\<close>

lemma rnd_overflow: "2 powi 1024 \<le> x \<Longrightarrow> rnd x = PInf"
proof -
  assume x: "2 powi 1024 \<le> x"
  have "roundq (2 powi 1024) = 2 powi 1024" using roundq_exact [of 1 1024] by simp
  then have "rnd (2 powi 1024) = PInf" by (simp add: rnd_def f64_limit_powi Let_def)
  with rnd_mono [OF x] show ?thesis by (cases "rnd x") auto
qed

text \<open>
  C40: Latency has no upper bound in validation, and the projection can overflow: two accepted samples
  whose latency goes from 0 to at least 2 ^ 1022 ms make every forecast of that device an empty
  body under status 200, since an infinite float has no JSON.
\<close>

theorem forecast_overflow_empty:
  assumes "sv_store s = Some st" "device_history st h = [d1, d2]" "h \<noteq> ''''"
    and "finite_sample d1" "finite_sample d2" "latency_ms d1 = Fin 0" "latency_ms d2 = Fin l" "2 powi 1022 \<le> l"
  shows "\<exists>x. handle_forecast ev h s = (s, Some x) \<and> rs_status x = 200 \<and> rs_body x = EncodingFailed"
proof -
  let ?H = "[d1, d2]"
  have l: "rnd l = Fin l" using assms(5,7) rnd_finite64 by (simp add: finite_sample_def)
  have "(2 powi 1024 :: rat) = 4 * 2 powi 1022" using power_int_add [of "2::rat" 2 1022] by simp
  also have "\<dots> \<le> l * 6" using assms(8) by (simp add: mult.commute)
  finally have big: "rnd (l * 6) = PInf" by (rule rnd_overflow)
  have one: "f64_of_int 1 = Fin 1" "f64_of_int 6 = Fin 6" by (simp_all add: f64_of_int_def f64_simps)
  have "project [Fin 0, Fin l] 6 = PInf"
    using l big by (simp add: project_def one)
  then have inf: "fp_latency_ms (forecast_point_at (extract_series ?H cpu_percent)
      (extract_series ?H latency_ms) (extract_series ?H packet_loss_percent) 6) = PInf"
    by (simp add: forecast_point_at_def extract_series_def assms(6,7))
  let ?P = "map (forecast_point_at (extract_series ?H cpu_percent) (extract_series ?H latency_ms)
      (extract_series ?H packet_loss_percent)) [1..<7]"
  have pts: "fr_points (build_forecast h ?H) = ?P"
    using assms(3) by (simp add: build_forecast_def Let_def)
  have enc: "\<exists>js. those (map forecast_point_json ps) = Some js \<and> ((\<forall>j \<in> set js. encodable j) \<longrightarrow>
      (\<forall>p \<in> set ps. finite64 (fp_latency_ms p)))"
    if "\<forall>p \<in> set ps. in_int64 (fp_label_minutes p)" for ps
    using that
  proof (induction ps)
    case (Cons p ps)
    then obtain js where js: "those (map forecast_point_json ps) = Some js"
        "(\<forall>j \<in> set js. encodable j) \<longrightarrow> (\<forall>p \<in> set ps. finite64 (fp_latency_ms p))" by auto
    have "format_label (fp_label_minutes p) \<noteq> None"
      using Cons.prems by (simp add: format_label_def itoa_law)
    then obtain j where "forecast_point_json p = Some j" "encodable j \<longrightarrow> finite64 (fp_latency_ms p)"
      by (auto simp: forecast_point_json_def)
    then show ?case using js by (intro exI [of _ "j # js"]) simp
  qed simp
  have "\<forall>p \<in> set ?P. in_int64 (fp_label_minutes p)" by (auto simp: forecast_point_at_def)
  from enc [OF this] obtain js where js: "those (map forecast_point_json ?P) = Some js"
      "(\<forall>j \<in> set js. encodable j) \<longrightarrow> (\<forall>p \<in> set ?P. finite64 (fp_latency_ms p))" by blast
  have "\<exists>p \<in> set ?P. \<not> finite64 (fp_latency_ms p)"
    by (rule bexI [of _ "forecast_point_at (extract_series ?H cpu_percent) (extract_series ?H latency_ms)
      (extract_series ?H packet_loss_percent) 6"]) (use inf in auto)
  with js(2) have "\<exists>j \<in> set js. \<not> encodable j" by blast
  then have "write_json 200 (the (forecast_json (build_forecast h ?H) (mode_label s) (sv_run_id s) (ev_now ev))) =
      \<lparr>rs_status = 200, rs_headers = [(''Content-Type'', ''application/json'')], rs_body = EncodingFailed\<rparr>"
    unfolding forecast_json_def pts js(1) by (auto simp: write_json_def)
  moreover have "\<exists>j. forecast_json (build_forecast h ?H) (mode_label s) (sv_run_id s) (ev_now ev) = Some j"
    unfolding forecast_json_def pts js(1) by simp
  ultimately show ?thesis using assms(1-3) by (auto simp: handle_forecast_def Let_def)
qed

end
