(* ===== verification/Logging.thy ===== *)
theory Logging
  imports GoLib
begin

text \<open>
  \<open>internal/observability/logging/logger.go\<close>: the redaction of secret-shaped text and the handler
  that applies it. Strings are bytes; under \<open>(?i)\<close> the letters k and s also match the Kelvin sign
  and the long s, whose UTF-8 bytes are written out. The pattern is described twice: as a set of
  words, \<open>secret\<close>, and as the matcher the replacement runs. Each of its repetitions is either last
  or followed by characters it cannot take, so matching never has to backtrack.
\<close>

section \<open>The pattern as a set of words\<close>

definition kelvin_sign :: string where "kelvin_sign = [CHR 0xE2, CHR 0x84, CHR 0xAA]"
definition long_s :: string where "long_s = [CHR 0xC5, CHR 0xBF]"

text \<open>The spellings of a lower-case letter, or of any other character.\<close>

definition forms :: "char \<Rightarrow> string set" where
  "forms c = {[x] | x. lower_char x = c} \<union> (if c = CHR ''k'' then {kelvin_sign} else {}) \<union>
     (if c = CHR ''s'' then {long_s} else {})"

definition is_alnum :: "char \<Rightarrow> bool" where
  "is_alnum c \<longleftrightarrow> is_digit c \<or> (CHR ''a'' \<le> lower_char c \<and> lower_char c \<le> CHR ''z'')"

definition is_token :: "char \<Rightarrow> bool" where
  "is_token c \<longleftrightarrow> is_alnum c \<or> c = CHR ''.'' \<or> c = CHR ''_'' \<or> c = CHR ''-''"

definition is_re_space :: "char \<Rightarrow> bool" where
  "is_re_space c \<longleftrightarrow> c \<in> {CHR 0x09, CHR 0x0A, CHR 0x0C, CHR 0x0D, CHR '' ''}"

definition class_forms :: "(char \<Rightarrow> bool) \<Rightarrow> string set" where
  "class_forms P = {[x] | x. P x} \<union> {kelvin_sign, long_s}"

definition space_forms :: "string set" where
  "space_forms = {[x] | x. is_re_space x}"

definition spelled :: "string \<Rightarrow> string set" where
  "spelled cs = {concat hs | hs. list_all2 (\<lambda>c h. h \<in> forms c) cs hs}"

definition repeated :: "nat \<Rightarrow> string set \<Rightarrow> string set" where
  "repeated n F = {concat ws | ws. n \<le> length ws \<and> set ws \<subseteq> F}"

definition secret :: "string \<Rightarrow> bool" where
  "secret w \<longleftrightarrow>
     (\<exists>a b. w = a @ b \<and> a \<in> spelled ''gsk_'' \<and> b \<in> repeated 1 (class_forms is_alnum)) \<or>
     (\<exists>a b. w = a @ b \<and> a \<in> spelled ''sk-'' \<and> b \<in> repeated 16 (class_forms is_alnum)) \<or>
     (\<exists>a b c. w = a @ b @ c \<and> a \<in> spelled ''bearer'' \<and> b \<in> repeated 1 space_forms \<and>
        c \<in> repeated 1 (class_forms is_token))"

section \<open>The matcher\<close>

text \<open>A reader consumes one item at the front of the text: \<open>Some\<close> the rest.\<close>

definition read_char :: "char \<Rightarrow> string \<Rightarrow> string option" where
  "read_char c s =
     (case s of
        [] \<Rightarrow> None
      | x # xs \<Rightarrow>
          if lower_char x = c then Some xs
          else if c = CHR ''k'' \<and> prefix kelvin_sign s then Some (drop 3 s)
          else if c = CHR ''s'' \<and> prefix long_s s then Some (drop 2 s)
          else None)"

definition read_class :: "(char \<Rightarrow> bool) \<Rightarrow> string \<Rightarrow> string option" where
  "read_class P s =
     (case s of
        [] \<Rightarrow> None
      | x # xs \<Rightarrow>
          if P x then Some xs
          else if prefix kelvin_sign s then Some (drop 3 s)
          else if prefix long_s s then Some (drop 2 s)
          else None)"

definition read_space :: "string \<Rightarrow> string option" where
  "read_space s = (case s of [] \<Rightarrow> None | x # xs \<Rightarrow> if is_re_space x then Some xs else None)"

fun read_word :: "string \<Rightarrow> string \<Rightarrow> string option" where
  "read_word [] s = Some s"
| "read_word (c # cs) s = Option.bind (read_char c s) (read_word cs)"

text \<open>The greedy repetition; the fuel is the length of the text, and every item takes at least one
  character.\<close>

fun read_many :: "(string \<Rightarrow> string option) \<Rightarrow> nat \<Rightarrow> string \<Rightarrow> nat \<times> string" where
  "read_many reader 0 s = (0, s)"
| "read_many reader (Suc n) s =
     (case reader s of
        None \<Rightarrow> (0, s)
      | Some r \<Rightarrow> (let (k, r') = read_many reader n r in (Suc k, r')))"

definition at_least :: "nat \<Rightarrow> (string \<Rightarrow> string option) \<Rightarrow> string \<Rightarrow> string option" where
  "at_least n reader s = (let (k, r) = read_many reader (length s) s in if k < n then None else Some r)"

definition match_at :: "string \<Rightarrow> string option" where
  "match_at s =
     (case Option.bind (read_word ''gsk_'' s) (at_least 1 (read_class is_alnum)) of
        Some r \<Rightarrow> Some r
      | None \<Rightarrow>
          (case Option.bind (read_word ''sk-'' s) (at_least 16 (read_class is_alnum)) of
             Some r \<Rightarrow> Some r
           | None \<Rightarrow> Option.bind (Option.bind (read_word ''bearer'' s) (at_least 1 read_space))
               (at_least 1 (read_class is_token))))"

section \<open>The readers read the words\<close>

text \<open>A reader for a set of words, none of which is empty or the beginning of another.\<close>

locale reads =
  fixes reader :: "string \<Rightarrow> string option" and F :: "string set"
  assumes reads: "reader s = Some r \<longleftrightarrow> (\<exists>f \<in> F. s = f @ r)"
    and nonempty: "[] \<notin> F"
begin

lemma reader_shorter: "reader s = Some r \<Longrightarrow> length r < length s"
  using reads nonempty by (metis add_diff_cancel_right' length_append length_greater_0_conv less_add_same_cancel2)

lemma reader_form [simp]: "f \<in> F \<Longrightarrow> reader (f @ r) = Some r"
  using reads by blast

lemma read_many_sound:
  "read_many reader n s = (k, r) \<Longrightarrow> \<exists>ws. s = concat ws @ r \<and> length ws = k \<and> set ws \<subseteq> F"
proof (induction n arbitrary: s k r)
  case (Suc n)
  show ?case
  proof (cases "reader s")
    case None
    with Suc.prems show ?thesis by (intro exI [of _ "[]"]) auto
  next
    case (Some t)
    then obtain f where f: "f \<in> F" "s = f @ t" using reads by blast
    obtain j where j: "read_many reader n t = (j, r)" "k = Suc j"
      using Suc.prems Some by (auto simp: Let_def split: prod.splits)
    obtain ws where "t = concat ws @ r" "length ws = j" "set ws \<subseteq> F" using Suc.IH [OF j(1)] by blast
    with f j show ?thesis by (intro exI [of _ "f # ws"]) simp
  qed
qed simp

lemma read_many_complete:
  assumes "set ws \<subseteq> F" and "length (concat ws @ v) \<le> n"
  shows "\<exists>j r. read_many reader n (concat ws @ v) = (length ws + j, r) \<and> (reader v = None \<longrightarrow> j = 0 \<and> r = v)"
  using assms
proof (induction ws arbitrary: n)
  case Nil
  show ?case
  proof (cases "reader v = None")
    case True
    then show ?thesis by (cases n) auto
  next
    case False
    then show ?thesis by (cases "read_many reader n v") auto
  qed
next
  case (Cons f ws)
  then have f: "f \<in> F" by simp
  then have "f \<noteq> []" using nonempty by blast
  with Cons.prems obtain m where n: "n = Suc m" and "length (concat ws @ v) \<le> m"
    by (cases n; cases f) auto
  from Cons.IH [OF _ this(2)] Cons.prems obtain j r
    where "read_many reader m (concat ws @ v) = (length ws + j, r)" "reader v = None \<longrightarrow> j = 0 \<and> r = v" by auto
  with f n show ?case by (intro exI [of _ j] exI [of _ r]) (simp add: Let_def)
qed

lemma at_least_sound: "at_least n reader s = Some r \<Longrightarrow> \<exists>w \<in> repeated n F. s = w @ r"
  using read_many_sound by (fastforce simp: at_least_def repeated_def Let_def split: prod.splits if_splits)

lemma at_least_complete:
  assumes "w \<in> repeated n F"
  shows "\<exists>r. at_least n reader (w @ v) = Some r \<and> (reader v = None \<longrightarrow> r = v)"
proof -
  from assms obtain ws where ws: "w = concat ws" "n \<le> length ws" "set ws \<subseteq> F" by (auto simp: repeated_def)
  from read_many_complete [OF ws(3) order_refl, of v] ws show ?thesis
    by (auto simp: at_least_def Let_def)
qed

lemma at_least_iff: "at_least n reader s \<noteq> None \<longleftrightarrow> (\<exists>w \<in> repeated n F. prefix w s)"
  using at_least_sound at_least_complete by (metis not_None_eq prefixE prefixI)

lemma at_least_shorter: "at_least n reader s = Some r \<Longrightarrow> length r \<le> length s"
  using at_least_sound by fastforce

end

section \<open>The instances\<close>


lemma lower_char_marks [simp]: "lower_char (CHR 0xE2) = CHR 0xE2" "lower_char (CHR 0xC5) = CHR 0xC5"
  by (simp_all add: lower_char_def less_eq_char_def)

lemma class_reads:
  assumes "\<not> P (CHR 0xE2)" and "\<not> P (CHR 0xC5)"
  shows "reads (read_class P) (class_forms P)"
proof
  show "read_class P s = Some r \<longleftrightarrow> (\<exists>f \<in> class_forms P. s = f @ r)" for s r
  proof (cases s)
    case Nil
    then show ?thesis by (auto simp: read_class_def class_forms_def kelvin_sign_def long_s_def)
  next
    case (Cons x xs)
    with assms show ?thesis
      by (auto simp: read_class_def class_forms_def kelvin_sign_def long_s_def prefix_def)
  qed
qed (simp add: class_forms_def kelvin_sign_def long_s_def)

lemma alnum_marks [simp]: "\<not> is_alnum (CHR 0xE2)" "\<not> is_alnum (CHR 0xC5)"
  by (simp_all add: is_alnum_def is_digit_def less_eq_char_def)

lemma token_marks [simp]: "\<not> is_token (CHR 0xE2)" "\<not> is_token (CHR 0xC5)"
  by (simp_all add: is_token_def)

interpretation alnum: reads "read_class is_alnum" "class_forms is_alnum"
  by (rule class_reads) simp_all

interpretation token: reads "read_class is_token" "class_forms is_token"
  by (rule class_reads) simp_all

interpretation space: reads read_space space_forms
  by unfold_locales (auto simp: read_space_def space_forms_def split: list.splits)

lemma char_reads:
  assumes "c \<noteq> CHR 0xE2" and "c \<noteq> CHR 0xC5"
  shows "reads (read_char c) (forms c)"
proof
  show "read_char c s = Some r \<longleftrightarrow> (\<exists>f \<in> forms c. s = f @ r)" for s r
  proof (cases s)
    case Nil
    then show ?thesis by (auto simp: read_char_def forms_def kelvin_sign_def long_s_def)
  next
    case (Cons x xs)
    show ?thesis
    proof (cases "lower_char x = c")
      case True
      with assms have "x \<noteq> CHR 0xE2" "x \<noteq> CHR 0xC5" by auto
      with True Cons show ?thesis by (auto simp: read_char_def forms_def kelvin_sign_def long_s_def)
    next
      case False
      consider "c = CHR ''k''" | "c = CHR ''s''" | "c \<noteq> CHR ''k''" "c \<noteq> CHR ''s''" by blast
      then show ?thesis
        using False Cons by cases (auto simp: read_char_def forms_def kelvin_sign_def long_s_def prefix_def)
    qed
  qed
qed (simp add: forms_def kelvin_sign_def long_s_def)

lemma spelled_Cons: "w \<in> spelled (c # cs) \<longleftrightarrow> (\<exists>f \<in> forms c. \<exists>u \<in> spelled cs. w = f @ u)"
proof
  assume "w \<in> spelled (c # cs)"
  then obtain hs where "w = concat hs" "list_all2 (\<lambda>c h. h \<in> forms c) (c # cs) hs"
    unfolding spelled_def by blast
  then show "\<exists>f \<in> forms c. \<exists>u \<in> spelled cs. w = f @ u"
    by (cases hs) (auto simp: spelled_def)
next
  assume "\<exists>f \<in> forms c. \<exists>u \<in> spelled cs. w = f @ u"
  then obtain f hs where "f \<in> forms c" "w = f @ concat hs" "list_all2 (\<lambda>c h. h \<in> forms c) cs hs"
    unfolding spelled_def by blast
  then have "w = concat (f # hs)" "list_all2 (\<lambda>c h. h \<in> forms c) (c # cs) (f # hs)" by simp_all
  then show "w \<in> spelled (c # cs)" unfolding spelled_def by blast
qed

lemma read_word_iff:
  assumes "\<forall>c \<in> set cs. c \<noteq> CHR 0xE2 \<and> c \<noteq> CHR 0xC5"
  shows "read_word cs s = Some r \<longleftrightarrow> (\<exists>w \<in> spelled cs. s = w @ r)"
  using assms
proof (induction cs arbitrary: s)
  case Nil
  show ?case by (auto simp: spelled_def)
next
  case (Cons c cs)
  have c: "read_char c s = Some t \<longleftrightarrow> (\<exists>f \<in> forms c. s = f @ t)" for t
    using reads.reads [OF char_reads] Cons.prems by simp
  have "read_word (c # cs) s = Some r \<longleftrightarrow> (\<exists>f \<in> forms c. \<exists>t. s = f @ t \<and> (\<exists>u \<in> spelled cs. t = u @ r))"
    using Cons.IH Cons.prems by (auto simp: bind_eq_Some_conv c)
  also have "\<dots> \<longleftrightarrow> (\<exists>w \<in> spelled (c # cs). s = w @ r)"
    by (simp add: Bex_def spelled_Cons) (metis append_assoc)
  finally show ?case .
qed

section \<open>Matching is containment of a secret\<close>

lemma word_chars [simp]:
  "read_word ''gsk_'' s = Some r \<longleftrightarrow> (\<exists>w \<in> spelled ''gsk_''. s = w @ r)"
  "read_word ''sk-'' s = Some r \<longleftrightarrow> (\<exists>w \<in> spelled ''sk-''. s = w @ r)"
  "read_word ''bearer'' s = Some r \<longleftrightarrow> (\<exists>w \<in> spelled ''bearer''. s = w @ r)"
  by (rule read_word_iff, simp)+

lemma match_at_sound:
  assumes "match_at s = Some r"
  shows "\<exists>w. secret w \<and> s = w @ r"
proof -
  consider (gsk) "Option.bind (read_word ''gsk_'' s) (at_least 1 (read_class is_alnum)) = Some r"
    | (sk) "Option.bind (read_word ''sk-'' s) (at_least 16 (read_class is_alnum)) = Some r"
    | (bearer) "Option.bind (Option.bind (read_word ''bearer'' s) (at_least 1 read_space))
        (at_least 1 (read_class is_token)) = Some r"
    using assms by (auto simp: match_at_def simp del: word_chars split: option.splits)
  then show ?thesis
  proof cases
    case gsk
    then obtain t where "read_word ''gsk_'' s = Some t" "at_least 1 (read_class is_alnum) t = Some r"
      by (auto simp: bind_eq_Some_conv simp del: word_chars)
    then show ?thesis using alnum.at_least_sound unfolding secret_def by (metis word_chars(1) append_assoc)
  next
    case sk
    then obtain t where "read_word ''sk-'' s = Some t" "at_least 16 (read_class is_alnum) t = Some r"
      by (auto simp: bind_eq_Some_conv simp del: word_chars)
    then show ?thesis using alnum.at_least_sound unfolding secret_def by (metis word_chars(2) append_assoc)
  next
    case bearer
    then obtain t u where "read_word ''bearer'' s = Some t" "at_least 1 read_space t = Some u"
      "at_least 1 (read_class is_token) u = Some r"
      by (auto simp: bind_eq_Some_conv simp del: word_chars)
    then obtain a b c where "a \<in> spelled ''bearer''" "s = a @ t" "b \<in> repeated 1 space_forms" "t = b @ u"
      "c \<in> repeated 1 (class_forms is_token)" "u = c @ r"
      using space.at_least_sound token.at_least_sound by (metis word_chars(3))
    then show ?thesis unfolding secret_def by (intro exI [of _ "a @ b @ c"]) auto
  qed
qed

lemma token_not_space:
  assumes "c \<in> repeated 1 (class_forms is_token)"
  shows "read_space (c @ v) = None"
proof -
  obtain f ws where "c = f @ ws" "f \<in> class_forms is_token"
    using assms by (auto simp: repeated_def Suc_le_length_iff)
  then show ?thesis
    by (auto simp: read_space_def class_forms_def kelvin_sign_def long_s_def is_re_space_def is_token_def
        is_alnum_def is_digit_def lower_char_def less_eq_char_def)
qed

lemma match_at_complete:
  assumes "secret w"
  shows "match_at (w @ v) \<noteq> None"
proof -
  consider (gsk) a b where "w = a @ b" "a \<in> spelled ''gsk_''" "b \<in> repeated 1 (class_forms is_alnum)"
    | (sk) a b where "w = a @ b" "a \<in> spelled ''sk-''" "b \<in> repeated 16 (class_forms is_alnum)"
    | (bearer) a b c where "w = a @ b @ c" "a \<in> spelled ''bearer''" "b \<in> repeated 1 space_forms"
        "c \<in> repeated 1 (class_forms is_token)"
    using assms unfolding secret_def by blast
  then show ?thesis
  proof cases
    case gsk
    then have "read_word ''gsk_'' (w @ v) = Some (b @ v)" unfolding word_chars by auto
    with alnum.at_least_complete [OF gsk(3), of v] show ?thesis by (auto simp: match_at_def simp del: word_chars)
  next
    case sk
    then have "read_word ''sk-'' (w @ v) = Some (b @ v)" unfolding word_chars by auto
    with alnum.at_least_complete [OF sk(3), of v] show ?thesis
      by (auto simp: match_at_def simp del: word_chars split: option.splits)
  next
    case bearer
    then have "read_word ''bearer'' (w @ v) = Some (b @ c @ v)" unfolding word_chars by auto
    moreover have "at_least 1 read_space (b @ c @ v) = Some (c @ v)"
      using space.at_least_complete [OF bearer(3), of "c @ v"] token_not_space [OF bearer(4)] by auto
    moreover note token.at_least_complete [OF bearer(4), of v]
    ultimately show ?thesis by (auto simp: match_at_def simp del: word_chars split: option.splits)
  qed
qed

lemma match_at_iff: "match_at s \<noteq> None \<longleftrightarrow> (\<exists>w. secret w \<and> prefix w s)"
  using match_at_sound match_at_complete by (metis not_None_eq prefix_def)

section \<open>Redaction\<close>

lemma lower_char_cases:
  assumes "lower_char x = c"
  shows "x = c \<or> x = char_of (of_char c - 32 :: nat)"
proof (cases "CHR ''A'' \<le> x \<and> x \<le> CHR ''Z''")
  case True
  then have "of_char x \<le> (90 :: nat)" by (simp add: less_eq_char_def)
  then have "of_char c = (of_char x + 32 :: nat)"
    using assms True by (auto simp: lower_char_def)
  then show ?thesis by simp
next
  case False
  with assms show ?thesis by (simp add: lower_char_def)
qed

lemma spelled_first:
  assumes "w \<in> spelled (c # cs)"
  obtains x w' where "w = x # w'" and "x = c \<or> x = char_of (of_char c - 32 :: nat) \<or> c = CHR ''k'' \<and> x = CHR 0xE2 \<or>
    c = CHR ''s'' \<and> x = CHR 0xC5"
proof -
  obtain f u where f: "f \<in> forms c" and w: "w = f @ u" using assms unfolding spelled_Cons by blast
  from f consider (char) x where "f = [x]" "lower_char x = c" | (kelvin) "c = CHR ''k''" "f = kelvin_sign"
    | (long) "c = CHR ''s''" "f = long_s"
    by (auto simp: forms_def split: if_splits)
  then show thesis
  proof cases
    case char
    with w lower_char_cases [OF char(2)] that [of x u] show thesis by auto
  next
    case kelvin
    with w that show thesis by (simp add: kelvin_sign_def)
  next
    case long
    with w that show thesis by (simp add: long_s_def)
  qed
qed

definition openers :: "char set" where
  "openers = {CHR ''g'', CHR ''G'', CHR ''s'', CHR ''S'', CHR ''b'', CHR ''B'', CHR 0xC5}"

lemma secret_first:
  assumes "secret w"
  obtains c w' where "w = c # w'" and "c \<in> openers"
proof -
  obtain c cs a b where w: "w = a @ b" and a: "a \<in> spelled (c # cs)"
    and c: "c \<in> {CHR ''g'', CHR ''s'', CHR ''b''}"
    using assms unfolding secret_def by blast
  from a obtain x a' where "a = x # a'" and "x = c \<or> x = char_of (of_char c - 32 :: nat) \<or>
      c = CHR ''k'' \<and> x = CHR 0xE2 \<or> c = CHR ''s'' \<and> x = CHR 0xC5" by (rule spelled_first)
  with w c that [of x "a' @ b"] show thesis
    by (auto simp: openers_def char_of_def bit_0)
qed

lemma match_at_first: "match_at (c # s) \<noteq> None \<Longrightarrow> c \<in> openers"
  unfolding match_at_iff by (metis secret_first prefix_Cons list.inject list.distinct(1))

lemma match_at_shorter:
  assumes "match_at s = Some r"
  shows "length r < length s"
proof -
  from match_at_sound [OF assms] obtain w where "secret w" "s = w @ r" by blast
  then show ?thesis by (elim secret_first) simp
qed

function redact_all :: "string \<Rightarrow> string" where
  "redact_all [] = []"
| "redact_all (x # xs) =
     (case match_at (x # xs) of
        Some r \<Rightarrow> ''[REDACTED]'' @ redact_all r
      | None \<Rightarrow> x # redact_all xs)"
  by pat_completeness auto

termination
  by (relation "measure length") (auto dest: match_at_shorter)

lemma redact_all_clean: "\<forall>t. suffix t s \<longrightarrow> match_at t = None \<Longrightarrow> redact_all s = s"
proof (induction s)
  case (Cons x xs)
  from Cons.prems have "match_at (x # xs) = None" by simp
  moreover have "redact_all xs = xs" using Cons.prems by (intro Cons.IH) (simp add: suffix_Cons)
  ultimately show ?case by simp
qed simp

text \<open>Up to the first opening bracket the replacement copies its input.\<close>

lemma redact_all_copies:
  "redact_all s = w @ v \<Longrightarrow> CHR ''['' \<notin> set w \<Longrightarrow> prefix w s"
proof (induction s arbitrary: w v rule: redact_all.induct)
  case (2 x xs)
  show ?case
  proof (cases "match_at (x # xs)")
    case None
    with 2 show ?thesis by (cases w) auto
  next
    case (Some r)
    with 2 show ?thesis by (cases w) auto
  qed
qed simp

lemma lower_bracket: "lower_char (CHR ''['') = CHR ''[''"
  by (simp add: lower_char_def less_eq_char_def)

lemma bracket_outside:
  "f \<in> forms c \<Longrightarrow> c \<noteq> CHR ''['' \<Longrightarrow> CHR ''['' \<notin> set f"
  using lower_bracket by (auto simp: forms_def kelvin_sign_def long_s_def split: if_splits)

lemma spelled_no_bracket:
  assumes "w \<in> spelled cs" and "CHR ''['' \<notin> set cs"
  shows "CHR ''['' \<notin> set w"
proof -
  from assms obtain hs where w: "w = concat hs" and hs: "list_all2 (\<lambda>c h. h \<in> forms c) cs hs"
    by (auto simp: spelled_def)
  from hs assms(2) have "\<forall>h \<in> set hs. CHR ''['' \<notin> set h"
    by (induction rule: list_all2_induct) (auto dest: bracket_outside)
  with w show ?thesis by simp
qed

lemma repeated_no_bracket:
  assumes "w \<in> repeated n F" and "\<forall>f \<in> F. CHR ''['' \<notin> set f"
  shows "CHR ''['' \<notin> set w"
  using assms by (fastforce simp: repeated_def)

lemma class_no_bracket:
  "\<forall>f \<in> class_forms is_alnum. CHR ''['' \<notin> set f"
  "\<forall>f \<in> class_forms is_token. CHR ''['' \<notin> set f"
  "\<forall>f \<in> space_forms. CHR ''['' \<notin> set f"
  by (auto simp: class_forms_def space_forms_def kelvin_sign_def long_s_def is_token_def is_alnum_def
      is_digit_def is_re_space_def lower_char_def less_eq_char_def)

lemma secret_no_bracket: "secret w \<Longrightarrow> CHR ''['' \<notin> set w"
  unfolding secret_def
  by (auto dest!: spelled_no_bracket repeated_no_bracket [OF _ class_no_bracket(1)]
      repeated_no_bracket [OF _ class_no_bracket(2)] repeated_no_bracket [OF _ class_no_bracket(3)])

lemma redact_all_no_match: "suffix t (redact_all s) \<Longrightarrow> match_at t = None"
proof (induction s arbitrary: t rule: redact_all.induct)
  case 1
  then show ?case by (simp add: match_at_def read_char_def)
next
  case (2 x xs)
  show ?case
  proof (cases "match_at (x # xs)")
    case None
    show ?thesis
    proof (cases "suffix t (redact_all xs)")
      case True
      with 2(1) None show ?thesis by blast
    next
      case False
      with 2(3) None have t: "t = x # redact_all xs" by (auto simp: suffix_Cons)
      show ?thesis
      proof (rule ccontr)
        assume "match_at t \<noteq> None"
        then obtain w v where w: "secret w" "t = w @ v" unfolding match_at_iff by (auto simp: prefix_def)
        then obtain w' where w': "w = x # w'" "redact_all xs = w' @ v" using t by (elim secret_first) auto
        then have "prefix w' xs" using secret_no_bracket [OF w(1)] by (intro redact_all_copies) auto
        with w' have "prefix w (x # xs)" by simp
        with w(1) have "match_at (x # xs) \<noteq> None" unfolding match_at_iff by blast
        with None show False by simp
      qed
    qed
  next
    case (Some r)
    then have "suffix t (redact_all r) \<or> (\<exists>c u. t = c # u \<and> c \<notin> openers)"
      using 2(3) by (auto simp: suffix_Cons openers_def)
    with 2(2) [OF Some] show ?thesis using match_at_first by blast
  qed
qed

text \<open>\<open>FindStringIndex\<close> finds a match.\<close>

fun has_match :: "string \<Rightarrow> bool" where
  "has_match [] \<longleftrightarrow> False"
| "has_match (x # xs) \<longleftrightarrow> match_at (x # xs) \<noteq> None \<or> has_match xs"

definition redact_string :: "string \<Rightarrow> string" where
  "redact_string s =
     (if \<not> contains (to_lower s) ''bearer'' \<and> \<not> has_match s then s else redact_all s)"

definition holds_secret :: "string \<Rightarrow> bool" where
  "holds_secret s \<longleftrightarrow> (\<exists>w. secret w \<and> sublist w s)"

lemma holds_secret_iff: "holds_secret s \<longleftrightarrow> (\<exists>t. suffix t s \<and> match_at t \<noteq> None)"
proof
  assume "holds_secret s"
  then obtain w ps ss where "secret w" "s = ps @ w @ ss" unfolding holds_secret_def sublist_def by blast
  then show "\<exists>t. suffix t s \<and> match_at t \<noteq> None" using match_at_complete by (metis suffixI)
next
  assume "\<exists>t. suffix t s \<and> match_at t \<noteq> None"
  then obtain t w where "suffix t s" "secret w" "prefix w t" unfolding match_at_iff by blast
  then show "holds_secret s" unfolding holds_secret_def sublist_altdef' by blast
qed

lemma has_match_iff: "has_match s \<longleftrightarrow> holds_secret s"
  unfolding holds_secret_iff
proof (induction s)
  case Nil
  have "match_at [] = None" by (simp add: match_at_def read_char_def)
  then show ?case by simp
next
  case (Cons x xs)
  then show ?case by (simp add: suffix_Cons) blast
qed

lemma redact_all_same: "\<not> holds_secret s \<Longrightarrow> redact_all s = s"
  unfolding holds_secret_iff using redact_all_clean by blast

lemma redact_string_all: "redact_string s = redact_all s"
  using redact_all_same by (auto simp: redact_string_def has_match_iff)

lemma redact_string_no_secret: "\<not> holds_secret (redact_string s)"
  unfolding redact_string_all holds_secret_iff using redact_all_no_match by fastforce

text \<open>
  C25: Redaction is complete and leaves the rest alone: no part of its result is a secret in the
  sense of the pattern, whatever the text and however the secrets overlap or are split by others; a
  text holding no secret is returned unchanged, so redacting twice is redacting once; and the
  precheck that skips the replacement never changes the result.
\<close>

theorem redaction_complete:
  "\<not> (\<exists>w. secret w \<and> sublist w (redact_string s)) \<and>
   ((\<nexists>w. secret w \<and> sublist w s) \<longrightarrow> redact_string s = s) \<and>
   redact_string (redact_string s) = redact_string s \<and>
   redact_string s = redact_all s"
  using redact_string_no_secret [of s] redact_all_same
  by (auto simp: holds_secret_def [symmetric] redact_string_all)

section \<open>The handler\<close>

text \<open>An attribute value by its \<open>Kind\<close>: text, or anything else (numbers, times, groups, errors).\<close>

datatype 'a log_value = StringValue string | OtherValue 'a

type_synonym 'a log_attr = "string \<times> 'a log_value"

record 'a log_record =
  lr_level :: int
  lr_message :: string
  lr_attrs :: "'a log_attr list"

text \<open>What \<open>WithAttrs\<close> and \<open>WithGroup\<close> have put into the JSON handler, oldest first.\<close>

datatype 'a log_context = AttrsContext "'a log_attr list" | GroupContext string

record 'a log_handler =
  lh_level :: int
  lh_context :: "'a log_context list"

definition redact_attr :: "'a log_attr \<Rightarrow> 'a log_attr" where
  "redact_attr a =
     (case a of
        (k, StringValue v) \<Rightarrow> (k, StringValue (redact_string v))
      | (k, OtherValue v) \<Rightarrow> (k, OtherValue v))"

definition handle :: "'a log_handler \<Rightarrow> 'a log_record \<Rightarrow> 'a log_context list \<times> 'a log_record" where
  "handle h r =
     (lh_context h, \<lparr>lr_level = lr_level r, lr_message = redact_string (lr_message r),
        lr_attrs = map redact_attr (lr_attrs r)\<rparr>)"

definition with_attrs :: "'a log_attr list \<Rightarrow> 'a log_handler \<Rightarrow> 'a log_handler" where
  "with_attrs as h = h\<lparr>lh_context := lh_context h @ [AttrsContext (map redact_attr as)]\<rparr>"

definition with_group :: "string \<Rightarrow> 'a log_handler \<Rightarrow> 'a log_handler" where
  "with_group name h = h\<lparr>lh_context := lh_context h @ [GroupContext name]\<rparr>"

definition new_logger :: "string \<Rightarrow> string \<Rightarrow> int \<Rightarrow> 'a log_handler" where
  "new_logger service mode level =
     with_attrs [(''service'', StringValue service), (''mode'', StringValue mode)]
       \<lparr>lh_level = level, lh_context = []\<rparr>"

text \<open>A logger asks its handler for the level first.\<close>

definition log_line :: "'a log_handler \<Rightarrow> 'a log_record \<Rightarrow> ('a log_context list \<times> 'a log_record) option" where
  "log_line h r = (if lh_level h \<le> lr_level r then Some (handle h r) else None)"

definition level_from_string :: "string \<Rightarrow> int" where
  "level_from_string level =
     (let l = to_lower level in
      if l = ''debug'' then - 4 else if l = ''warn'' then 4 else if l = ''error'' then 8 else 0)"

text \<open>The loggers of a program: \<open>New\<close> and what \<open>With\<close> and \<open>WithGroup\<close> derive from it.\<close>

inductive derived :: "'a log_handler \<Rightarrow> 'a log_handler \<Rightarrow> bool" for base :: "'a log_handler" where
  base: "derived base base"
| attrs: "derived base h \<Longrightarrow> derived base (with_attrs as h)"
| group: "derived base h \<Longrightarrow> derived base (with_group name h)"

fun attr_texts :: "'a log_attr list \<Rightarrow> string list" where
  "attr_texts [] = []"
| "attr_texts ((k, StringValue v) # as) = v # attr_texts as"
| "attr_texts ((k, OtherValue v) # as) = attr_texts as"

fun context_texts :: "'a log_context list \<Rightarrow> string list" where
  "context_texts [] = []"
| "context_texts (AttrsContext as # cs) = attr_texts as @ context_texts cs"
| "context_texts (GroupContext name # cs) = context_texts cs"

lemma context_texts_append [simp]: "context_texts (cs @ ds) = context_texts cs @ context_texts ds"
  by (induction cs rule: context_texts.induct) auto

lemma attr_texts_redacted [simp]: "attr_texts (map redact_attr as) = map redact_string (attr_texts as)"
  by (induction as rule: attr_texts.induct) (auto simp: redact_attr_def)

text \<open>The message and the texts of the attributes a line carries, its own and the logger's.\<close>

definition line_texts :: "'a log_context list \<times> 'a log_record \<Rightarrow> string list" where
  "line_texts line = lr_message (snd line) # attr_texts (lr_attrs (snd line)) @ context_texts (fst line)"

lemma derived_redacts:
  "derived base h \<Longrightarrow> \<forall>t \<in> set (context_texts (lh_context base)). \<not> holds_secret t \<Longrightarrow>
     lh_level h = lh_level base \<and> prefix (lh_context base) (lh_context h) \<and>
     (\<forall>t \<in> set (context_texts (lh_context h)). \<not> holds_secret t)"
  by (induction rule: derived.induct)
    (auto simp: with_attrs_def with_group_def redact_string_no_secret)

lemma new_logger_simps:
  "lh_level (new_logger service mode level) = level"
  "lh_context (new_logger service mode level) =
     [AttrsContext [(''service'', StringValue (redact_string service)), (''mode'', StringValue (redact_string mode))]]"
  by (simp_all add: new_logger_def with_attrs_def redact_attr_def)

text \<open>
  C26: Every line any logger of the program writes, derived from \<open>New\<close> by any chain of \<open>With\<close> and
  \<open>WithGroup\<close>, starts with the service and the mode and carries no secret in its message or in any
  text attribute. It is written exactly when its level reaches the logger's; names and
  attributes of another kind (errors among them) are written as they are.
\<close>

theorem log_lines_redacted:
  assumes "derived (new_logger service mode level) h"
  shows "(log_line h r \<noteq> None \<longleftrightarrow> level \<le> lr_level r) \<and>
    (\<forall>line. log_line h r = Some line \<longrightarrow>
       (\<forall>t \<in> set (line_texts line). \<not> (\<exists>w. secret w \<and> sublist w t)) \<and>
       (\<exists>rest. fst line = AttrsContext [(''service'', StringValue (redact_string service)),
          (''mode'', StringValue (redact_string mode))] # rest) \<and>
       lr_level (snd line) = lr_level r \<and> map fst (lr_attrs (snd line)) = map fst (lr_attrs r) \<and>
       (\<forall>k v. (k, OtherValue v) \<in> set (lr_attrs r) \<longleftrightarrow> (k, OtherValue v) \<in> set (lr_attrs (snd line))))"
proof -
  let ?new = "new_logger service mode level"
  from derived_redacts [OF assms] have h: "lh_level h = level" "prefix (lh_context ?new) (lh_context h)"
    "\<forall>t \<in> set (context_texts (lh_context h)). \<not> holds_secret t"
    by (simp_all add: new_logger_simps redact_string_no_secret)
  have names: "map fst (map redact_attr as) = map fst as" for as :: "'a log_attr list"
    by (induction as rule: attr_texts.induct) (auto simp: redact_attr_def)
  have other: "(k, OtherValue v) \<in> redact_attr ` set as \<longleftrightarrow> (k, OtherValue v) \<in> set as"
    for k v and as :: "'a log_attr list"
    by (induction as rule: attr_texts.induct) (auto simp: redact_attr_def)
  show ?thesis
    using h
    by (auto simp: log_line_def handle_def line_texts_def holds_secret_def [symmetric] redact_string_no_secret
        new_logger_simps prefix_def names other simp del: map_map)
qed

section \<open>Concrete inputs\<close>

lemma redaction_examples:
  "redact_string ''token: Bearer  abc.d-e gsk_9'' = ''token: [REDACTED] [REDACTED]''"
  "redact_string ''sk-123'' = ''sk-123''"
  "redact_string (''SK-0123456789abcdeF'' @ kelvin_sign @ ''!'') = ''[REDACTED]!''"
  by code_simp+

theorem redaction_complete_witness:
  "\<not> (\<exists>w. secret w \<and> sublist w ''gsk ready'') \<and> redact_string ''gsk ready'' = ''gsk ready''"
proof -
  have "\<not> has_match ''gsk ready''" by code_simp
  then have "\<nexists>w. secret w \<and> sublist w ''gsk ready''" unfolding has_match_iff holds_secret_def .
  with redaction_complete [of "''gsk ready''"] show ?thesis by simp
qed

definition demo_line :: "string log_context list \<times> string log_record" where
  "demo_line = ([AttrsContext [(''service'', StringValue ''vyomm-api''), (''mode'', StringValue ''trial'')]],
     \<lparr>lr_level = 4, lr_message = ''ready'',
      lr_attrs = [(''key'', StringValue ''[REDACTED]''), (''error'', OtherValue ''gsk_1'')]\<rparr>)"

theorem log_lines_redacted_witness:
  "log_line (new_logger ''vyomm-api'' ''trial'' 0)
     \<lparr>lr_level = 4, lr_message = ''ready'', lr_attrs = [(''key'', StringValue ''gsk_1''), (''error'', OtherValue ''gsk_1'')]\<rparr>
     = Some demo_line \<and>
   list_all (\<lambda>t. \<not> (\<exists>w. secret w \<and> sublist w t)) (line_texts demo_line)"
proof -
  have eq: "log_line (new_logger ''vyomm-api'' ''trial'' 0)
     \<lparr>lr_level = 4, lr_message = ''ready'', lr_attrs = [(''key'', StringValue ''gsk_1''), (''error'', OtherValue ''gsk_1'')]\<rparr>
     = Some demo_line" by code_simp
  with log_lines_redacted [OF derived.base] show ?thesis unfolding list_all_iff by blast
qed

end
