(* ===== verification/Tracing.thy ===== *)
theory Tracing
  imports Float64
begin

text \<open>
  \<open>internal/observability/tracing/tracing.go\<close>: the span names and \<open>Init\<close>, which assembles the tracer
  provider of the OpenTelemetry SDK. The SDK and \<open>net/url\<close> are parameters: the result of \<open>url.Parse\<close>
  (host and path), of the OTLP exporter and of the resource, each of which may fail.
\<close>

datatype span_name =
    SpanScenarioStarted | SpanTelemetryGenerated | SpanTelemetryIngested | SpanAnomalyDetected
  | SpanIncidentCorrelated | SpanRunbookRetrieved | SpanDecisionRecorded

fun span_text :: "span_name \<Rightarrow> string" where
  "span_text SpanScenarioStarted = ''scenario.started''"
| "span_text SpanTelemetryGenerated = ''telemetry.generated''"
| "span_text SpanTelemetryIngested = ''telemetry.ingested''"
| "span_text SpanAnomalyDetected = ''anomaly.detected''"
| "span_text SpanIncidentCorrelated = ''incident.correlated''"
| "span_text SpanRunbookRetrieved = ''runbook.retrieved''"
| "span_text SpanDecisionRecorded = ''decision.recorded''"

record ('x, 'r) trace_sdk =
  ts_parse :: "string \<Rightarrow> string + string \<times> string"
  ts_exporter :: "string \<Rightarrow> string \<Rightarrow> string + 'x"
  ts_resource :: "string \<Rightarrow> string + 'r"

record ('x, 'r) trace_provider =
  tp_exporter :: 'x
  tp_resource :: 'r
  tp_sample_ratio :: f64

text \<open>\<open>Init\<close>: the provider it installs, or the first error.\<close>

definition tracing_init ::
  "('x, 'r) trace_sdk \<Rightarrow> string \<Rightarrow> f64 \<Rightarrow> string \<Rightarrow> string + ('x, 'r) trace_provider" where
  "tracing_init sdk endpoint ratio service =
     (case ts_parse sdk endpoint of
        Inl e \<Rightarrow> Inl e
      | Inr (host, path) \<Rightarrow>
          (case ts_exporter sdk host path of
             Inl e \<Rightarrow> Inl e
           | Inr x \<Rightarrow>
               (case ts_resource sdk service of
                  Inl e \<Rightarrow> Inl e
                | Inr r \<Rightarrow> Inr \<lparr>tp_exporter = x, tp_resource = r, tp_sample_ratio = ratio\<rparr>)))"

section \<open>Spans\<close>

datatype span_value = SpanString string | SpanInt int

text \<open>A span that has ended: its parent in the same trace, its attributes in the order they were set and
  the description of an error status, a text or an error \<open>'e\<close> of the program.\<close>

record 'e span =
  sp_name :: span_name
  sp_parent :: "span_name option"
  sp_attrs :: "(string \<times> span_value) list"
  sp_error :: "(string + 'e) option"

lemma span_text_inject: "span_text a = span_text b \<longleftrightarrow> a = b"
  by (cases a; cases b) simp_all

text \<open>An initialised provider samples at the configured ratio and reports under the given service.\<close>

lemma tracing_init_InrD:
  assumes "tracing_init sdk endpoint ratio service = Inr p"
  obtains host path where "ts_parse sdk endpoint = Inr (host, path)"
    "ts_exporter sdk host path = Inr (tp_exporter p)" "ts_resource sdk service = Inr (tp_resource p)"
    "tp_sample_ratio p = ratio"
  using assms by (auto simp: tracing_init_def split: sum.splits prod.splits)

end
