(* ===== verification/Spans.thy ===== *)
theory Spans
  imports ApiProps Logging Tracing
begin

text \<open>
  What the handlers of \<open>internal/api/handlers.go\<close> report beside their reply: the spans they end and the
  lines they log. The handlers themselves are those of \<open>Api\<close>; here are the attributes, the statuses and
  the parents of their spans. A list of spans has the root first, then its children as they start.
\<close>

type_synonym api_span = "persist_error span"

definition fresh_span :: "span_name \<Rightarrow> span_name option \<Rightarrow> (string \<times> span_value) list \<Rightarrow> 'e span" where
  "fresh_span name parent attrs = \<lparr>sp_name = name, sp_parent = parent, sp_attrs = attrs, sp_error = None\<rparr>"

definition error_line :: "string \<Rightarrow> string \<Rightarrow> persist_error \<Rightarrow> persist_error log_attr list \<Rightarrow> persist_error log_record" where
  "error_line msg event e extra =
     \<lparr>lr_level = 8, lr_message = msg,
      lr_attrs = (''event'', StringValue event) # (''error'', OtherValue e) # extra\<rparr>"

section \<open>Ingest\<close>

definition detect_span :: "device_telemetry list \<Rightarrow> gotime \<Rightarrow> api_span" where
  "detect_span devices now = fresh_span SpanAnomalyDetected (Some SpanTelemetryIngested)
     [(''vyomm.anomalies_detected'', SpanInt (int (length (detect devices now))))]"

text \<open>The loop of \<open>correlateIncidents\<close>: the server, \<open>createdCount\<close> and the lines.\<close>

definition upsert_report ::
  "'db sql_driver \<Rightarrow> gotime \<Rightarrow> candidate \<Rightarrow> 'db server \<times> nat \<times> persist_error log_record list \<Rightarrow>
   'db server \<times> nat \<times> persist_error log_record list" where
  "upsert_report drv now c snl =
     (case snl of (s, n, lines) \<Rightarrow>
        (case sv_store s of
           None \<Rightarrow> (s, n, lines)
         | Some st \<Rightarrow>
             (case upsert_incident drv c now st of (st', inc, created, err) \<Rightarrow>
                (upsert_step drv now c s, if created then n + 1 else n,
                 case err of
                   None \<Rightarrow> lines
                 | Some e \<Rightarrow> lines @ [error_line ''incident upsert failed'' ''incident.upsert.failed'' e
                     [(''occurrence_key'', StringValue (cd_occurrence_key c))]]))))"

definition correlate_report ::
  "'db sql_driver \<Rightarrow> device_telemetry list \<Rightarrow> gotime \<Rightarrow> 'db server \<Rightarrow> api_span \<times> persist_error log_record list" where
  "correlate_report drv valid now s =
     (case fold (upsert_report drv now) (correlate valid) (s, 0, []) of
        (s', n, lines) \<Rightarrow> (fresh_span SpanIncidentCorrelated (Some SpanTelemetryIngested)
           [(''vyomm.incidents_created'', SpanInt (int n))], lines))"

definition ingest_report ::
  "'db sql_driver \<Rightarrow> env \<Rightarrow> string + json \<Rightarrow> 'db server \<Rightarrow> api_span list \<times> persist_error log_record list" where
  "ingest_report drv ev bdy s =
     (case decode_body ev decode_ingest bdy of
        Inl e \<Rightarrow> ([(fresh_span SpanTelemetryIngested None [])\<lparr>sp_error := Some (Inl ''malformed request body'')\<rparr>], [])
      | Inr req \<Rightarrow>
          (let attrs = [(''vyomm.run_id'', SpanString (iq_run_id req)), (''vyomm.scenario_id'', SpanString (iq_scenario_id req)),
                 (''vyomm.device_count'', SpanInt (int (length (iq_devices req))))] in
           case sv_store s of
             None \<Rightarrow> ([fresh_span SpanTelemetryIngested None attrs], [])
           | Some st \<Rightarrow>
               (case ingest drv (iq_devices req) (iq_run_id req) (ev_now ev) st of
                  (st', r, Some e) \<Rightarrow>
                    ([(fresh_span SpanTelemetryIngested None attrs)\<lparr>sp_error := Some (Inr e)\<rparr>],
                     [error_line ''telemetry ingest failed'' ''telemetry.ingest.failed'' e []])
                | (st', r, None) \<Rightarrow>
                    (let s2 = detect_anomalies (ig_valid r) (ev_now ev) (count_ingest r (s\<lparr>sv_store := Some st'\<rparr>));
                         (c, lines) = correlate_report drv (ig_valid r) (ev_now ev) s2 in
                     ([fresh_span SpanTelemetryIngested None (attrs @
                         [(''vyomm.accepted'', SpanInt (int (ig_accepted r))),
                          (''vyomm.rejected'', SpanInt (int (ig_rejected r)))]),
                       detect_span (ig_valid r) (ev_now ev), c], lines)))))"

section \<open>Decisions and runbooks\<close>

definition decide_span :: "'db sql_driver \<Rightarrow> env \<Rightarrow> string \<Rightarrow> string + json \<Rightarrow> 'db server \<Rightarrow> api_span" where
  "decide_span drv ev iid bdy s =
     (let attrs = [(''vyomm.incident_id'', SpanString iid)];
          failed = (\<lambda>as msg. (fresh_span SpanDecisionRecorded None as)\<lparr>sp_error := Some (Inl msg)\<rparr>) in
      case decode_body ev decode_decision bdy of
        Inl e \<Rightarrow> failed attrs ''malformed request body''
      | Inr req \<Rightarrow>
          (case decision_status (dq_status req) of
             None \<Rightarrow> failed attrs ''invalid status''
           | Some status \<Rightarrow>
               (let attrs' = attrs @ [(''vyomm.decision_status'', SpanString (inc_status_text status))] in
                case sv_store s of
                  None \<Rightarrow> fresh_span SpanDecisionRecorded None attrs'
                | Some st \<Rightarrow>
                    (case decide_incident drv iid status (dq_actor req) (ev_now ev) st of
                       (st', Some u, None) \<Rightarrow> fresh_span SpanDecisionRecorded None attrs'
                     | (st', u, err) \<Rightarrow> failed attrs' ''incident not found''))))"

definition runbook_span :: "string \<Rightarrow> 'db server \<Rightarrow> api_span" where
  "runbook_span query s =
     (let q = (if query = '''' then ''network incident'' else query) in
      fresh_span SpanRunbookRetrieved None ((''vyomm.query'', SpanString q) #
        (case sv_runbooks s of
           None \<Rightarrow> []
         | Some l \<Rightarrow> [(''vyomm.results'', SpanInt (int (length (retrieve l q 2))))])))"

section \<open>What the spans tell\<close>

lemma upsert_report_law:
  assumes "sv_metrics s = Some es"
  shows "\<exists>n' lines' new. fold (upsert_report drv now) cs (s, n, lines) =
      (fold (upsert_step drv now) cs s, n', lines @ lines') \<and>
    sv_metrics (fold (upsert_step drv now) cs s) = Some (es @ new) \<and>
    int n' = int n + total IncidentsActive new + int (length lines')"
  using assms
proof (induction cs arbitrary: s n lines es)
  case (Cons c cs)
  show ?case
  proof (cases "sv_store s")
    case None
    then have "upsert_step drv now c s = s" by (simp add: upsert_step_def)
    with Cons.IH [OF Cons.prems] None show ?thesis by (simp add: upsert_report_def)
  next
    case (Some st)
    obtain st' inc created err where u: "upsert_incident drv c now st = (st', inc, created, err)"
      by (cases "upsert_incident drv c now st")
    have err: "err \<noteq> None \<Longrightarrow> created"
      using u by (auto simp: upsert_incident_def Let_def split: prod.splits if_splits sum.splits)
    have "\<exists>new. sv_metrics (upsert_step drv now c s) = Some (es @ new) \<and>
        total IncidentsActive new = (if created \<and> err = None then 1 else 0)"
      using Cons.prems by (cases err; cases created) (simp_all add: upsert_step_def Some u Let_def)
    then obtain new where new: "sv_metrics (upsert_step drv now c s) = Some (es @ new)"
        "total IncidentsActive new = (if created \<and> err = None then 1 else 0)" by blast
    define l1 where "l1 = (case err of None \<Rightarrow> []
      | Some e \<Rightarrow> [error_line ''incident upsert failed'' ''incident.upsert.failed'' e
          [(''occurrence_key'', StringValue (cd_occurrence_key c))]])"
    have step: "upsert_report drv now c (s, n, lines) =
        (upsert_step drv now c s, if created then n + 1 else n, lines @ l1)"
      by (auto simp: upsert_report_def Some u l1_def split: option.splits)
    from Cons.IH [OF new(1), of "if created then n + 1 else n" "lines @ l1"] obtain n' lines' new' where ih:
        "fold (upsert_report drv now) cs (upsert_step drv now c s, if created then n + 1 else n, lines @ l1) =
          (fold (upsert_step drv now) cs (upsert_step drv now c s), n', (lines @ l1) @ lines')"
        "sv_metrics (fold (upsert_step drv now) cs (upsert_step drv now c s)) = Some ((es @ new) @ new')"
        "int n' = int (if created then n + 1 else n) + total IncidentsActive new' + int (length lines')" by blast
    show ?thesis
      using ih step new(2) err
      by (intro exI [of _ n'] exI [of _ "l1 @ lines'"] exI [of _ "new @ new'"]) (auto simp: l1_def split: option.splits)
  qed
qed simp

text \<open>
  C23: The trace and the log of a telemetry request account for its reply. The root span has an error
  status exactly when the reply is not 200. A reply of 200 has the two child spans of detection and
  correlation, and the correlation span counts every incident created: each is either counted by
  the active gauge or reported in one error line because its insert failed.
\<close>

theorem ingest_accounted:
  assumes "handle_ingest drv ev bdy s = (s', Some x)" "sv_metrics s = Some es"
    and "ingest_report drv ev bdy s = (spans, lines)"
  shows "sp_name (hd spans) = SpanTelemetryIngested \<and> sp_parent (hd spans) = None \<and>
    (sp_error (hd spans) = None \<longleftrightarrow> rs_status x = 200) \<and>
    (rs_status x \<noteq> 200 \<longrightarrow> tl spans = []) \<and>
    (rs_status x = 200 \<longrightarrow> (\<exists>n new. map sp_name (tl spans) = [SpanAnomalyDetected, SpanIncidentCorrelated] \<and>
       map sp_parent (tl spans) = [Some SpanTelemetryIngested, Some SpanTelemetryIngested] \<and>
       sp_attrs (last spans) = [(''vyomm.incidents_created'', SpanInt n)] \<and>
       sv_metrics s' = Some (es @ new) \<and> n = total IncidentsActive new + int (length lines)))"
proof (cases "decode_body ev decode_ingest bdy")
  case (Inl e)
  with assms(1,3) show ?thesis by (auto simp: handle_ingest_def ingest_report_def fresh_span_def write_error_def write_json_def)
next
  case req: (Inr req)
  from assms(1) req obtain st where st: "sv_store s = Some st"
    by (auto simp: handle_ingest_def split: option.splits)
  obtain st' r err where i: "ingest drv (iq_devices req) (iq_run_id req) (ev_now ev) st = (st', r, err)"
    by (cases "ingest drv (iq_devices req) (iq_run_id req) (ev_now ev) st")
  show ?thesis
  proof (cases err)
    case (Some e)
    with assms(1,3) req st i show ?thesis
      by (auto simp: handle_ingest_def ingest_report_def fresh_span_def write_error_def write_json_def)
  next
    case None
    define s2 where "s2 = detect_anomalies (ig_valid r) (ev_now ev) (count_ingest r (s\<lparr>sv_store := Some st'\<rparr>))"
    obtain new0 where new0: "sv_metrics s2 = Some (es @ new0)" "total IncidentsActive new0 = 0"
      using assms(2) by (auto simp: s2_def detect_anomalies_def count_ingest_def)
    from upsert_report_law [OF new0(1), of drv "ev_now ev" "correlate (ig_valid r)" 0 "[]"]
    obtain n lines' new where law: "fold (upsert_report drv (ev_now ev)) (correlate (ig_valid r)) (s2, 0, []) =
          (fold (upsert_step drv (ev_now ev)) (correlate (ig_valid r)) s2, n, lines')"
        "sv_metrics (fold (upsert_step drv (ev_now ev)) (correlate (ig_valid r)) s2) = Some ((es @ new0) @ new)"
        "int n = total IncidentsActive new + int (length lines')" by auto
    have s': "s' = fold (upsert_step drv (ev_now ev)) (correlate (ig_valid r)) s2" "rs_status x = 200"
      using assms(1) req st i None by (auto simp: handle_ingest_def correlate_incidents_def s2_def Let_def write_json_def)
    show ?thesis
      using assms(3) req st i None law new0(2) s'
      by (auto simp: ingest_report_def correlate_report_def detect_span_def fresh_span_def Let_def simp flip: s2_def)
  qed
qed

text \<open>The span of a decision has an error status exactly when the reply is not 200.\<close>

lemma decide_span_error:
  assumes "handle_decide_incident drv ev iid bdy s = (s', Some x)"
  shows "sp_error (decide_span drv ev iid bdy s) = None \<longleftrightarrow> rs_status x = 200"
  using assms
  by (auto simp: handle_decide_incident_def decide_span_def fresh_span_def write_error_def write_json_def Let_def
      split: sum.splits option.splits prod.splits)

end
