(* ===== verification/ApiWitnesses.thy ===== *)
theory ApiWitnesses
  imports Endpoints Spans
begin

text \<open>
  Concrete servers on the in-memory driver: one that has just started on an empty database, one on a
  database with an active incident, and one after a restart. Each witness applies a property of the
  API to one of them.
\<close>

definition demo_server :: "table_db pstore \<Rightarrow> table_db server" where
  "demo_server st =
     \<lparr>sv_store = Some st, sv_runbooks = None, sv_metrics = Some [], sv_config = default_config,
      sv_version = ''dev'', sv_run_id = ''run-1'', sv_otel_status = ''''\<rparr>"

definition demo_env :: env where
  "demo_env = \<lparr>ev_start = demo_time, ev_now = demo_time, ev_end = demo_time, ev_hosts = [], ev_list_order = [],
     ev_active_order = [], ev_random = None, ev_type_error = ''type mismatch''\<rparr>"

definition demo_get :: request where
  "demo_get = \<lparr>rq_method = ''GET'', rq_path = [''healthz''], rq_origin = ''http://localhost:5173'',
     rq_params = Map.empty, rq_body = Inl ''EOF''\<rparr>"

lemma demo_server_simps [simp]:
  "sv_store (demo_server st) = Some st" "sv_metrics (demo_server st) = Some []"
  "sv_config (demo_server st) = default_config" "mode_label (demo_server st) = ''trial''"
  by (simp_all add: demo_server_def mode_label_def default_config_def ModeTrial_def)

lemma demo_origins: "cf_cors_origins default_config = [''http://localhost:5173'', ''http://localhost:8080'']"
  by (simp add: default_config_def)

theorem cors_allow_listed_witness:
  "\<exists>x. serve table_driver demo_env (demo_get\<lparr>rq_method := ''OPTIONS''\<rparr>) (demo_server (demo_pstore [])) =
       (demo_server (demo_pstore []), Some x) \<and>
     (''Access-Control-Allow-Origin'', ''http://localhost:5173'') \<in> set (rs_headers x) \<and>
     (''Access-Control-Allow-Origin'', ''*'') \<notin> set (rs_headers x)"
proof -
  let ?rq = "demo_get\<lparr>rq_method := ''OPTIONS''\<rparr>" and ?s = "demo_server (demo_pstore [])"
  obtain x where x: "serve table_driver demo_env ?rq ?s = (?s, Some x)" by (simp add: serve_def Let_def)
  show ?thesis
    using x cors_allow_listed [OF x, of "''http://localhost:5173''"] cors_allow_listed [OF x, of "''*''"]
    by (simp add: demo_origins) (simp add: demo_get_def)
qed

theorem safe_methods_witness:
  "\<exists>s' resp db. serve table_driver demo_env demo_get (demo_server (demo_pstore [True])) = (s', resp) \<and>
     sv_store s' = Some ((demo_pstore [True])\<lparr>ps_db := db\<rparr>) \<and> td_committed db = empty_tables"
proof -
  obtain s' resp where s: "serve table_driver demo_env demo_get (demo_server (demo_pstore [True])) = (s', resp)"
    by fastforce
  have "rq_method demo_get \<noteq> ''POST''" by (simp add: demo_get_def)
  from safe_methods [OF demo_laws s this] s show ?thesis by auto
qed

theorem metric_calls_safe_witness:
  "\<exists>s' resp new. serve table_driver demo_env demo_get (demo_server (demo_pstore [])) = (s', resp) \<and>
     sv_metrics s' = Some new \<and> list_all well_labelled new"
proof -
  obtain s' resp where s: "serve table_driver demo_env demo_get (demo_server (demo_pstore [])) = (s', resp)"
    by fastforce
  from metric_calls_safe [OF s, of "[]"] s show ?thesis by (auto simp: list_all_iff)
qed

section \<open>Telemetry\<close>

definition leaking_sample :: device_telemetry where
  "leaking_sample = demo_device (Fin 85) (Fin 95) (Fin 15) (Fin 0)"

lemma leaking_sample_ok: "validate leaking_sample = None" "finite_sample leaking_sample"
  using demo_device_validates [of 85 95 15 0] by (simp_all add: leaking_sample_def f64_simps)

lemma leaking_candidate: "\<exists>c. correlate [leaking_sample] = [c]"
proof -
  have "first_match rules leaking_sample [] \<noteq> None"
    using first_match_fault [of "[]" leaking_sample]
    by (auto simp add: fault_of_def leaking_sample_def demo_device_def role_defs)
  then show ?thesis by (auto simp: correlate_def List.map_filter_simps leaking_sample_def)
qed

definition demo_post_body :: json where
  "demo_post_body = JObj [(''run_id'', JStr ''run-1''), (''scenario_id'', JStr ''memory-pressure''),
     (''devices'', JArr [device_json leaking_sample])]"

definition demo_ingest :: ingest_request where
  "demo_ingest = \<lparr>iq_run_id = ''run-1'', iq_scenario_id = ''memory-pressure'', iq_devices = [leaking_sample],
     iq_logs = []\<rparr>"

lemma request_keys_lower:
  "to_lower ''run_id'' = ''run_id''" "to_lower ''scenario_id'' = ''scenario_id''"
  "to_lower ''devices'' = ''devices''" "to_lower ''logs'' = ''logs''" "to_lower ''actor'' = ''actor''"
  by code_simp+

lemma demo_post_decodes: "decode_body ev decode_ingest (Inr demo_post_body) = Inr demo_ingest"
proof -
  have "marshal_device leaking_sample = Some (device_json leaking_sample)"
    using leaking_sample_ok demo_year_ok by (simp add: marshal_device_def leaking_sample_def demo_device_def)
  moreover have "in_int64 (uptime_seconds leaking_sample)" by (simp add: leaking_sample_def demo_device_def)
  ultimately have "unmarshal_device (device_json leaking_sample) = Some leaking_sample"
    by (intro unmarshal_marshal_device)
  then show ?thesis
    by (simp add: decode_body_def demo_post_body_def demo_ingest_def json_field_def request_keys_lower Let_def)
qed

lemma demo_ingest_result:
  "\<exists>st' r. ingest table_driver [leaking_sample] ''run-1'' demo_time (demo_pstore []) = (st', r, None) \<and>
     ig_valid r = [leaking_sample] \<and> ps_incidents st' = new_incident_store \<and> td_faults (ps_db st') = [] \<and>
     td_pending (ps_db st') = None \<and> tb_incidents (td_committed (ps_db st')) = []"
proof -
  have "year_ok (observed_at leaking_sample)" using demo_year_ok by (simp add: leaking_sample_def demo_device_def)
  then show ?thesis
    using leaking_sample_ok
    by (simp add: ingest_def ingest_check_def store_rows_def table_driver_def td_begin_def td_prepare_def td_exec_def
        td_commit_def next_fault_def demo_pstore_def initial_pstore_def demo_db_def marshal_device_def
        empty_tables_def Let_def)
qed

lemma demo_ingest_accepts:
  "\<exists>s' x. handle_ingest table_driver demo_env (Inr demo_post_body) (demo_server (demo_pstore [])) = (s', Some x) \<and>
     rs_status x = 200"
  using demo_ingest_result
  by (auto simp: handle_ingest_def demo_post_decodes) (auto simp: demo_ingest_def demo_env_def Let_def)

theorem ingest_endpoint_witness:
  "\<exists>s' x st' iid i. handle_ingest table_driver demo_env (Inr demo_post_body) (demo_server (demo_pstore [])) =
       (s', Some x) \<and> sv_store s' = Some st' \<and> device_history st' ''rtr-01'' = [leaking_sample] \<and>
     is_incidents (ps_incidents st') iid = Some i \<and> in_status i = IncActive"
proof -
  obtain s' x where h: "handle_ingest table_driver demo_env (Inr demo_post_body) (demo_server (demo_pstore [])) =
      (s', Some x)" "rs_status x = 200" using demo_ingest_accepts by blast
  obtain c where c: "correlate [leaking_sample] = [c]" using leaking_candidate by blast
  have dev: "iq_devices demo_ingest = [leaking_sample]" by (simp add: demo_ingest_def)
  have new: "store_ok new_incident_store" using store_wf_new by (simp add: store_wf_def)
  have host: "hostname leaking_sample = ''rtr-01''" by (simp add: leaking_sample_def demo_device_def)
  have "upserts_fresh (ev_now demo_env) (correlate (filter (\<lambda>d. validate d = None) (iq_devices demo_ingest)))
      (ps_incidents (demo_pstore []))"
    by (simp add: dev leaking_sample_ok c fresh_id_def) (simp add: new_incident_store_def)
  note ingest_endpoint [OF demo_laws _ _ _ _ demo_post_decodes this h]
  from this [of "[]"] new obtain st' where st: "sv_store s' = Some st'"
      "\<forall>h. device_history st' h = take_last 90 (filter (\<lambda>d. hostname d = h) [leaking_sample])"
      "\<forall>c \<in> set (correlate [leaking_sample]). \<exists>iid i. is_incidents (ps_incidents st') iid = Some i \<and>
         in_occurrence_key i = cd_occurrence_key c \<and> in_status i = IncActive"
    by (auto simp: dev leaking_sample_ok)
  then have "device_history st' ''rtr-01'' = [leaking_sample]" by (simp add: host)
  with st(1,3) c h(1) show ?thesis by (metis list.set_intros(1))
qed

theorem ingest_accounted_witness:
  "\<exists>s' x spans lines new. handle_ingest table_driver demo_env (Inr demo_post_body) (demo_server (demo_pstore [])) =
       (s', Some x) \<and> ingest_report table_driver demo_env (Inr demo_post_body) (demo_server (demo_pstore [])) = (spans, lines) \<and>
     map sp_name (tl spans) = [SpanAnomalyDetected, SpanIncidentCorrelated] \<and> sv_metrics s' = Some new \<and>
     sp_attrs (last spans) = [(''vyomm.incidents_created'', SpanInt (total IncidentsActive new + int (length lines)))]"
proof -
  obtain s' x where h: "handle_ingest table_driver demo_env (Inr demo_post_body) (demo_server (demo_pstore [])) =
      (s', Some x)" "rs_status x = 200" using demo_ingest_accepts by blast
  obtain spans lines where r: "ingest_report table_driver demo_env (Inr demo_post_body) (demo_server (demo_pstore [])) =
      (spans, lines)" by fastforce
  from ingest_accounted [OF h(1) _ r, of "[]"] h r show ?thesis by auto
qed

definition demo_post :: request where
  "demo_post = demo_get\<lparr>rq_method := ''POST'', rq_path := [''api'', ''v1'', ''telemetry''], rq_body := Inr demo_post_body\<rparr>"

lemma demo_post_route:
  "find_route (registered_routes (demo_server st)) (rq_method demo_post) (rq_path demo_post) = Some (PostTelemetry, [])"
  by (simp add: demo_post_def registered_routes_def route_table_def method_matches_def Let_def)

lemma demo_post_legal: "legal_request table_driver demo_env demo_post PostTelemetry args (demo_server (demo_pstore []))"
proof -
  obtain c where c: "correlate [leaking_sample] = [c]" using leaking_candidate by blast
  obtain st' r where i: "ingest table_driver [leaking_sample] ''run-1'' demo_time (demo_pstore []) = (st', r, None)"
      "ig_valid r = [leaking_sample]" "ps_incidents st' = new_incident_store" "td_faults (ps_db st') = []"
      "td_pending (ps_db st') = None" "tb_incidents (td_committed (ps_db st')) = []"
    using demo_ingest_result by blast
  let ?st = "record_anomalies (detect (ig_valid r) demo_time) st'"
  have st: "ps_incidents ?st = new_incident_store" "ps_db ?st = ps_db st'"
    using i(3) by (simp_all add: record_anomalies_def Let_def)
  obtain m inc created where u: "inc_upsert c demo_time new_incident_store = (m, inc, created)"
    by (cases "inc_upsert c demo_time new_incident_store")
  have "fresh_id c demo_time (ps_incidents ?st)" unfolding st by (simp add: fresh_id_def new_incident_store_def)
  moreover have "snd (snd (snd (upsert_incident table_driver c demo_time ?st))) = None"
    by (simp add: upsert_incident_def i(3-6) st(2) u table_driver_def td_exec_def next_fault_def Let_def)
  ultimately have "upserts_legal table_driver demo_time [c] ?st"
    by (cases "upsert_incident table_driver c demo_time ?st") simp
  then show ?thesis
    using i(1,2) c
    by (simp add: legal_request_def demo_post_def demo_post_decodes) (simp add: demo_ingest_def demo_env_def)
qed

lemma gauge_tracks_server_witness:
  "\<exists>s st es. server_run table_driver (demo_server (demo_pstore [])) s \<and> s \<noteq> demo_server (demo_pstore []) \<and>
     sv_store s = Some st \<and> sv_metrics s = Some es \<and> total IncidentsActive es = active_count (ps_incidents st)"
proof -
  let ?s0 = "demo_server (demo_pstore [])"
  obtain s1 resp where s1: "serve table_driver demo_env demo_post ?s0 = (s1, resp)" by fastforce
  have run: "server_run table_driver ?s0 s1"
    by (rule server_request [OF server_start _ s1]) (use demo_post_route demo_post_legal in auto)
  obtain h x where h: "handle_ingest table_driver demo_env (Inr demo_post_body) ?s0 = (h, Some x)"
    using demo_ingest_accepts by blast
  from ingest_calls [OF h] obtain es where es: "sv_metrics h = Some es" by (auto simp: calls_added_def)
  have "rq_body demo_post = Inr demo_post_body" "rq_method demo_post \<noteq> ''OPTIONS''" by (simp_all add: demo_post_def)
  then have "s1 = record_metrics [MetricObserve HTTPDuration [rq_method demo_post, route_label PostTelemetry,
        status_class (rs_status x)] (seconds (time_sub (ev_end demo_env) (ev_start demo_env))),
      MetricAdd HTTPRequests [rq_method demo_post, route_label PostTelemetry, status_class (rs_status x)] 1] h"
    using s1 h by (simp add: serve_def mux_def demo_post_route dispatch_def with_metrics_def Let_def)
  then have "sv_metrics s1 \<noteq> sv_metrics ?s0" using es by simp
  then have ne: "s1 \<noteq> ?s0" by metis
  have "sv_store ?s0 = Some (initial_pstore (demo_db empty_tables []) demo_retention)" by (simp add: demo_pstore_def)
  from gauge_tracks_server [OF demo_laws _ _ this _ run] run ne show ?thesis
    by (auto simp: demo_db_def)
qed

section \<open>Decisions\<close>

definition demo_decision_body :: json where
  "demo_decision_body = JObj [(''status'', JStr ''resolved''), (''actor'', JStr ''op'')]"

lemma demo_decision_decodes:
  "decode_body ev decode_decision (Inr demo_decision_body) = Inr \<lparr>dq_status = ''resolved'', dq_actor = ''op''\<rparr>"
  "decision_status ''resolved'' = Some IncResolved"
  by (simp_all add: decode_body_def demo_decision_body_def json_field_def device_keys_lower request_keys_lower
      decision_status_def Let_def)

definition demo_pstore2 :: "bool list \<Rightarrow> table_db pstore" where
  "demo_pstore2 fs = (initial_pstore (demo_db demo_tables fs) demo_retention)\<lparr>ps_incidents := demo_store1\<rparr>"

theorem decide_endpoint_witness:
  "\<exists>s' x st'. handle_decide_incident table_driver demo_env (in_id (demo_incident 1)) (Inr demo_decision_body)
       (demo_server (demo_pstore2 [True])) = (s', Some x) \<and> sv_store s' = Some st' \<and>
     is_incidents (ps_incidents st') (in_id (demo_incident 1)) =
       Some ((demo_incident 1)\<lparr>in_status := IncResolved, in_updated_at := demo_time\<rparr>) \<and>
     (rs_status x = 200 \<or> rs_status x = 404 \<and> td_committed (ps_db st') = demo_tables)"
proof -
  let ?st = "demo_pstore2 [True]"
  obtain s' resp where h: "handle_decide_incident table_driver demo_env (in_id (demo_incident 1))
      (Inr demo_decision_body) (demo_server ?st) = (s', resp)" by fastforce
  then obtain x where x: "resp = Some x"
    by (auto simp: handle_decide_incident_def demo_decision_decodes split: prod.splits option.splits)
  have db: "ps_incidents ?st = demo_store1" "ps_db ?st = demo_db demo_tables [True]"
    by (simp_all add: demo_pstore2_def initial_pstore_def)
  have hyps: "td_pending (ps_db ?st) = None" "store_ok (ps_incidents ?st)"
      "mirrors (td_committed (ps_db ?st)) (ps_incidents ?st)"
    unfolding db using demo_tables_db demo_store1_ok demo_tables_mirror by simp_all
  have ev: "ev_now demo_env = demo_time" by (simp add: demo_env_def)
  from decide_endpoint [OF demo_laws _ hyps h [unfolded x]] h x show ?thesis
    by (auto simp: demo_decision_decodes db demo_store1 ev demo_tables_db)
qed

section \<open>Health and forecast\<close>

lemma health_reports_database_witness:
  "\<exists>s' x. handle_health table_driver (demo_server (demo_pstore [True])) = (s', Some x) \<and> rs_status x = 503"
proof -
  obtain st e where "ping table_driver (demo_pstore [True]) = (st, e)" by fastforce
  then obtain s' x where h: "handle_health table_driver (demo_server (demo_pstore [True])) = (s', Some x)"
    by (cases e) (auto simp: handle_health_def Let_def)
  have "snd (sd_ping table_driver (ps_db (demo_pstore [True]))) \<noteq> None"
    by (simp add: table_driver_def td_prepare_def next_fault_def demo_pstore_def initial_pstore_def demo_db_def)
  with health_reports_database [OF h] h show ?thesis by auto
qed

lemma riskiest_is_maximal_witness:
  "riskiest_device [''rtr-01''] (append_history leaking_sample (demo_pstore [])) = ''rtr-01''"
proof -
  let ?st = "append_history leaking_sample (demo_pstore [])"
  have host: "hostname leaking_sample = ''rtr-01''" by (simp add: leaking_sample_def demo_device_def)
  have rem: "remembers ?st [leaking_sample]" using remembers_append [of "demo_pstore []" "[]" leaking_sample] by simp
  have ok: "\<forall>d \<in> set [leaking_sample]. sample_ok d" using leaking_sample_ok validate_None_iff by simp
  have "ps_latest ?st = [''rtr-01'' \<mapsto> leaking_sample]"
    by (simp add: append_history_def host demo_pstore_def initial_pstore_def)
  with riskiest_is_maximal [OF rem ok, of "[''rtr-01'']"] show ?thesis by (auto split: if_splits)
qed

definition surging_sample :: "rat \<Rightarrow> device_telemetry" where
  "surging_sample l = demo_device (Fin 40) (Fin 40) (Fin l) (Fin 0)"

theorem forecast_overflow_empty_witness:
  "\<exists>x. handle_forecast demo_env ''rtr-01'' (demo_server (append_history (surging_sample (2 powi 1022))
        (append_history (surging_sample 0) (demo_pstore [])))) = (demo_server (append_history (surging_sample (2 powi 1022))
        (append_history (surging_sample 0) (demo_pstore []))), Some x) \<and>
     rs_status x = 200 \<and> rs_body x = EncodingFailed"
proof -
  let ?a = "surging_sample 0" and ?b = "surging_sample (2 powi 1022)"
  let ?st = "append_history ?b (append_history ?a (demo_pstore []))"
  have "hostname ?a = ''rtr-01''" "hostname ?b = ''rtr-01''" by (simp_all add: surging_sample_def demo_device_def)
  then have hist: "device_history ?st ''rtr-01'' = [?a, ?b]"
    by (simp add: device_history_def append_history_def max_history_per_device_def demo_pstore_def initial_pstore_def)
  have "roundq (2 powi 1022) = 2 powi 1022" using roundq_exact [of 1 1022] by simp
  moreover have "\<bar>2 powi 1022\<bar> < f64_limit" unfolding f64_limit_powi by simp
  ultimately have "finite64 (Fin (2 powi 1022))" by (simp add: finite64.simps(1))
  then have fin: "finite_sample ?a" "finite_sample ?b" by (simp_all add: surging_sample_def f64_simps)
  have lat: "latency_ms ?a = Fin 0" "latency_ms ?b = Fin (2 powi 1022)"
    by (simp_all add: surging_sample_def demo_device_def)
  show ?thesis using forecast_overflow_empty [OF _ hist _ fin lat order.refl, of "demo_server ?st" demo_env] by simp
qed

end
