(* ===== verification/Simulator.thy ===== *)
theory Simulator
  imports Wire Detection Correlation "HOL-Library.Word"
begin

unbundle bit_operations_syntax

text \<open>
  \<open>cmd/vyomm-simulator/main.go\<close>: the batch a scenario generates and the bounded retry loop that
  posts it. The generator is \<open>math/rand/v2\<close>'s PCG-DXSM, its two 64-bit halves as one 128-bit word;
  the HTTP client is a parameter. \<open>IntN\<close> redraws rejected numbers without a bound, so it is a
  partial function, and that it returns from every state is a theorem: the generator has full
  period.
\<close>

section \<open>The random numbers of the standard library\<close>

type_synonym pcg = "128 word"

definition new_pcg :: "64 word \<Rightarrow> 64 word \<Rightarrow> pcg" where
  "new_pcg hi lo = word_cat hi lo"

definition pcg_mul :: pcg where "pcg_mul = word_cat (2549297995355413924 :: 64 word) (4865540595714422341 :: 64 word)"
definition pcg_inc :: pcg where "pcg_inc = word_cat (6364136223846793005 :: 64 word) (1442695040888963407 :: 64 word)"

definition pcg_next :: "pcg \<Rightarrow> pcg" where
  "pcg_next s = s * pcg_mul + pcg_inc"

text \<open>The DXSM output permutation of the state after the step.\<close>

definition dxsm :: "pcg \<Rightarrow> 64 word" where
  "dxsm s =
     (let lo = (ucast s :: 64 word);
          h0 = (ucast (drop_bit 64 s) :: 64 word);
          h1 = h0 XOR drop_bit 32 h0;
          h2 = h1 * 0xda942042e4dd58b5;
          h3 = h2 XOR drop_bit 48 h2
      in h3 * (lo OR 1))"

text \<open>\<open>IntN\<close> for a bound that is not a power of two: the upper half of the 128-bit product, drawn
  again while the lower half is below \<open>2\<^sup>6\<^sup>4 mod n\<close>.\<close>

definition mul_hi :: "64 word \<Rightarrow> nat \<Rightarrow> nat" where
  "mul_hi u n = unat u * n div 2 ^ 64"

definition mul_lo :: "64 word \<Rightarrow> nat \<Rightarrow> nat" where
  "mul_lo u n = unat u * n mod 2 ^ 64"

definition accepted :: "nat \<Rightarrow> 64 word \<Rightarrow> bool" where
  "accepted n u \<longleftrightarrow> \<not> mul_lo u n < (2 ^ 64 - n) mod n"

partial_function (option) int_n :: "nat \<Rightarrow> pcg \<Rightarrow> (nat \<times> pcg) option" where
  "int_n n s =
     (let s' = pcg_next s; u = dxsm s' in
      if accepted n u then Some (mul_hi u n, s') else int_n n s')"

section \<open>A full period\<close>

text \<open>\<open>n\<close> steps of \<open>x \<mapsto> a x + c\<close> are again of this shape; doubling the number of steps squares the
  multiplier.\<close>

fun doubled :: "int \<Rightarrow> int \<Rightarrow> nat \<Rightarrow> int \<times> int" where
  "doubled a c 0 = (a, c)"
| "doubled a c (Suc k) = (let (A, C) = doubled a c k in (A * A, C * A + C))"

lemma doubled_steps:
  "((\<lambda>x. a * x + c) ^^ (2 ^ k)) x = fst (doubled a c k) * x + snd (doubled a c k)"
proof (induction k arbitrary: x)
  case (Suc k)
  have "((\<lambda>x. a * x + c) ^^ (2 ^ Suc k)) x = ((\<lambda>x. a * x + c) ^^ (2 ^ k)) (((\<lambda>x. a * x + c) ^^ (2 ^ k)) x)"
    by (simp add: mult_2 funpow_add)
  also have "\<dots> = fst (doubled a c (Suc k)) * x + snd (doubled a c (Suc k))"
    unfolding Suc.IH doubled.simps case_prod_unfold Let_def fst_conv snd_conv by (simp add: distrib_left)
  finally show ?case .
qed simp

lemma doubled_residues:
  assumes "a mod 4 = 1" and "odd c"
  shows "2 ^ (k + 2) dvd fst (doubled a c k) - 1 \<and> (\<exists>m. snd (doubled a c k) = 2 ^ k * (2 * m + 1))"
proof (induction k)
  case 0
  have "4 dvd a - 1" using assms(1) by presburger
  then show ?case using assms(2) by (auto elim: oddE)
next
  case (Suc k)
  then obtain q m where A: "fst (doubled a c k) = 2 ^ (k + 2) * q + 1" and C: "snd (doubled a c k) = 2 ^ k * (2 * m + 1)"
    by (metis dvdE diff_eq_eq)
  have "fst (doubled a c (Suc k)) - 1 = 2 ^ (k + 3) * (q * (2 ^ (k + 1) * q + 1))"
    by (simp add: case_prod_unfold Let_def A algebra_simps power_add)
  moreover have "snd (doubled a c (Suc k)) = 2 ^ Suc k * (2 * (m + (2 * m + 1) * 2 ^ k * q) + 1)"
    by (simp add: case_prod_unfold Let_def A C algebra_simps power_add)
  ultimately show ?case by (metis dvd_triv_left numeral_2_eq_2 numeral_3_eq_3 add_Suc_right add_Suc)
qed

text \<open>Every residue is reached: one more bit is corrected by \<open>2\<^sup>k\<close> further steps.\<close>

lemma full_period:
  assumes "a mod 4 = 1" and "odd c"
  shows "\<exists>n. ((\<lambda>x. a * x + c) ^^ n) x mod 2 ^ k = y mod (2 ^ k :: int)"
proof (induction k)
  case (Suc k)
  then obtain n where n: "((\<lambda>x. a * x + c) ^^ n) x mod 2 ^ k = y mod (2 ^ k :: int)" by blast
  let ?z = "((\<lambda>x. a * x + c) ^^ n) x"
  obtain d where d: "?z = y + 2 ^ k * d" using n by (metis mod_eqE mult.commute add.commute)
  show ?case
  proof (cases "even d")
    case True
    then obtain e where "?z = y + 2 ^ Suc k * e" using d by (auto elim: evenE)
    then have "?z mod 2 ^ Suc k = y mod 2 ^ Suc k" by (metis mod_mult_self2)
    then show ?thesis by blast
  next
    case False
    then obtain e where e: "d = 2 * e + 1" by (elim oddE)
    from doubled_residues [OF assms, of k] obtain q m
      where A: "fst (doubled a c k) = 2 ^ (k + 2) * q + 1" and C: "snd (doubled a c k) = 2 ^ k * (2 * m + 1)"
      by (metis dvdE diff_eq_eq)
    have z: "?z = y + 2 ^ k * (2 * e + 1)" using d e by simp
    have "(2 ^ (k + 2) * q + 1) * ?z + 2 ^ k * (2 * m + 1) = 2 ^ (k + 2) * q * ?z + (y + 2 ^ k * (2 * e + 1)) + 2 ^ k * (2 * m + 1)"
      unfolding distrib_right mult_1_left by (simp only: z)
    also have "\<dots> = y + 2 ^ Suc k * (2 * q * ?z + e + m + 1)" by (simp add: distrib_left mult.assoc)
    finally have "((\<lambda>x. a * x + c) ^^ (2 ^ k + n)) x = y + 2 ^ Suc k * (2 * q * ?z + e + m + 1)"
      unfolding funpow_add o_apply doubled_steps A C .
    then show ?thesis by (metis mod_mult_self2)
  qed
qed simp

lemma pcg_constants:
  "pcg_mul = word_of_int 47026247687942121848144207491837523525"
  "pcg_inc = word_of_int 117397592171526113268558934119004209487"
  by (simp_all add: pcg_mul_def pcg_inc_def word_cat_eq push_bit_eq_mult)

lemma pcg_next_int:
  "pcg_next (word_of_int x) =
     word_of_int (47026247687942121848144207491837523525 * x + 117397592171526113268558934119004209487)"
  by (simp add: pcg_next_def pcg_constants mult.commute)

lemma pcg_steps_int:
  "(pcg_next ^^ n) (word_of_int x) = word_of_int
     (((\<lambda>x. 47026247687942121848144207491837523525 * x + 117397592171526113268558934119004209487) ^^ n) x)"
  by (induction n) (simp_all only: funpow.simps o_apply id_apply pcg_next_int)

lemma pcg_reaches: "\<exists>n. (pcg_next ^^ n) s = t"
proof -
  obtain n where "((\<lambda>x. 47026247687942121848144207491837523525 * x + 117397592171526113268558934119004209487) ^^ n)
      (uint s) mod 2 ^ 128 = uint t mod (2 ^ 128 :: int)"
    using full_period [of 47026247687942121848144207491837523525 117397592171526113268558934119004209487] by fastforce
  then have "(pcg_next ^^ n) (word_of_int (uint s)) = word_of_int (uint t)"
    unfolding pcg_steps_int by (intro word_of_int_eq_iff [THEN iffD2]) (simp add: take_bit_eq_mod)
  then show ?thesis by auto
qed

lemma dxsm_example: "dxsm (new_pcg 8285685522624391957 0) = 0xFFFFFFFFFFFFFFFF"
  by code_simp

lemma accepted_max:
  assumes "0 < n" and "n \<le> 2 ^ 63"
  shows "accepted n 0xFFFFFFFFFFFFFFFF"
proof -
  have "unat (0xFFFFFFFFFFFFFFFF :: 64 word) * n + n = 2 ^ 64 * n" by simp
  then have "unat (0xFFFFFFFFFFFFFFFF :: 64 word) * n = 2 ^ 64 * (n - 1) + (2 ^ 64 - n)"
    using assms by (cases n) simp_all
  then have "mul_lo 0xFFFFFFFFFFFFFFFF n = (2 ^ 64 - n) mod 2 ^ 64"
    unfolding mul_lo_def by (simp only: mod_mult_self4)
  also have "\<dots> = 2 ^ 64 - n" using assms(1) by (intro mod_less) simp
  finally have "mul_lo 0xFFFFFFFFFFFFFFFF n = 2 ^ 64 - n" .
  moreover have "(2 ^ 64 - n) mod n < n" using assms(1) by simp
  ultimately show ?thesis using assms(2) by (simp add: accepted_def)
qed

lemma mul_hi_less: "0 < n \<Longrightarrow> mul_hi u n < n"
  using unsigned_less [of u, where ?'a = nat] by (simp add: mul_hi_def less_mult_imp_div_less)

text \<open>The first draw of the reference test vector of the generator.\<close>

lemma dxsm_vector: "dxsm (pcg_next (new_pcg 1 2)) = 0xc4f5a58656eef510"
  by code_simp

section \<open>The draw returns\<close>

lemma int_n_accepted:
  "accepted n (dxsm ((pcg_next ^^ Suc k) s)) \<Longrightarrow>
   \<exists>j. accepted n (dxsm ((pcg_next ^^ Suc j) s)) \<and> (\<forall>i < j. \<not> accepted n (dxsm ((pcg_next ^^ Suc i) s))) \<and>
     int_n n s = Some (mul_hi (dxsm ((pcg_next ^^ Suc j) s)) n, (pcg_next ^^ Suc j) s)"
proof (induction k arbitrary: s)
  case 0
  then show ?case by (intro exI [of _ 0]) (simp add: int_n.simps Let_def)
next
  case (Suc k)
  show ?case
  proof (cases "accepted n (dxsm (pcg_next s))")
    case True
    then show ?thesis by (intro exI [of _ 0]) (simp add: int_n.simps [of n s] Let_def)
  next
    case False
    have shift: "(pcg_next ^^ Suc i) (pcg_next s) = (pcg_next ^^ Suc (Suc i)) s" for i
      by (simp add: funpow_swap1)
    from Suc.IH [of "pcg_next s"] Suc.prems obtain j where
      j: "accepted n (dxsm ((pcg_next ^^ Suc (Suc j)) s))"
        "\<forall>i < j. \<not> accepted n (dxsm ((pcg_next ^^ Suc (Suc i)) s))"
        "int_n n (pcg_next s) =
           Some (mul_hi (dxsm ((pcg_next ^^ Suc (Suc j)) s)) n, (pcg_next ^^ Suc (Suc j)) s)"
      unfolding shift by blast
    have "int_n n s = int_n n (pcg_next s)" using False by (simp add: int_n.simps [of n s] Let_def)
    moreover have "\<forall>i < Suc j. \<not> accepted n (dxsm ((pcg_next ^^ Suc i) s))"
      using j(2) False by (auto simp: less_Suc_eq_0_disj)
    ultimately show ?thesis using j(1,3) by (intro exI [of _ "Suc j"]) (simp only: simp_thms)
  qed
qed

lemma int_n_returns:
  assumes "0 < n" and "n \<le> 2 ^ 63"
  shows "\<exists>j. accepted n (dxsm ((pcg_next ^^ Suc j) s)) \<and> (\<forall>i < j. \<not> accepted n (dxsm ((pcg_next ^^ Suc i) s))) \<and>
     int_n n s = Some (mul_hi (dxsm ((pcg_next ^^ Suc j) s)) n, (pcg_next ^^ Suc j) s)"
proof -
  obtain k where "(pcg_next ^^ k) (pcg_next s) = new_pcg 8285685522624391957 0" using pcg_reaches by blast
  then have "dxsm ((pcg_next ^^ Suc k) s) = 0xFFFFFFFFFFFFFFFF" by (simp add: funpow_swap1 dxsm_example)
  then show ?thesis using accepted_max [OF assms] int_n_accepted by (metis (no_types))
qed

section \<open>Generate\<close>

text \<open>The slice \<open>Logs\<close> is nil, which \<open>encoding/json\<close> writes as null: \<open>None\<close>.\<close>

record sim_request =
  sq_run_id :: string
  sq_scenario_id :: string
  sq_devices :: "device_telemetry list"
  sq_logs :: "string list option"

datatype sim_panic = UnknownScenario string

definition sim_device ::
  "string \<Rightarrow> device_role \<Rightarrow> f64 \<Rightarrow> f64 \<Rightarrow> f64 \<Rightarrow> f64 \<Rightarrow> f64 \<Rightarrow> f64 \<Rightarrow> gotime \<Rightarrow> device_telemetry" where
  "sim_device name r cpu memory bandwidth temperature latency loss now =
     \<lparr>hostname = name, role = r, cpu_percent = cpu, memory_percent = memory, bandwidth_percent = bandwidth,
      temperature_c = temperature, latency_ms = latency, packet_loss_percent = loss, uptime_seconds = 3600,
      health = StatusHealthy, observed_at = now, source = SourceSynthetic, mode = ''trial''\<rparr>"

definition scenario_device :: "string \<Rightarrow> device_telemetry \<Rightarrow> sim_panic + device_telemetry" where
  "scenario_device scenario base =
     (if scenario = ''cpu-saturation'' then Inr (base\<lparr>cpu_percent := flit 98\<rparr>)
      else if scenario = ''memory-pressure'' then Inr (base\<lparr>memory_percent := flit 95, cpu_percent := flit 85\<rparr>)
      else if scenario = ''high-latency'' then Inr (base\<lparr>latency_ms := flit 90\<rparr>)
      else if scenario = ''packet-loss'' then Inr (base\<lparr>packet_loss_percent := flit (17 / 2), latency_ms := flit 130\<rparr>)
      else if scenario = ''healthy-baseline'' then Inr base
      else Inl (UnknownScenario scenario))"

text \<open>\<open>None\<close> would be a draw that never returns; the panic is a value of the sum.\<close>

definition generate :: "string \<Rightarrow> int \<Rightarrow> gotime \<Rightarrow> (sim_panic + sim_request) option" where
  "generate scenario seed now =
     map_option (\<lambda>(k, g).
       and_then (scenario_device scenario
           (sim_device ''rtr-01'' RoleRouter (flit 40 + f64_of_int (int k)) (flit 40) (flit 20) (flit 50) (flit 15)
             (flit (1 / 10)) now))
         (\<lambda>d. Inr \<lparr>sq_run_id = ''run-'' @ show_int seed, sq_scenario_id = scenario, sq_devices = [d], sq_logs = None\<rparr>))
       (int_n 10 (new_pcg (word_of_int seed) (word_of_int seed XOR 0x9e3779b97f4a7c15)))"

definition sim_request_json :: "sim_request \<Rightarrow> json" where
  "sim_request_json r =
     JObj [(''run_id'', JStr (sq_run_id r)), (''scenario_id'', JStr (sq_scenario_id r)),
       (''devices'', JArr (map device_json (sq_devices r))),
       (''logs'', case sq_logs r of None \<Rightarrow> JNull | Some ls \<Rightarrow> marshal_strings ls)]"

section \<open>Post\<close>

text \<open>What \<open>client.Post\<close> returns: a transport error, or a response with its status.\<close>

datatype http_answer = TransportError string | Answered int

datatype post_error = MarshalFailed | RequestFailed string | NonSuccess

fun answer_error :: "http_answer \<Rightarrow> post_error option" where
  "answer_error (TransportError e) = Some (RequestFailed e)"
| "answer_error (Answered status) = (if 200 \<le> status \<and> status < 300 then None else Some NonSuccess)"

text \<open>One pass of the loop per remaining attempt: the error to return, and for every failed attempt the
  logged number, its error and the pause in milliseconds. The client acts on a world of its own.\<close>

fun post_attempts ::
  "(json \<Rightarrow> 'w \<Rightarrow> http_answer \<times> 'w) \<Rightarrow> json \<Rightarrow> int list \<Rightarrow> post_error option \<Rightarrow> 'w \<Rightarrow>
     post_error option \<times> (int \<times> post_error \<times> int) list \<times> 'w" where
  "post_attempts client body [] latest w = (latest, [], w)"
| "post_attempts client body (a # as) latest w =
     (let (ans, w') = client body w in
      case answer_error ans of
        None \<Rightarrow> (None, [], w')
      | Some e \<Rightarrow>
          (let (err, retries, w'') = post_attempts client body as (Some e) w'
           in (err, (a + 1, e, (a + 1) * 100) # retries, w'')))"

definition post_request ::
  "(json \<Rightarrow> 'w \<Rightarrow> http_answer \<times> 'w) \<Rightarrow> sim_request \<Rightarrow> 'w \<Rightarrow>
     post_error option \<times> (int \<times> post_error \<times> int) list \<times> 'w" where
  "post_request client payload w =
     (if \<not> encodable (sim_request_json payload) then (Some MarshalFailed, [], w)
      else post_attempts client (sim_request_json payload) [0, 1, 2] None w)"

text \<open>\<open>main\<close> after its flags: a panic, or the exit status.\<close>

datatype sim_outcome = Panicked sim_panic | ExitStatus nat

definition sim_main ::
  "(json \<Rightarrow> 'w \<Rightarrow> http_answer \<times> 'w) \<Rightarrow> string \<Rightarrow> int \<Rightarrow> gotime \<Rightarrow> 'w \<Rightarrow> (sim_outcome \<times> 'w) option" where
  "sim_main client scenario seed now w =
     map_option (case_sum (\<lambda>p. (Panicked p, w))
       (\<lambda>payload. case post_request client payload w of
          (None, retries, w') \<Rightarrow> (ExitStatus 0, w')
        | (Some e, retries, w') \<Rightarrow> (ExitStatus 1, w')))
       (generate scenario seed now)"

section \<open>The scenarios\<close>

text \<open>The readings of a scenario: CPU (the drawn one unless the scenario sets it), memory, latency, loss.\<close>

definition scenario_readings :: "string \<Rightarrow> rat \<Rightarrow> rat \<times> rat \<times> rat \<times> f64" where
  "scenario_readings scenario cpu =
     (if scenario = ''cpu-saturation'' then (98, 40, 15, flit (1 / 10))
      else if scenario = ''memory-pressure'' then (85, 95, 15, flit (1 / 10))
      else if scenario = ''high-latency'' then (cpu, 40, 90, flit (1 / 10))
      else if scenario = ''packet-loss'' then (cpu, 40, 130, Fin (17 / 2))
      else (cpu, 40, 15, flit (1 / 10)))"

definition scenarios :: "string set" where
  "scenarios = {''cpu-saturation'', ''memory-pressure'', ''high-latency'', ''packet-loss'', ''healthy-baseline''}"

definition scenario_sample :: "string \<Rightarrow> rat \<Rightarrow> gotime \<Rightarrow> device_telemetry" where
  "scenario_sample scenario cpu now =
     (let (c, m, l, p) = scenario_readings scenario cpu in
      sim_device ''rtr-01'' RoleRouter (Fin c) (Fin m) (Fin 20) (Fin 50) (Fin l) p now)"

lemma sim_literals:
  "flit 98 = Fin 98" "flit 40 = Fin 40" "flit 20 = Fin 20" "flit 50 = Fin 50" "flit 15 = Fin 15"
  "flit 130 = Fin 130" "flit (17 / 2) = Fin (17 / 2)"
  by (simp_all add: flit_def f64_simps)

lemma drawn_cpu:
  assumes "k < 10" shows "flit 40 + f64_of_int (int k) = Fin (of_nat (40 + k))"
proof -
  have "f64_of_int (int k) = Fin (of_nat k)"
    using rnd_of_int_small [of "int k"] assms by (simp add: f64_of_int_def)
  moreover have "rnd (of_int (int (40 + k))) = Fin (of_int (int (40 + k)))"
    using assms by (intro rnd_of_int_small) simp
  ultimately show ?thesis by (simp add: sim_literals)
qed

text \<open>What \<open>Generate\<close> returns, with the drawn number named.\<close>

lemma generate_law:
  "\<exists>k < 10. generate scenario seed now =
     Some (if scenario \<in> scenarios
           then Inr \<lparr>sq_run_id = ''run-'' @ show_int seed, sq_scenario_id = scenario,
                  sq_devices = [scenario_sample scenario (of_nat (40 + k)) now], sq_logs = None\<rparr>
           else Inl (UnknownScenario scenario))"
proof -
  obtain j where "int_n 10 (new_pcg (word_of_int seed) (word_of_int seed XOR 0x9e3779b97f4a7c15)) =
      Some (mul_hi (dxsm ((pcg_next ^^ Suc j) (new_pcg (word_of_int seed) (word_of_int seed XOR 0x9e3779b97f4a7c15)))) 10,
        (pcg_next ^^ Suc j) (new_pcg (word_of_int seed) (word_of_int seed XOR 0x9e3779b97f4a7c15)))"
    using int_n_returns [of 10] by auto
  then obtain k g where k: "int_n 10 (new_pcg (word_of_int seed) (word_of_int seed XOR 0x9e3779b97f4a7c15)) = Some (k, g)"
      "k < 10"
    using mul_hi_less [of 10] by simp
  have "generate scenario seed now =
      Some (and_then (scenario_device scenario (sim_device ''rtr-01'' RoleRouter (Fin (of_nat (40 + k))) (Fin 40) (Fin 20)
          (Fin 50) (Fin 15) (flit (1 / 10)) now))
        (\<lambda>d. Inr \<lparr>sq_run_id = ''run-'' @ show_int seed, sq_scenario_id = scenario, sq_devices = [d], sq_logs = None\<rparr>))"
    unfolding generate_def k(1) using drawn_cpu [OF k(2)] by (simp add: sim_literals)
  with k(2) show ?thesis
    by (intro exI [of _ k]) (simp add: scenario_device_def scenarios_def scenario_sample_def scenario_readings_def
        sim_device_def sim_literals f64_simps)
qed

text \<open>
  C27: \<open>Generate\<close> returns for every seed: the redraw loop of \<open>IntN\<close> ends from every generator state,
  because the generator runs through all of its states. It panics exactly for a name that is not a
  scenario, and a batch is one sample of rtr-01 whose CPU is 40 to 49 percent unless the scenario
  sets it.
\<close>

theorem generate_returns:
  "\<exists>result. generate scenario seed now = Some result \<and>
     (if scenario \<in> {''cpu-saturation'', ''memory-pressure'', ''high-latency'', ''packet-loss'', ''healthy-baseline''}
      then \<exists>d k. 40 \<le> k \<and> k \<le> (49 :: nat) \<and> hostname d = ''rtr-01'' \<and> observed_at d = now \<and>
             cpu_percent d = Fin (if scenario = ''cpu-saturation'' then 98
                else if scenario = ''memory-pressure'' then 85 else of_nat k) \<and>
             result = Inr \<lparr>sq_run_id = ''run-'' @ show_int seed, sq_scenario_id = scenario, sq_devices = [d], sq_logs = None\<rparr>
      else result = Inl (UnknownScenario scenario))"
proof -
  obtain k where k: "k < 10" "generate scenario seed now =
     Some (if scenario \<in> scenarios
           then Inr \<lparr>sq_run_id = ''run-'' @ show_int seed, sq_scenario_id = scenario,
                  sq_devices = [scenario_sample scenario (of_nat (40 + k)) now], sq_logs = None\<rparr>
           else Inl (UnknownScenario scenario))" using generate_law by blast
  let ?d = "scenario_sample scenario (of_nat (40 + k)) now"
  have d: "40 \<le> 40 + k \<and> 40 + k \<le> 49 \<and> hostname ?d = ''rtr-01'' \<and> observed_at ?d = now \<and>
      cpu_percent ?d = Fin (if scenario = ''cpu-saturation'' then 98
        else if scenario = ''memory-pressure'' then 85 else of_nat (40 + k))"
    using k(1) by (simp add: scenario_sample_def scenario_readings_def sim_device_def)
  show ?thesis unfolding k(2) scenarios_def using d by (auto simp del: of_nat_add)
qed

lemma rnd_Fin_finite: "rnd x = Fin q \<Longrightarrow> finite64 (rnd x)"
  using valid64_rnd [of x] by (simp add: finite64.simps)

lemma tenth: "\<exists>p. flit (1 / 10) = Fin p \<and> 0 \<le> p \<and> p \<le> 1" "finite64 (flit (1 / 10))"
  using rnd_bounded [of 0 "1 / 10" 1] rnd_Fin_finite [of "1 / 10"] by (auto simp: flit_def simp del: finite64.simps)

lemma readings_cases:
  obtains "scenario = ''cpu-saturation''" | "scenario = ''memory-pressure''" | "scenario = ''high-latency''"
    | "scenario = ''packet-loss''"
    | "scenario \<notin> {''cpu-saturation'', ''memory-pressure'', ''high-latency'', ''packet-loss''}"
  by blast

lemma scenario_sample_finite: "finite_sample (scenario_sample scenario (of_nat (40 + k)) now)" if "k < 10"
proof -
  have "rnd (of_int (int (40 + k))) = Fin (of_int (int (40 + k)))"
    using that by (intro rnd_of_int_small) simp
  then have k: "finite64 (Fin (of_nat (40 + k)))" using rnd_Fin_finite by fastforce
  have h: "finite64 (Fin (17 / 2))" using rnd_Fin_finite [of "17 / 2"] sim_literals by (simp add: flit_def)
  show ?thesis
    by (cases rule: readings_cases [of scenario])
      (auto simp: scenario_sample_def scenario_readings_def sim_device_def finite_sample_def tenth f64_simps
        k [simplified] h)
qed

lemma scenario_sample_ok:
  assumes "k < 10" and "now \<noteq> zero_time"
  shows "sample_ok (scenario_sample scenario (of_nat (40 + k)) now)"
proof -
  obtain p where "flit (1 / 10) = Fin p" "0 \<le> p" using tenth(1) by blast
  moreover have "\<exists>p :: rat. p * 2 = 17 \<and> 0 \<le> p" by (rule exI [of _ "17 / 2"]) simp
  ultimately show ?thesis
    using assms
    by (cases rule: readings_cases [of scenario])
      (auto simp: scenario_sample_def scenario_readings_def sim_device_def sample_ok_def role_defs health_defs)
qed

lemma detect_signals:
  "map (\<lambda>a. (an_signal a, an_severity a)) (detect [d] now) =
     List.map_filter (\<lambda>c.
       if sc_value c d < sc_warning c then None
       else Some (sc_name c,
         if sc_critical c \<le> sc_value c d then SeverityCritical
         else if flit (82 / 100) < raw_score (sc_value c d) (sc_critical c) then SeverityHigh
         else SeverityMedium)) checks"
  by (simp add: detect_def map_filter_map_option check_device_def raw_score_def Let_def if_distrib [of "map_option _"]
      cong: if_cong)

lemma scores_separated:
  "flit (82 / 100) < raw_score (Fin 95) (Fin 96)" "flit (82 / 100) < raw_score (Fin 130) (Fin 150)"
  "\<not> flit (82 / 100) < raw_score (Fin 90) (Fin 150)"
proof -
  have above: "flit (82 / 100) < rnd q" if "27 / 32 \<le> q" "q \<le> 1" for q :: rat
  proof -
    have "flit (82 / 100) \<le> rnd (53 / 64)" unfolding flit_def by (rule rnd_mono) simp
    moreover have "rnd (53 / 64) = Fin (53 / 64)" "rnd (27 / 32) = Fin (27 / 32)"
      using rnd_exact [of 53 "-6"] rnd_exact [of 27 "-5"] by (simp_all add: power_int_minus_divide)
    moreover have "rnd (27 / 32) \<le> rnd q" by (rule rnd_mono [OF that(1)])
    ultimately show ?thesis by (cases "flit (82 / 100)"; cases "rnd q") (auto simp: less_eq_f64_def)
  qed
  have raw: "raw_score (Fin a) (Fin b) = rnd (a / b)" if "0 < b" "0 \<le> a" "a \<le> b" for a b :: rat
  proof -
    have "rnd (a / b) = Fin (roundq (a / b))" "roundq (a / b) \<le> 1"
      using rnd_bounded [of 0 "a / b" 1] that by (auto simp: divide_simps)
    then show ?thesis using that(1) by (simp add: raw_score_def)
  qed
  show "flit (82 / 100) < raw_score (Fin 95) (Fin 96)" "flit (82 / 100) < raw_score (Fin 130) (Fin 150)"
    using above [of "95 / 96"] above [of "130 / 150"] raw [of 96 95] raw [of 150 130] by simp_all
  have "rnd (90 / 150) \<le> rnd (5 / 8)" by (rule rnd_mono) simp
  moreover have "rnd (5 / 8) = Fin (5 / 8)" "rnd (13 / 16) = Fin (13 / 16)"
    using rnd_exact [of 5 "-3"] rnd_exact [of 13 "-4"] by (simp_all add: power_int_minus_divide)
  moreover have "rnd (13 / 16) \<le> flit (82 / 100)" unfolding flit_def by (rule rnd_mono) simp
  ultimately show "\<not> flit (82 / 100) < raw_score (Fin 90) (Fin 150)"
    using raw [of 150 90] by (cases "flit (82 / 100)"; cases "rnd (90 / 150)") (auto simp: less_eq_f64_def)
qed

text \<open>The signals with their severities, and the fault, that the API derives from a scenario.\<close>

definition scenario_signals :: "string \<Rightarrow> (string \<times> severity) list" where
  "scenario_signals scenario =
     (if scenario = ''cpu-saturation'' then [(''cpu_saturation'', SeverityCritical)]
      else if scenario = ''memory-pressure'' then [(''memory_pressure'', SeverityHigh)]
      else if scenario = ''high-latency'' then [(''high_latency'', SeverityMedium)]
      else if scenario = ''packet-loss'' then [(''high_latency'', SeverityHigh), (''packet_loss'', SeverityCritical)]
      else [])"

definition scenario_fault :: "string \<Rightarrow> (string \<times> inc_severity) option" where
  "scenario_fault scenario =
     (if scenario = ''memory-pressure'' then Some (''Memory Leak'', IncHigh)
      else if scenario = ''packet-loss'' then Some (''Packet Loss Degradation'', IncHigh)
      else None)"

lemma scenario_detected:
  assumes "k < 10"
  shows "map (\<lambda>a. (an_signal a, an_severity a)) (detect [scenario_sample scenario (of_nat (40 + k)) now] t) =
    scenario_signals scenario"
proof -
  obtain p where "flit (1 / 10) = Fin p" "0 \<le> p" "p \<le> 1" using tenth(1) by blast
  moreover have "of_nat k < (10 :: rat)" using assms by simp
  ultimately show ?thesis
    unfolding detect_signals checks_def
    by (cases rule: readings_cases [of scenario])
      (simp_all add: List.map_filter_simps scenario_sample_def scenario_readings_def sim_device_def
        scenario_signals_def flit_thresholds scores_separated [unfolded less_f64_def, simplified] less_eq_f64_def)
qed

lemma scenario_correlated:
  assumes "k < 10"
  shows "map (\<lambda>c. (cd_root_cause c, cd_severity c)) (correlate [scenario_sample scenario (of_nat (40 + k)) now]) =
    (case scenario_fault scenario of None \<Rightarrow> [] | Some f \<Rightarrow> [f])"
proof -
  obtain p where "flit (1 / 10) = Fin p" "0 \<le> p" "p \<le> 1" using tenth(1) by blast
  moreover have "of_nat k < (10 :: rat)" using assms by simp
  ultimately have "fault_of [] (scenario_sample scenario (of_nat (40 + k)) now) = scenario_fault scenario"
    by (cases rule: readings_cases [of scenario])
      (simp_all add: fault_of_def scenario_sample_def scenario_readings_def sim_device_def scenario_fault_def role_defs)
  then show ?thesis
    using first_match_fault [of "[]" "scenario_sample scenario (of_nat (40 + k)) now"]
    by (cases "scenario_fault scenario") (auto simp: correlate_def List.map_filter_simps split: option.splits)
qed

section \<open>The batch at the API\<close>

lemma sim_keys_lower:
  "to_lower ''run_id'' = ''run_id''" "to_lower ''scenario_id'' = ''scenario_id''"
  "to_lower ''devices'' = ''devices''" "to_lower ''logs'' = ''logs''"
  by code_simp+

lemma those_decoded: "\<forall>d \<in> set ds. storable d \<Longrightarrow> those (map (unmarshal_device \<circ> device_json) ds) = Some ds"
proof (induction ds)
  case (Cons d ds)
  then have "marshal_device d = Some (device_json d)" by (simp add: marshal_device_def storable_def)
  with Cons show ?case using unmarshal_marshal_device [of d] by (simp add: storable_def)
qed simp

lemma encodable_strings [simp]: "encodable (marshal_strings xs)"
  by (auto simp: marshal_strings_def)

lemma decode_sim_request:
  assumes "\<forall>d \<in> set (sq_devices r). storable d"
  shows "encodable (sim_request_json r)"
    and "decode_ingest (sim_request_json r) = Some \<lparr>iq_run_id = sq_run_id r, iq_scenario_id = sq_scenario_id r,
      iq_devices = sq_devices r, iq_logs = (case sq_logs r of None \<Rightarrow> [] | Some ls \<Rightarrow> ls)\<rparr>"
  using assms those_decoded [OF assms]
  by (auto simp: sim_request_json_def json_field_def sim_keys_lower storable_def marshal_strings_def
      split: option.splits simp flip: marshal_strings_def)

lemma scenario_sample_storable:
  "k < 10 \<Longrightarrow> year_ok now \<Longrightarrow> storable (scenario_sample scenario (of_nat (40 + k)) now)"
  using scenario_sample_finite [of k scenario now]
  by (simp add: storable_def scenario_sample_def sim_device_def case_prod_unfold Let_def)

lemma scenario_effects_law:
  assumes "generate scenario seed now = Some (Inr r)" and "year_ok now" and "now \<noteq> zero_time"
  shows "encodable (sim_request_json r) \<and>
    decode_ingest (sim_request_json r) =
      Some \<lparr>iq_run_id = sq_run_id r, iq_scenario_id = scenario, iq_devices = sq_devices r, iq_logs = []\<rparr> \<and>
    (\<forall>d \<in> set (sq_devices r). validate d = None) \<and>
    map (\<lambda>a. (an_signal a, an_severity a)) (detect (sq_devices r) t) =
      (if scenario = ''cpu-saturation'' then [(''cpu_saturation'', SeverityCritical)]
       else if scenario = ''memory-pressure'' then [(''memory_pressure'', SeverityHigh)]
       else if scenario = ''high-latency'' then [(''high_latency'', SeverityMedium)]
       else if scenario = ''packet-loss'' then [(''high_latency'', SeverityHigh), (''packet_loss'', SeverityCritical)]
       else []) \<and>
    map (\<lambda>c. (cd_root_cause c, cd_severity c)) (correlate (sq_devices r)) =
      (if scenario = ''memory-pressure'' then [(''Memory Leak'', IncHigh)]
       else if scenario = ''packet-loss'' then [(''Packet Loss Degradation'', IncHigh)]
       else [])"
proof -
  obtain k where k: "k < 10" and r: "r = \<lparr>sq_run_id = ''run-'' @ show_int seed, sq_scenario_id = scenario,
      sq_devices = [scenario_sample scenario (of_nat (40 + k)) now], sq_logs = None\<rparr>"
    using generate_law [of scenario seed now] assms(1) by (auto split: if_splits)
  let ?d = "scenario_sample scenario (of_nat (40 + k)) now"
  have dev: "sq_devices r = [?d]" using r by simp
  have "\<forall>d \<in> set (sq_devices r). storable d" using dev scenario_sample_storable [OF k assms(2)] by simp
  note json = decode_sim_request [OF this]
  have "validate ?d = None"
    using validate_None_iff [OF scenario_sample_finite [OF k]] scenario_sample_ok [OF k assms(3)] by blast
  with json show ?thesis
    unfolding dev scenario_detected [OF k] scenario_correlated [OF k]
    by (simp add: r scenario_signals_def scenario_fault_def)
qed

lemma generate_one:
  assumes "generate scenario seed now = Some (Inr r)"
  shows "\<exists>k < 10. \<exists>d. sq_devices r = [d] \<and> d = scenario_sample scenario (of_nat (40 + k)) now \<and> hostname d = ''rtr-01''"
  using generate_law [of scenario seed now] assms
  by (auto simp: scenario_sample_def sim_device_def case_prod_unfold Let_def split: if_splits)

lemma correlated_key:
  assumes "generate scenario seed now = Some (Inr r)" and "year_ok now" and "now \<noteq> zero_time"
    and "(scenario, cause, sev) \<in> {(''memory-pressure'', ''Memory Leak'', IncHigh),
      (''packet-loss'', ''Packet Loss Degradation'', IncHigh)}"
  shows "\<exists>c \<in> set (correlate (sq_devices r)). cd_occurrence_key c = cause @ '':rtr-01''"
proof -
  obtain d where d: "sq_devices r = [d]" "hostname d = ''rtr-01''" using generate_one [OF assms(1)] by blast
  have "map (\<lambda>c. (cd_root_cause c, cd_severity c)) (correlate (sq_devices r)) = [(cause, sev)]"
    using scenario_effects_law [OF assms(1-3)] assms(4) by auto
  then obtain c where c: "c \<in> set (correlate (sq_devices r))" "cd_root_cause c = cause" by force
  from c(1) obtain d' rl ns where "d' \<in> set (sq_devices r)" "c = candidate_of rl d' ns"
    by (rule correlate_cases)
  with c(2) d have "cd_occurrence_key c = cause @ '':rtr-01''" by (auto simp: candidate_of_def occurrence_key_def)
  with c(1) show ?thesis by blast
qed

text \<open>
  C28: The scenarios do at the API what their names say. A generated batch is encodable, the API decodes it
  to the same samples, and they pass validation; the detector then reports exactly the signals of
  the scenario with their severities, and the correlator exactly its fault: a memory leak for
  memory pressure, a packet loss degradation for packet loss, and no incident for the other three
  (CPU saturation among them, since the congestion rule also asks for latency and loss).
\<close>

theorem scenario_effects:
  assumes "generate scenario seed now = Some (Inr r)" and "year_ok now" and "now \<noteq> zero_time"
  shows "encodable (sim_request_json r) \<and>
    decode_ingest (sim_request_json r) =
      Some \<lparr>iq_run_id = sq_run_id r, iq_scenario_id = scenario, iq_devices = sq_devices r, iq_logs = []\<rparr> \<and>
    (\<forall>d \<in> set (sq_devices r). validate d = None) \<and>
    map (\<lambda>a. (an_signal a, an_severity a)) (detect (sq_devices r) t) =
      (if scenario = ''cpu-saturation'' then [(''cpu_saturation'', SeverityCritical)]
       else if scenario = ''memory-pressure'' then [(''memory_pressure'', SeverityHigh)]
       else if scenario = ''high-latency'' then [(''high_latency'', SeverityMedium)]
       else if scenario = ''packet-loss'' then [(''high_latency'', SeverityHigh), (''packet_loss'', SeverityCritical)]
       else []) \<and>
    map (\<lambda>c. (cd_root_cause c, cd_severity c)) (correlate (sq_devices r)) =
      (if scenario = ''memory-pressure'' then [(''Memory Leak'', IncHigh)]
       else if scenario = ''packet-loss'' then [(''Packet Loss Degradation'', IncHigh)]
       else [])"
  by (rule scenario_effects_law [OF assms])

section \<open>The retries\<close>

text \<open>The world after a number of posts, and the error of the next.\<close>

definition world_after :: "(json \<Rightarrow> 'w \<Rightarrow> http_answer \<times> 'w) \<Rightarrow> json \<Rightarrow> nat \<Rightarrow> 'w \<Rightarrow> 'w" where
  "world_after client body n = (\<lambda>w. snd (client body w)) ^^ n"

definition error_at :: "(json \<Rightarrow> 'w \<Rightarrow> http_answer \<times> 'w) \<Rightarrow> json \<Rightarrow> nat \<Rightarrow> 'w \<Rightarrow> post_error option" where
  "error_at client body n w = answer_error (fst (client body (world_after client body n w)))"

lemma world_after_Suc: "world_after client body (Suc n) w = world_after client body n (snd (client body w))"
  by (simp only: world_after_def funpow_Suc_right o_apply)

lemma error_at_Suc: "error_at client body (Suc n) w = error_at client body n (snd (client body w))"
  by (simp add: error_at_def world_after_Suc)

text \<open>The loop over any list of attempts: it stops at the first success, or after the last attempt with
  the error of that one.\<close>

lemma post_attempts_law:
  "\<exists>n \<le> length as.
     (\<forall>i < n. error_at client body i w \<noteq> None) \<and>
     (n < length as \<longrightarrow> error_at client body n w = None) \<and>
     post_attempts client body as latest w =
       (if n < length as then None else if n = 0 then latest else error_at client body (n - 1) w,
        map (\<lambda>i. (as ! i + 1, the (error_at client body i w), (as ! i + 1) * 100)) [0..<n],
        world_after client body (if n < length as then Suc n else n) w)"
proof (induction as arbitrary: latest w)
  case Nil
  show ?case by (simp add: world_after_def)
next
  case (Cons a as)
  obtain ans w' where c: "client body w = (ans, w')" by (cases "client body w")
  show ?case
  proof (cases "answer_error ans")
    case None
    with c show ?thesis by (intro exI [of _ 0]) (simp add: error_at_def world_after_def)
  next
    case (Some e)
    from Cons.IH [of w' "Some e"] obtain n where n: "n \<le> length as"
      "\<forall>i < n. error_at client body i w' \<noteq> None"
      "n < length as \<longrightarrow> error_at client body n w' = None"
      "post_attempts client body as (Some e) w' =
       (if n < length as then None else if n = 0 then Some e else error_at client body (n - 1) w',
        map (\<lambda>i. (as ! i + 1, the (error_at client body i w'), (as ! i + 1) * 100)) [0..<n],
        world_after client body (if n < length as then Suc n else n) w')" by blast
    have zero: "error_at client body 0 w = Some e" using c Some by (simp add: error_at_def world_after_def)
    have "\<forall>i < Suc n. error_at client body i w \<noteq> None"
      using n(2) zero c by (auto simp: less_Suc_eq_0_disj error_at_Suc)
    moreover have "post_attempts client body (a # as) latest w =
       (if Suc n < length (a # as) then None else error_at client body n w,
        map (\<lambda>i. ((a # as) ! i + 1, the (error_at client body i w), ((a # as) ! i + 1) * 100)) [0..<Suc n],
        world_after client body (if Suc n < length (a # as) then Suc (Suc n) else Suc n) w)"
    proof -
      have "map (\<lambda>i. ((a # as) ! i + 1, the (error_at client body i w), ((a # as) ! i + 1) * 100)) [0..<Suc n] =
        (a + 1, e, (a + 1) * 100) #
          map (\<lambda>i. (as ! i + 1, the (error_at client body i w'), (as ! i + 1) * 100)) [0..<n]"
        unfolding upt_conv_Cons [OF zero_less_Suc] map_Suc_upt [symmetric] using zero c by (simp add: error_at_Suc)
      moreover have "error_at client body n w = (if n = 0 then Some e else error_at client body (n - 1) w')"
        using zero c by (cases n) (simp_all add: error_at_Suc)
      ultimately show ?thesis using c Some n(4) by (simp add: world_after_Suc)
    qed
    ultimately show ?thesis using n(1,3) c by (intro exI [of _ "Suc n"]) (simp add: error_at_Suc)
  qed
qed

text \<open>
  C29: Posting is bounded and reports the truth: after \<open>n\<close> failures, at most three, it stops, with no error
  exactly when the next of at most three posts succeeds and otherwise with the error of the third;
  it sends nothing after the first success, it logs each failure with its number and error, and it
  pauses 100 ms more after each, 600 ms in all at most. A batch that cannot be encoded is never sent.
\<close>

theorem post_retries:
  "if encodable (sim_request_json payload) then
     \<exists>n \<le> 3. (\<forall>i < n. error_at client (sim_request_json payload) i w \<noteq> None) \<and>
       (n < 3 \<longrightarrow> error_at client (sim_request_json payload) n w = None) \<and>
       post_request client payload w =
         (if n < 3 then None else error_at client (sim_request_json payload) 2 w,
          map (\<lambda>i. (int i + 1, the (error_at client (sim_request_json payload) i w), (int i + 1) * 100)) [0..<n],
          world_after client (sim_request_json payload) (if n < 3 then n + 1 else 3) w) \<and>
       (\<Sum>(k, e, pause) \<leftarrow> fst (snd (post_request client payload w)). pause) \<le> 600
   else post_request client payload w = (Some MarshalFailed, [], w)"
proof (cases "encodable (sim_request_json payload)")
  case True
  let ?b = "sim_request_json payload"
  let ?retry = "\<lambda>i. (int i + 1, the (error_at client ?b i w), (int i + 1) * 100)"
  have len: "length [0, 1, 2 :: int] = 3" by simp
  from post_attempts_law [of "[0, 1, 2]" client ?b w None, unfolded len] obtain n where n: "n \<le> 3"
    "\<forall>i < n. error_at client ?b i w \<noteq> None" "n < 3 \<longrightarrow> error_at client ?b n w = None"
    "post_attempts client ?b [0, 1, 2] None w =
       (if n < 3 then None else if n = 0 then None else error_at client ?b (n - 1) w,
        map (\<lambda>i. ([0, 1, 2] ! i + 1, the (error_at client ?b i w), ([0, 1, 2] ! i + 1) * 100)) [0..<n],
        world_after client ?b (if n < 3 then Suc n else n) w)" by blast
  have "[0, 1, 2 :: int] ! i = int i" if "i < 3" for i
    using that by (auto simp: less_Suc_eq numeral_eq_Suc)
  then have "map (\<lambda>i. ([0, 1, 2] ! i + 1, the (error_at client ?b i w), ([0, 1, 2] ! i + 1) * 100)) [0..<n] =
      map ?retry [0..<n]" using n(1) by (intro map_cong) auto
  moreover have "n - 1 = 2" if "\<not> n < 3" using that n(1) by simp
  ultimately have post: "post_request client payload w =
      (if n < 3 then None else error_at client ?b 2 w, map ?retry [0..<n],
       world_after client ?b (if n < 3 then n + 1 else 3) w)"
    using True n(1,4) by (simp add: post_request_def)
  from n(1) consider "n = 0" | "n = 1" | "n = 2" | "n = 3" by linarith
  then have "(\<Sum>(k, e, pause) \<leftarrow> map ?retry [0..<n]. pause) \<le> 600"
    by cases (simp_all add: numeral_eq_Suc)
  with post n(1-3) show ?thesis unfolding if_P [OF True] by (intro exI [of _ n]) simp
qed (simp add: post_request_def)

end
