(* ===== verification/SimulatorRuns.thy ===== *)
theory SimulatorRuns
  imports Simulator Endpoints
begin

text \<open>
  The simulator of \<open>cmd/vyomm-simulator\<close> against the server of \<open>internal/api\<close>: the HTTP client reaches the
  server's own handler over a network that may lose requests and answers, and the theory shows what
  one run of the program leaves in the store.
\<close>

section \<open>The server as the client's world\<close>

text \<open>The request \<open>client.Post\<close> sends to the telemetry endpoint.\<close>

definition telemetry_post :: "json \<Rightarrow> request" where
  "telemetry_post body =
     \<lparr>rq_method = ''POST'', rq_path = [''api'', ''v1'', ''telemetry''], rq_origin = '''', rq_params = Map.empty,
      rq_body = Inr body\<rparr>"

text \<open>
  \<open>net/http\<close> and the network are outside the program, so the world decides the fate of every attempt:
  the request does not reach the server and \<open>Post\<close> returns an error; or the server handles it, with
  what the request reads from outside, and its answer arrives, or is lost on the way and \<open>Post\<close> returns
  an error although the server has done its work. Attempts follow each other: an answer is lost only
  after the handler has returned. With no fate left the server is gone. A handler that panics drops
  the connection.
\<close>

datatype fate = Unsent string | Handled env "string option"

fun answer_lost :: "fate \<Rightarrow> bool" where
  "answer_lost (Handled ev (Some e)) \<longleftrightarrow> True"
| "answer_lost _ \<longleftrightarrow> False"

definition api_client ::
  "'db sql_driver \<Rightarrow> json \<Rightarrow> 'db server \<times> fate list \<Rightarrow> http_answer \<times> ('db server \<times> fate list)" where
  "api_client drv body w =
     (case w of
        (s, []) \<Rightarrow> (TransportError ''connection refused'', (s, []))
      | (s, Unsent e # fs) \<Rightarrow> (TransportError e, (s, fs))
      | (s, Handled ev lost # fs) \<Rightarrow>
          (let (s', resp) = serve drv ev (telemetry_post body) s in
           ((case (lost, resp) of
               (Some e, _) \<Rightarrow> TransportError e
             | (None, None) \<Rightarrow> TransportError ''EOF''
             | (None, Some x) \<Rightarrow> Answered (int (rs_status x))), (s', fs))))"

text \<open>The number of those attempts that the server answers with 200, whether or not the answer arrives.\<close>

fun stored_attempts :: "'db sql_driver \<Rightarrow> json \<Rightarrow> 'db server \<Rightarrow> fate list \<Rightarrow> nat" where
  "stored_attempts drv body s [] = 0"
| "stored_attempts drv body s (Unsent e # fs) = stored_attempts drv body s fs"
| "stored_attempts drv body s (Handled ev lost # fs) =
     (let (s', resp) = serve drv ev (telemetry_post body) s in
      (if map_option rs_status resp = Some 200 then 1 else 0) + stored_attempts drv body s' fs)"

lemma serve_telemetry:
  "serve drv ev (telemetry_post body) s =
     (case handle_ingest drv ev (Inr body) s of
        (s', None) \<Rightarrow> (s', None)
      | (s', Some x) \<Rightarrow> (record_metrics
          [MetricObserve HTTPDuration [''POST'', ''/api/v1/telemetry'', status_class (rs_status x)]
             (seconds (time_sub (ev_end ev) (ev_start ev))),
           MetricAdd HTTPRequests [''POST'', ''/api/v1/telemetry'', status_class (rs_status x)] 1] s', Some x))"
proof -
  have "find_route (registered_routes s) ''POST'' [''api'', ''v1'', ''telemetry''] = Some (PostTelemetry, [])"
    by (simp add: registered_routes_def route_table_def method_matches_def Let_def)
  then show ?thesis
    by (simp add: serve_def mux_def telemetry_post_def cors_headers_def dispatch_def with_metrics_def Let_def
        split: prod.splits option.splits)
qed

section \<open>One attempt\<close>

text \<open>Upserts on the durable store change the incidents as the memory store does, and no telemetry row.\<close>

lemma upserts_telemetry:
  assumes "sql_laws drv committed pending" "sv_store s = Some st" "pending (ps_db st) = None"
  shows "\<exists>st'. sv_store (fold (upsert_step drv now) cs s) = Some st' \<and> pending (ps_db st') = None \<and>
    tb_telemetry (committed (ps_db st')) = tb_telemetry (committed (ps_db st)) \<and> ps_latest st' = ps_latest st"
  using assms(2,3)
proof (induction cs arbitrary: s st)
  case (Cons c cs)
  obtain st1 inc created err where u: "upsert_incident drv c now st = (st1, inc, created, err)"
    by (cases "upsert_incident drv c now st")
  have s1: "sv_store (upsert_step drv now c s) = Some st1" by (simp add: upsert_step_def Cons.prems u Let_def)
  have "pending (ps_db st1) = None \<and> tb_telemetry (committed (ps_db st1)) = tb_telemetry (committed (ps_db st))"
  proof (cases created)
    case False
    with u Cons.prems(2) show ?thesis by (auto simp: upsert_incident_def Let_def split: prod.splits if_splits sum.splits)
  next
    case True
    obtain db' r where x: "sd_exec drv (InsertIncident (incident_row_of inc)) (ps_db st) = (db', r)" by fastforce
    have "ps_db st1 = db'"
      using u x True by (auto simp: upsert_incident_def Let_def split: prod.splits if_splits sum.splits)
    with sql_laws.exec_law [OF assms(1) Cons.prems(2) x] show ?thesis by (cases r) auto
  qed
  moreover have "ps_latest st1 = ps_latest st" using upsert_incident_memory [OF u] by auto
  ultimately show ?case using Cons.IH [OF s1] by auto
qed simp

lemma upserts_store_ok:
  "store_ok m \<Longrightarrow> upserts_fresh now cs m \<Longrightarrow> store_ok (fold (\<lambda>c m. fst (inc_upsert c now m)) cs m)"
proof (induction cs arbitrary: m)
  case (Cons c cs)
  obtain m' i b where u: "inc_upsert c now m = (m', i, b)" by (cases "inc_upsert c now m")
  with store_ok_upsert [OF Cons.prems(1) _ u] Cons.IH [of m'] Cons.prems(2) show ?case by simp
qed simp

text \<open>Every candidate has an active incident.\<close>

definition all_active :: "candidate list \<Rightarrow> incident_store \<Rightarrow> bool" where
  "all_active cs m \<longleftrightarrow> (\<forall>c \<in> set cs. \<exists>iid i. is_incidents m iid = Some i \<and>
     in_occurrence_key i = cd_occurrence_key c \<and> in_status i = IncActive)"

text \<open>Then detecting the faults again changes nothing.\<close>

lemma upsert_again:
  assumes "store_ok m" "is_incidents m iid = Some i" "in_occurrence_key i = cd_occurrence_key c" "in_status i = IncActive"
  shows "fst (inc_upsert c now m) = m"
proof -
  let ?h = "inc_history m (cd_occurrence_key c)"
  have l: "linked m" "active_is_last m" using assms(1) by (simp_all add: store_ok_def)
  have "?h \<noteq> []" using linkedD1 [OF l(1) assms(2)] assms(3) by auto
  moreover have "last ?h = iid" using l(2) assms(2-4) unfolding active_is_last_def by metis
  ultimately have "active_last m ?h = Some i" using assms(2,4) by (simp add: active_last_def)
  then show ?thesis by (simp add: inc_upsert_def inc_history_def Let_def)
qed

lemma upserts_again:
  "store_ok m \<Longrightarrow> all_active cs m \<Longrightarrow> fold (\<lambda>c m. fst (inc_upsert c now m)) cs m = m"
proof (induction cs)
  case (Cons c cs)
  then obtain iid i where "is_incidents m iid = Some i" "in_occurrence_key i = cd_occurrence_key c" "in_status i = IncActive"
    by (auto simp: all_active_def)
  from upsert_again [OF Cons.prems(1) this] Cons show ?case by (simp add: all_active_def)
qed simp

text \<open>What the endpoint does with a batch of valid samples: it appends them all, or leaves memory and tables
  alone and does not answer with 200.\<close>

lemma serve_batch:
  assumes "sql_laws drv committed pending" "sv_store s = Some st" "pending (ps_db st) = None" "remembers st S"
    and "decode_ingest body = Some req" "\<forall>d \<in> set (iq_devices req). validate d = None"
    and "serve drv ev (telemetry_post body) s = (s', resp)"
  shows "\<exists>st' x. sv_store s' = Some st' \<and> resp = Some x \<and> pending (ps_db st') = None \<and>
    (if rs_status x = 200
     then remembers st' (S @ iq_devices req) \<and>
       length (tb_telemetry (committed (ps_db st'))) =
         length (tb_telemetry (committed (ps_db st))) + length (iq_devices req) \<and>
       ps_incidents st' =
         fold (\<lambda>c m. fst (inc_upsert c (ev_now ev) m)) (correlate (iq_devices req)) (ps_incidents st)
     else rs_status x = 500 \<and> st' = st\<lparr>ps_db := ps_db st'\<rparr> \<and> committed (ps_db st') = committed (ps_db st))"
proof -
  let ?ds = "iq_devices req"
  have valid: "filter (\<lambda>d. validate d = None) ?ds = ?ds" using assms(6) by simp
  have dec: "decode_body ev decode_ingest (Inr body) = Inr req" by (simp add: decode_body_def and_then_def assms(5))
  obtain s1 resp1 where h: "handle_ingest drv ev (Inr body) s = (s1, resp1)" by (cases "handle_ingest drv ev (Inr body) s")
  then obtain x where x: "resp1 = Some x"
    using assms(2) dec by (cases resp1) (auto simp: handle_ingest_def Let_def split: prod.splits option.splits)
  have s': "resp = Some x" "sv_store s' = sv_store s1"
    using assms(7) h x by (auto simp: serve_telemetry record_metrics_def)
  obtain st1 r err where i: "ingest drv ?ds (iq_run_id req) (ev_now ev) st = (st1, r, err)"
    by (cases "ingest drv ?ds (iq_run_id req) (ev_now ev) st")
  note law = ingest_law [OF assms(1,3,4) i, unfolded valid]
  show ?thesis
  proof (cases err)
    case None
    with law obtain rows where r: "ig_valid r = ?ds" "remembers st1 (S @ ?ds)" "ps_incidents st1 = ps_incidents st"
        "pending (ps_db st1) = None"
        "committed (ps_db st1) = (committed (ps_db st))\<lparr>tb_telemetry := tb_telemetry (committed (ps_db st)) @ rows\<rparr>"
        "list_all2 (written (iq_run_id req) (rfc3339 (ev_now ev))) rows ?ds" by auto
    let ?st2 = "record_anomalies (detect ?ds (ev_now ev)) st1"
    let ?s2 = "detect_anomalies ?ds (ev_now ev) (count_ingest r (s\<lparr>sv_store := Some st1\<rparr>))"
    have s2: "sv_store ?s2 = Some ?st2" by (simp add: detect_anomalies_def count_ingest_def)
    have st2: "ps_db ?st2 = ps_db st1" "ps_incidents ?st2 = ps_incidents st" "ps_history ?st2 = ps_history st1" "ps_latest ?st2 = ps_latest st1"
      using r(3) by (simp_all add: record_anomalies_def Let_def)
    have s1: "s1 = fold (upsert_step drv (ev_now ev)) (correlate ?ds) ?s2" "rs_status x = 200"
      using assms(2) dec h x i None r(1)
      by (auto simp: handle_ingest_def correlate_incidents_def write_json_def Let_def)
    from upserts_memory [OF s2, of drv "ev_now ev" "correlate ?ds"] obtain st' where
      st': "sv_store s1 = Some st'" "ps_history st' = ps_history st1"
        "ps_incidents st' = fold (\<lambda>c m. fst (inc_upsert c (ev_now ev) m)) (correlate ?ds) (ps_incidents st)"
      unfolding s1 st2 by blast
    have "pending (ps_db ?st2) = None" using r(4) by (simp add: st2)
    from upserts_telemetry [OF assms(1) s2 this, of "ev_now ev" "correlate ?ds"] have
      t: "pending (ps_db st') = None" "tb_telemetry (committed (ps_db st')) = tb_telemetry (committed (ps_db st1))"
      "ps_latest st' = ps_latest st1"
      using st'(1) unfolding s1 st2 by simp_all
    have "remembers st' (S @ ?ds)" using r(2) st'(2) t(3) by (simp add: remembers_def device_history_def)
    moreover have "length rows = length ?ds" using r(6) by (rule list_all2_lengthD)
    ultimately show ?thesis using s' s1(2) st'(1,3) t r(5) by simp
  next
    case (Some e)
    then have "rs_status x = 500" "sv_store s1 = Some st1"
      using h x assms(2) dec i by (auto simp: handle_ingest_def write_error_def write_json_def)
    with law Some s' show ?thesis by auto
  qed
qed

section \<open>A run of the simulator\<close>

text \<open>The store after \<open>k\<close> deliveries of the batch \<open>ds\<close> to the store \<open>st\<close>, which remembered \<open>S\<close>.\<close>

definition delivered :: "('db \<Rightarrow> tables) \<Rightarrow> ('db \<Rightarrow> tables option) \<Rightarrow> 'db pstore \<Rightarrow> device_telemetry list \<Rightarrow>
    device_telemetry list \<Rightarrow> nat \<Rightarrow> 'db server \<Rightarrow> bool" where
  "delivered committed pending st S ds k s \<longleftrightarrow>
     (\<exists>st'. sv_store s = Some st' \<and> pending (ps_db st') = None \<and>
        remembers st' (S @ concat (replicate k ds)) \<and>
        length (tb_telemetry (committed (ps_db st'))) = length (tb_telemetry (committed (ps_db st))) + k * length ds \<and>
        store_ok (ps_incidents st') \<and>
        (\<forall>iid i. is_incidents (ps_incidents st) iid = Some i \<longrightarrow> is_incidents (ps_incidents st') iid = Some i) \<and>
        (if k = 0 then st' = st\<lparr>ps_db := ps_db st'\<rparr> \<and> committed (ps_db st') = committed (ps_db st)
         else all_active (correlate ds) (ps_incidents st')))"

lemma delivered_start:
  assumes "sv_store s = Some st" "pending (ps_db st) = None" "store_ok (ps_incidents st)" "remembers st S"
  shows "delivered committed pending st S ds 0 s"
  using assms by (simp add: delivered_def)

lemma concat_replicate_Suc: "concat (replicate k ds) @ ds = concat (replicate (Suc k) ds)"
  by (induction k) simp_all

lemma delivered_attempt:
  assumes "sql_laws drv committed pending" "delivered committed pending st S (iq_devices req) k s"
    and "decode_ingest body = Some req" "\<forall>d \<in> set (iq_devices req). validate d = None"
    and "upserts_fresh (ev_now ev) (correlate (iq_devices req)) (ps_incidents st)"
    and "serve drv ev (telemetry_post body) s = (s', resp)"
  shows "\<exists>x. resp = Some x \<and> rs_status x \<in> {200, 500} \<and>
    delivered committed pending st S (iq_devices req) (k + (if rs_status x = 200 then 1 else 0)) s'"
proof -
  let ?ds = "iq_devices req"
  from assms(2) [unfolded delivered_def] obtain st1 where st1: "sv_store s = Some st1" "pending (ps_db st1) = None"
      "remembers st1 (S @ concat (replicate k ?ds))"
      "length (tb_telemetry (committed (ps_db st1))) = length (tb_telemetry (committed (ps_db st))) + k * length ?ds"
      "store_ok (ps_incidents st1)"
      "\<forall>iid i. is_incidents (ps_incidents st) iid = Some i \<longrightarrow> is_incidents (ps_incidents st1) iid = Some i"
      "if k = 0 then st1 = st\<lparr>ps_db := ps_db st1\<rparr> \<and> committed (ps_db st1) = committed (ps_db st)
         else all_active (correlate ?ds) (ps_incidents st1)"
    by blast
  let ?up = "fold (\<lambda>c m. fst (inc_upsert c (ev_now ev) m)) (correlate ?ds)"
  have up: "store_ok (?up (ps_incidents st1)) \<and> all_active (correlate ?ds) (?up (ps_incidents st1)) \<and>
    (\<forall>iid i. is_incidents (ps_incidents st) iid = Some i \<longrightarrow> is_incidents (?up (ps_incidents st1)) iid = Some i)"
  proof (cases k)
    case 0
    then obtain db where "st1 = st\<lparr>ps_db := db\<rparr>" using st1(7) by auto
    then have m: "ps_incidents st1 = ps_incidents st" by simp
    from upserts_active [OF st1(5), of "ev_now ev" "correlate ?ds"] upserts_store_ok [OF st1(5)] assms(5)
    show ?thesis unfolding m all_active_def by blast
  next
    case (Suc n)
    then have "all_active (correlate ?ds) (ps_incidents st1)" using st1(7) by simp
    then show ?thesis using upserts_again [OF st1(5)] st1(5,6) by simp
  qed
  from serve_batch [OF assms(1) st1(1-3) assms(3,4,6)] obtain st' x where st': "sv_store s' = Some st'" "resp = Some x"
    "pending (ps_db st') = None"
    "if rs_status x = 200
     then remembers st' ((S @ concat (replicate k ?ds)) @ ?ds) \<and>
       length (tb_telemetry (committed (ps_db st'))) = length (tb_telemetry (committed (ps_db st1))) + length ?ds \<and>
       ps_incidents st' = ?up (ps_incidents st1)
     else rs_status x = 500 \<and> st' = st1\<lparr>ps_db := ps_db st'\<rparr> \<and> committed (ps_db st') = committed (ps_db st1)"
    by blast
  show ?thesis
  proof (cases "rs_status x = 200")
    case True
    with st'(4) have "remembers st' (S @ concat (replicate (Suc k) ?ds))"
      "length (tb_telemetry (committed (ps_db st'))) = length (tb_telemetry (committed (ps_db st))) + Suc k * length ?ds"
      "ps_incidents st' = ?up (ps_incidents st1)"
      using st1(4) concat_replicate_Suc [of k ?ds] by simp_all
    with True up st'(1-3) show ?thesis by (simp add: delivered_def)
  next
    case False
    with st'(4) have f: "rs_status x = 500" "st' = st1\<lparr>ps_db := ps_db st'\<rparr>" "committed (ps_db st') = committed (ps_db st1)"
      by simp_all
    obtain db where db: "st' = st1\<lparr>ps_db := db\<rparr>" "db = ps_db st'" using f(2) by blast
    have "remembers st' (S @ concat (replicate k ?ds))" using st1(3) by (simp add: db(1))
    moreover have "ps_incidents st' = ps_incidents st1" by (simp add: db(1))
    moreover have "st' = st\<lparr>ps_db := ps_db st'\<rparr>" if "st1 = st\<lparr>ps_db := ps_db st1\<rparr>"
      unfolding db(1) by (subst that) simp
    ultimately show ?thesis using False f(1,3) st'(1-3) st1(4-7) by (auto simp: delivered_def)
  qed
qed

lemma api_attempts:
  assumes "sql_laws drv committed pending" "decode_ingest body = Some req"
    and "\<forall>d \<in> set (iq_devices req). validate d = None"
    and "\<forall>ev lost. Handled ev lost \<in> set fs \<longrightarrow> upserts_fresh (ev_now ev) (correlate (iq_devices req)) (ps_incidents st)"
    and "delivered committed pending st S (iq_devices req) k s"
    and "post_attempts (api_client drv) body as latest (s, fs) = (err, retries, (s', fs'))" "latest \<noteq> None"
  shows "\<exists>used. fs = used @ fs' \<and> length used \<le> length as \<and>
    delivered committed pending st S (iq_devices req) (k + stored_attempts drv body s used) s' \<and>
    (err = None \<longrightarrow> 1 \<le> stored_attempts drv body s used \<and>
       stored_attempts drv body s used \<le> 1 + length (filter answer_lost used)) \<and>
    (err \<noteq> None \<longrightarrow> stored_attempts drv body s used \<le> length (filter answer_lost used))"
  using assms(4-7)
proof (induction as arbitrary: latest k s fs retries)
  case Nil
  then show ?case by (intro exI [of _ "[]"]) auto
next
  case (Cons a as)
  note fresh = Cons.prems(1) and now = Cons.prems(2) and run = Cons.prems(3)
  text \<open>After a failed attempt the rest of the attempts run in the world it left.\<close>
  have later: ?case
    if w: "api_client drv body (s, fs) = (ans, (s1, fs1))" "answer_error ans = Some e"
      and f: "fs = f @ fs1" "length f \<le> 1"
      and n: "\<And>used. stored_attempts drv body s (f @ used) = n + stored_attempts drv body s1 used"
        "n \<le> length (filter answer_lost f)" "delivered committed pending st S (iq_devices req) (k + n) s1"
    for ans s1 fs1 e f n
  proof -
    from run w obtain rs where r: "post_attempts (api_client drv) body as (Some e) (s1, fs1) = (err, rs, (s', fs'))"
      by (auto split: prod.splits)
    have "\<forall>ev lost. Handled ev lost \<in> set fs1 \<longrightarrow>
        upserts_fresh (ev_now ev) (correlate (iq_devices req)) (ps_incidents st)"
      using fresh f(1) by auto
    from Cons.IH [OF this n(3) r] obtain used where u: "fs1 = used @ fs'" "length used \<le> length as"
      "delivered committed pending st S (iq_devices req) (k + n + stored_attempts drv body s1 used) s'"
      "err = None \<longrightarrow> 1 \<le> stored_attempts drv body s1 used \<and>
         stored_attempts drv body s1 used \<le> 1 + length (filter answer_lost used)"
      "err \<noteq> None \<longrightarrow> stored_attempts drv body s1 used \<le> length (filter answer_lost used)" by auto
    then show ?case using f n(1,2) by (intro exI [of _ "f @ used"]) (auto simp: add.assoc)
  qed
  show ?case
  proof (cases fs)
    case Nil
    from later [of "TransportError ''connection refused''" s "[]" _ "[]" 0] now show ?thesis
      by (simp add: Nil api_client_def)
  next
    case (Cons f fs1)
    show ?thesis
    proof (cases f)
      case (Unsent e)
      from later [of "TransportError e" s fs1 _ "[f]" 0] now show ?thesis by (simp add: Cons Unsent api_client_def)
    next
      case (Handled ev lost)
      obtain s1 resp where v: "serve drv ev (telemetry_post body) s = (s1, resp)" by fastforce
      have "Handled ev lost \<in> set fs" by (simp add: Cons Handled)
      from delivered_attempt [OF assms(1) now assms(2,3) fresh [rule_format, OF this] v] obtain x where x: "resp = Some x"
        "rs_status x \<in> {200, 500}"
        "delivered committed pending st S (iq_devices req) (k + (if rs_status x = 200 then 1 else 0)) s1" by blast
      have n: "stored_attempts drv body s ([f] @ used) =
          (if rs_status x = 200 then 1 else 0) + stored_attempts drv body s1 used" for used
        by (simp add: Handled v x(1))
      show ?thesis
      proof (cases lost)
        case (Some e)
        have "api_client drv body (s, fs) = (TransportError e, (s1, fs1))"
          by (simp add: api_client_def Cons Handled v Some)
        from later [OF this _ _ _ n _ x(3), of "RequestFailed e"] show ?thesis by (simp add: Cons Handled Some)
      next
        case None
        have c: "api_client drv body (s, fs) = (Answered (int (rs_status x)), (s1, fs1))"
          by (simp add: api_client_def Cons Handled v x(1) None)
        show ?thesis
        proof (cases "rs_status x = 200")
          case True
          then have "err = None" "s' = s1" "fs' = fs1" using run c by auto
          then show ?thesis using x(3) n [of "[]"] True by (intro exI [of _ "[f]"]) (simp add: Cons)
        next
          case False
          then have "rs_status x = 500" using x(2) by simp
          with later [OF c _ _ _ n _ x(3), of NonSuccess] show ?thesis by (simp add: Cons)
        qed
      qed
    qed
  qed
qed

text \<open>
  C24: One run of the simulator against the server, over a network that may fail to deliver a request and
  may lose an answer after the server has done its work: the sample has been appended to the history
  of its device, and a row for it to the telemetry table, exactly as often as the server answered 200
  to one of the at most three attempts. With exit status 0 that is at least once, and at most once
  more than answers were lost; with status 1 at most as often as answers were lost. So if no answer is
  lost the sample is delivered once and the status is 0, or not at all and the status is 1; a lost
  answer makes the retry append the sample again, since the endpoint is not idempotent. Once
  delivered, the fault of the scenario has an active incident, and another delivery leaves the
  incidents as they are; those that existed are never changed. Never delivered, memory and tables
  are as they were. With a known scenario there is no other outcome. No other client writes
  meanwhile, and new identifiers are assumed fresh.
\<close>

theorem simulator_deliveries:
  assumes "sql_laws drv committed pending" "sv_store s = Some st" "pending (ps_db st) = None"
    and "store_ok (ps_incidents st)" "remembers st S" "year_ok now" "now \<noteq> zero_time"
    and "generate scenario seed now = Some (Inr r)"
    and "\<forall>ev lost. Handled ev lost \<in> set fs \<longrightarrow> upserts_fresh (ev_now ev) (correlate (sq_devices r)) (ps_incidents st)"
  shows "\<exists>d code s' used fs' st' k. sq_devices r = [d] \<and> hostname d = ''rtr-01'' \<and>
    sim_main (api_client drv) scenario seed now (s, fs) = Some (ExitStatus code, (s', fs')) \<and>
    fs = used @ fs' \<and> length used \<le> 3 \<and> k = stored_attempts drv (sim_request_json r) s used \<and>
    (code = 0 \<and> 1 \<le> k \<and> k \<le> 1 + length (filter answer_lost used) \<or>
     code = 1 \<and> k \<le> length (filter answer_lost used)) \<and>
    sv_store s' = Some st' \<and>
    (\<forall>h. device_history st' h = take_last 90 (filter (\<lambda>d. hostname d = h) (S @ replicate k d))) \<and>
    length (tb_telemetry (committed (ps_db st'))) = length (tb_telemetry (committed (ps_db st))) + k \<and>
    (\<forall>iid i. is_incidents (ps_incidents st) iid = Some i \<longrightarrow> is_incidents (ps_incidents st') iid = Some i) \<and>
    (0 < k \<longrightarrow> (\<forall>cause sev. (scenario, cause, sev) \<in> {(''memory-pressure'', ''Memory Leak'', IncHigh),
            (''packet-loss'', ''Packet Loss Degradation'', IncHigh)} \<longrightarrow>
          (\<exists>iid i. is_incidents (ps_incidents st') iid = Some i \<and>
             in_occurrence_key i = cause @ '':rtr-01'' \<and> in_status i = IncActive))) \<and>
    (k = 0 \<longrightarrow> st' = st\<lparr>ps_db := ps_db st'\<rparr> \<and> committed (ps_db st') = committed (ps_db st))"
proof -
  note eff = scenario_effects_law [OF assms(8,6,7)]
  obtain d where d: "sq_devices r = [d]" "hostname d = ''rtr-01''" using generate_one [OF assms(8)] by blast
  let ?body = "sim_request_json r"
  obtain err retries s' fs' where p: "post_request (api_client drv) r (s, fs) = (err, retries, (s', fs'))"
    by (cases "post_request (api_client drv) r (s, fs)") auto
  let ?req = "\<lparr>iq_run_id = sq_run_id r, iq_scenario_id = scenario, iq_devices = [d], iq_logs = []\<rparr>"
  from eff have json: "encodable ?body" "decode_ingest ?body = Some ?req"
      "\<forall>d \<in> set (iq_devices ?req). validate d = None" by (simp_all add: d(1))
  have a: "post_attempts (api_client drv) ?body [0, 1, 2] (Some NonSuccess) (s, fs) = (err, retries, (s', fs'))"
    using p json(1) by (simp add: post_request_def)
  have fresh: "\<forall>ev lost. Handled ev lost \<in> set fs \<longrightarrow>
      upserts_fresh (ev_now ev) (correlate (iq_devices ?req)) (ps_incidents st)" using assms(9) by (simp add: d(1))
  have "delivered committed pending st S (iq_devices ?req) 0 s" by (rule delivered_start) (rule assms)+
  from api_attempts [OF assms(1) json(2,3) fresh this a] obtain used where
    u: "fs = used @ fs'" "length used \<le> 3"
      "delivered committed pending st S [d] (stored_attempts drv ?body s used) s'"
      "err = None \<longrightarrow> 1 \<le> stored_attempts drv ?body s used \<and>
         stored_attempts drv ?body s used \<le> 1 + length (filter answer_lost used)"
      "err \<noteq> None \<longrightarrow> stored_attempts drv ?body s used \<le> length (filter answer_lost used)" by auto
  obtain k where k: "k = stored_attempts drv ?body s used" by blast
  from u(3) [folded k, unfolded delivered_def] obtain st' where st': "sv_store s' = Some st'"
    "remembers st' (S @ concat (replicate k [d]))"
    "length (tb_telemetry (committed (ps_db st'))) = length (tb_telemetry (committed (ps_db st))) + k * length [d]"
    "\<forall>iid i. is_incidents (ps_incidents st) iid = Some i \<longrightarrow> is_incidents (ps_incidents st') iid = Some i"
    "if k = 0 then st' = st\<lparr>ps_db := ps_db st'\<rparr> \<and> committed (ps_db st') = committed (ps_db st)
         else all_active (correlate [d]) (ps_incidents st')" by blast
  have "concat (replicate k [d]) = replicate k d" by (induction k) simp_all
  with st'(2) have hist: "\<forall>h. device_history st' h = take_last 90 (filter (\<lambda>d. hostname d = h) (S @ replicate k d))"
    by (simp add: remembers_def)
  have fault: "\<exists>iid i. is_incidents (ps_incidents st') iid = Some i \<and>
      in_occurrence_key i = cause @ '':rtr-01'' \<and> in_status i = IncActive"
    if "0 < k" "(scenario, cause, sev) \<in> {(''memory-pressure'', ''Memory Leak'', IncHigh),
          (''packet-loss'', ''Packet Loss Degradation'', IncHigh)}" for cause sev
  proof -
    from correlated_key [OF assms(8,6,7) that(2)] obtain c where "c \<in> set (correlate [d])"
      "cd_occurrence_key c = cause @ '':rtr-01''" unfolding d(1) by blast
    with st'(5) that(1) show ?thesis unfolding all_active_def by (metis neq0_conv)
  qed
  have main: "sim_main (api_client drv) scenario seed now (s, fs) =
      Some (ExitStatus (if err = None then 0 else 1), (s', fs'))"
    by (cases err) (simp_all add: sim_main_def assms(8) p)
  show ?thesis
    by (intro exI [of _ d] exI [of _ "if err = None then 0 else 1"] exI [of _ s'] exI [of _ used] exI [of _ fs']
        exI [of _ st'] exI [of _ k] conjI)
      (use d main u(1,2,4,5) k st'(1,3,4,5) hist fault in \<open>auto split: if_splits\<close>)
qed

end
