(* ===== verification/SimulatorWitnesses.thy ===== *)
theory SimulatorWitnesses
  imports ApiWitnesses SimulatorRuns
begin

text \<open>Runs of the simulator on concrete inputs, against a scripted client and against a server on the in-memory
  driver.\<close>

definition demo_payload :: sim_request where
  "demo_payload = \<lparr>sq_run_id = ''run-1'', sq_scenario_id = ''healthy-baseline'', sq_devices = [], sq_logs = None\<rparr>"

text \<open>A client whose world is the list of the answers to come.\<close>

definition scripted :: "json \<Rightarrow> http_answer list \<Rightarrow> http_answer \<times> http_answer list" where
  "scripted body w = (case w of [] \<Rightarrow> (TransportError ''connection refused'', []) | a # as \<Rightarrow> (a, as))"

theorem post_retries_witness:
  "post_request scripted demo_payload [Answered 503, Answered 200, Answered 500] =
     (None, [(1, NonSuccess, 100)], [Answered 500])"
proof -
  let ?w = "[Answered 503, Answered 200, Answered 500]" and ?b = "sim_request_json demo_payload"
  have enc: "encodable ?b" by (simp add: sim_request_json_def demo_payload_def)
  have e: "error_at scripted ?b 0 ?w = Some NonSuccess" "error_at scripted ?b 1 ?w = None"
    "world_after scripted ?b 2 ?w = [Answered 500]"
    by (simp_all add: error_at_def world_after_def scripted_def numeral_2_eq_2)
  from post_retries [of demo_payload scripted ?w] enc obtain n where n: "n \<le> 3"
    "\<forall>i < n. error_at scripted ?b i ?w \<noteq> None" "n < 3 \<longrightarrow> error_at scripted ?b n ?w = None"
    "post_request scripted demo_payload ?w =
       (if n < 3 then None else error_at scripted ?b 2 ?w,
        map (\<lambda>i. (int i + 1, the (error_at scripted ?b i ?w), (int i + 1) * 100)) [0..<n],
        world_after scripted ?b (if n < 3 then n + 1 else 3) ?w)" by auto
  have "n = 1"
  proof (cases "n = 0")
    case True
    with n(3) e(1) show ?thesis by simp
  next
    case False
    with n(2) e(2) show ?thesis by (metis One_nat_def less_one nat_neq_iff)
  qed
  with n(4) e show ?thesis by (simp add: numeral_2_eq_2)
qed

lemma demo_time_set: "demo_time \<noteq> zero_time"
  by (simp add: demo_time_def zero_time_def of_unix_def nsec_per_sec_def)

lemma demo_generate: "\<exists>r. generate ''memory-pressure'' 1 demo_time = Some (Inr r)"
  using generate_law [of "''memory-pressure''" 1 demo_time] by (auto simp: scenarios_def)

theorem scenario_effects_witness:
  "\<exists>r. generate ''memory-pressure'' 1 demo_time = Some (Inr r) \<and> encodable (sim_request_json r) \<and>
     map (\<lambda>c. (cd_root_cause c, cd_severity c)) (correlate (sq_devices r)) = [(''Memory Leak'', IncHigh)]"
proof -
  obtain r where r: "generate ''memory-pressure'' 1 demo_time = Some (Inr r)" using demo_generate by blast
  from scenario_effects [OF r demo_year_ok(1) demo_time_set] r show ?thesis by auto
qed

text \<open>The in-memory driver without faults: an ingest succeeds, and neither it nor the upserts bring faults in.\<close>

definition faultless :: "table_db pstore \<Rightarrow> bool" where
  "faultless st \<longleftrightarrow> td_pending (ps_db st) = None \<and> td_faults (ps_db st) = []"

lemma table_ingest:
  assumes "validate d = None" "storable d" "faultless st"
  shows "\<exists>st' r. ingest table_driver [d] rid demo_time st = (st', r, None) \<and> ig_valid r = [d] \<and> faultless st'"
  using assms demo_year_ok
  by (simp add: faultless_def ingest_def ingest_check_def store_rows_def table_driver_def td_begin_def td_prepare_def
      td_exec_def td_commit_def next_fault_def marshal_device_def storable_def append_history_def Let_def)

lemma table_upserts_faultless:
  assumes "sv_store s = Some st" "faultless st"
  shows "\<exists>st'. sv_store (fold (upsert_step table_driver now) cs s) = Some st' \<and> faultless st'"
  using assms
proof (induction cs arbitrary: s st)
  case (Cons c cs)
  obtain st1 inc created err where u: "upsert_incident table_driver c now st = (st1, inc, created, err)"
    by (cases "upsert_incident table_driver c now st")
  have "faultless st1"
    using u Cons.prems(2) by (auto simp: faultless_def upsert_incident_def table_driver_def td_exec_def next_fault_def Let_def
        split: prod.splits if_splits sum.splits)
  moreover have "sv_store (upsert_step table_driver now c s) = Some st1" by (simp add: upsert_step_def Cons.prems u Let_def)
  ultimately show ?case using Cons.IH [of "upsert_step table_driver now c s" st1] by simp
qed simp

lemma table_serve:
  assumes "sv_store s = Some st" "faultless st" "validate d = None" "storable d"
    and "decode_ingest body = Some req" "iq_devices req = [d]"
  shows "\<exists>s' x st'. serve table_driver demo_env (telemetry_post body) s = (s', Some x) \<and> rs_status x = 200 \<and>
    sv_store s' = Some st' \<and> faultless st'"
proof -
  from table_ingest [OF assms(3,4,2)] obtain st1 r where
    i: "ingest table_driver [d] (iq_run_id req) demo_time st = (st1, r, None)" "ig_valid r = [d]" "faultless st1" by blast
  let ?s2 = "detect_anomalies [d] demo_time (count_ingest r (s\<lparr>sv_store := Some st1\<rparr>))"
  have "sv_store ?s2 = Some (record_anomalies (detect [d] demo_time) st1)"
    by (simp add: detect_anomalies_def count_ingest_def)
  moreover have "faultless (record_anomalies (detect [d] demo_time) st1)"
    using i(3) by (simp add: faultless_def record_anomalies_def Let_def)
  ultimately obtain st' where
    st': "sv_store (fold (upsert_step table_driver demo_time) (correlate [d]) ?s2) = Some st'" "faultless st'"
    using table_upserts_faultless by blast
  have "\<exists>x. handle_ingest table_driver demo_env (Inr body) s =
      (fold (upsert_step table_driver demo_time) (correlate [d]) ?s2, Some x) \<and> rs_status x = 200"
    using assms(1,5,6) i(1,2)
    by (simp add: handle_ingest_def decode_body_def and_then_def demo_env_def write_json_def correlate_incidents_def Let_def)
  then show ?thesis using st' by (auto simp: serve_telemetry record_metrics_def)
qed

text \<open>The answer to the first attempt is lost after the server has stored the sample; the second succeeds. The
  sample is in the history twice.\<close>

theorem simulator_deliveries_witness:
  "\<exists>s' st' iid i. sim_main (api_client table_driver) ''memory-pressure'' 1 demo_time
       (demo_server (demo_pstore []), [Handled demo_env (Some ''connection reset''), Handled demo_env None]) =
         Some (ExitStatus 0, (s', [])) \<and>
     sv_store s' = Some st' \<and> length (device_history st' ''rtr-01'') = 2 \<and>
     is_incidents (ps_incidents st') iid = Some i \<and> in_occurrence_key i = ''Memory Leak:rtr-01''"
proof -
  let ?s = "demo_server (demo_pstore [])"
  let ?fs = "[Handled demo_env (Some ''connection reset''), Handled demo_env None]"
  obtain r where r: "generate ''memory-pressure'' 1 demo_time = Some (Inr r)" using demo_generate by blast
  obtain k d where k: "k < 10" "sq_devices r = [d]" "d = scenario_sample ''memory-pressure'' (of_nat (40 + k)) demo_time"
    using generate_one [OF r] by blast
  note eff = scenario_effects_law [OF r demo_year_ok(1) demo_time_set]
  obtain c where c: "correlate (sq_devices r) = [c]" using eff by (auto simp: map_eq_Cons_conv)
  have st: "store_ok (ps_incidents (demo_pstore []))" "remembers (demo_pstore []) []"
    "td_pending (ps_db (demo_pstore [])) = None"
    using store_wf_new by (simp_all add: store_wf_def)
  have clean: "faultless (demo_pstore [])"
    by (simp add: faultless_def demo_pstore_def initial_pstore_def demo_db_def)
  have "upserts_fresh (ev_now demo_env) (correlate (sq_devices r)) (ps_incidents (demo_pstore []))"
    by (simp add: c fresh_id_def) (simp add: new_incident_store_def)
  then have fresh: "\<forall>ev lost. Handled ev lost \<in> set ?fs \<longrightarrow>
      upserts_fresh (ev_now ev) (correlate (sq_devices r)) (ps_incidents (demo_pstore []))" by simp
  have d: "validate d = None" "storable d" using eff k(2) scenario_sample_storable [OF k(1) demo_year_ok(1)] k(3) by simp_all
  let ?req = "\<lparr>iq_run_id = sq_run_id r, iq_scenario_id = ''memory-pressure'', iq_devices = [d], iq_logs = []\<rparr>"
  have dec: "decode_ingest (sim_request_json r) = Some ?req" using eff k(2) by simp
  have s0: "sv_store ?s = Some (demo_pstore [])" by simp
  from table_serve [OF s0 clean d dec] obtain s1 x1 st1 where
    v1: "serve table_driver demo_env (telemetry_post (sim_request_json r)) ?s = (s1, Some x1)" "rs_status x1 = 200"
      "sv_store s1 = Some st1" "faultless st1" by auto
  from table_serve [OF v1(3,4) d dec] obtain s2 x2 where
    v2: "serve table_driver demo_env (telemetry_post (sim_request_json r)) s1 = (s2, Some x2)" "rs_status x2 = 200" by auto
  have "post_request (api_client table_driver) r (?s, ?fs) =
      (None, [(1, RequestFailed ''connection reset'', 100)], (s2, []))"
    using eff v1(1) v2 by (simp add: post_request_def api_client_def)
  then have main: "sim_main (api_client table_driver) ''memory-pressure'' 1 demo_time (?s, ?fs) = Some (ExitStatus 0, (s2, []))"
    by (simp add: sim_main_def r)
  have two: "stored_attempts table_driver (sim_request_json r) ?s ?fs = 2" using v1(1,2) v2 by simp
  from simulator_deliveries [OF demo_laws s0 st(3,1,2) demo_year_ok(1) demo_time_set r fresh] main two k(2)
  show ?thesis by (auto simp: take_last_def) blast
qed

end
