(* ===== verification/ApiMain.thy ===== *)
theory ApiMain
  imports Api Logging Tracing Durability
begin

text \<open>
  \<open>cmd/vyomm-api/main.go\<close>: what the process builds at start and the retention pruning it runs beside
  the server. The environment, the file system, opening the database, the tracing SDK and the random
  bytes are parameters; an exit with status 1 is an error value. What the running process does until
  it ends is in \<open>ApiProcess\<close>.
\<close>

section \<open>Start\<close>

definition app_version :: string where "app_version = ''dev''"

definition runbook_path :: "env_lookup \<Rightarrow> string" where
  "runbook_path lookup =
     (case lookup ''VYOMM_RUNBOOK_PATH'' of
        Some p \<Rightarrow> if p \<noteq> '''' then p else ''./runbooks''
      | None \<Rightarrow> ''./runbooks'')"

text \<open>The layout \<open>20060102-150405\<close>.\<close>

definition compact_time :: "gotime \<Rightarrow> string" where
  "compact_time t =
     (let (y, m, d) = civil (unix t div 86400); r = nat (unix t mod 86400) in
      show_int0 4 y @ pad0 2 (show_nat m) @ pad0 2 (show_nat d) @ ''-'' @ pad0 2 (show_nat (r div 3600)) @
      pad0 2 (show_nat (r div 60 mod 60)) @ pad0 2 (show_nat (r mod 60)))"

definition new_run_id :: "int list option \<Rightarrow> gotime \<Rightarrow> string" where
  "new_run_id random now =
     (case random of
        None \<Rightarrow> ''run-unavailable''
      | Some b \<Rightarrow> ''run-'' @ compact_time now @ ''-'' @ hex_encode b)"

text \<open>The interval of the pruning ticker, in nanoseconds.\<close>

definition prune_interval :: "duration \<Rightarrow> duration" where
  "prune_interval retention =
     (let i0 = tdiv retention 4; i1 = (if i0 < 60000000000 then 60000000000 else i0) in
      if i1 > 3600000000000 then 3600000000000 else i1)"

datatype startup_error =
    ConfigError config_error
  | RunbooksFailed string
  | StoreFailed persist_error

record ('db, 'a) process =
  pr_server :: "'db server"
  pr_logger :: "'a log_handler"
  pr_interval :: duration
  pr_addr :: string

record ('db, 'x, 'r) outside =
  os_lookup :: env_lookup
  os_read_dir :: "string \<Rightarrow> string + dir_entry list"
  os_read_file :: "string \<Rightarrow> string \<Rightarrow> string + string"
  os_opener :: "'db db_opener"
  os_tracing :: "('x, 'r) trace_sdk"
  os_random :: "int list option"
  os_run_time :: gotime
  os_store_time :: gotime

definition startup :: "'db sql_driver \<Rightarrow> ('db, 'x, 'r) outside \<Rightarrow> startup_error + ('db, 'a) process" where
  "startup drv os =
     (case load_config (os_lookup os) of
        Inl e \<Rightarrow> Inl (ConfigError e)
      | Inr cfg \<Rightarrow>
          (let logger = new_logger ''vyomm-api'' (cf_environment_mode cfg) (level_from_string (cf_log_level cfg));
               run_id = new_run_id (os_random os) (os_run_time os)
           in case load_library (os_read_dir os) (os_read_file os) (runbook_path (os_lookup os)) of
                Inl e \<Rightarrow> Inl (RunbooksFailed e)
              | Inr lib \<Rightarrow>
                  (case new_store drv (open_db (os_opener os) (cf_sqlite_path cfg)) (retention_duration cfg) (os_store_time os) of
                     Inl e \<Rightarrow> Inl (StoreFailed e)
                   | Inr store \<Rightarrow>
                       (let otel_status = (case tracing_init (os_tracing os) (cf_otel_endpoint cfg)
                              (cf_sample_ratio cfg) ''vyomm-api'' of Inl e \<Rightarrow> ''disabled'' | Inr provider \<Rightarrow> ''enabled'')
                        in Inr \<lparr>pr_server = \<lparr>sv_store = Some store, sv_runbooks = Some lib, sv_metrics = Some [],
                               sv_config = cfg, sv_version = app_version, sv_run_id = run_id,
                               sv_otel_status = otel_status\<rparr>,
                             pr_logger = logger, pr_interval = prune_interval (retention_duration cfg),
                             pr_addr = cf_api_addr cfg\<rparr>))))"

section \<open>Pruning\<close>

text \<open>One tick: the line it logs, if any.\<close>

definition prune_tick ::
  "'db sql_driver \<Rightarrow> gotime \<Rightarrow> 'db pstore \<Rightarrow> 'db pstore \<times> (persist_error + nat) log_record option" where
  "prune_tick drv now st =
     (case prune drv now st of
        (st', Inl e) \<Rightarrow>
          (st', Some \<lparr>lr_level = 8, lr_message = ''retention prune failed'',
             lr_attrs = [(''event'', StringValue ''persistence.prune.failed''), (''error'', OtherValue (Inl e))]\<rparr>)
      | (st', Inr n) \<Rightarrow>
          (st', if n > 0 then Some \<lparr>lr_level = 0, lr_message = ''retention prune completed'',
             lr_attrs = [(''event'', StringValue ''persistence.prune.completed''),
               (''rows_pruned'', OtherValue (Inr n))]\<rparr> else None))"

text \<open>The loop of the goroutine over the times of the ticks, until it is stopped.\<close>

fun prune_loop ::
  "'db sql_driver \<Rightarrow> gotime list \<Rightarrow> 'db pstore \<Rightarrow> 'db pstore \<times> (persist_error + nat) log_record list" where
  "prune_loop drv [] st = (st, [])"
| "prune_loop drv (now # ticks) st =
     (let (st', line) = prune_tick drv now st; (st'', ls) = prune_loop drv ticks st'
      in (st'', (case line of None \<Rightarrow> ls | Some l \<Rightarrow> l # ls)))"

section \<open>The interval\<close>

lemma prune_interval_law:
  "60000000000 \<le> prune_interval r \<and> prune_interval r \<le> 3600000000000 \<and>
   (240000000000 \<le> r \<and> r \<le> 14400000000000 \<longrightarrow> prune_interval r = r div 4) \<and>
   (r \<le> 240000000000 \<longrightarrow> prune_interval r = 60000000000) \<and> (14400000000000 \<le> r \<longrightarrow> prune_interval r = 3600000000000)"
proof (cases "0 \<le> r")
  case True
  then show ?thesis by (auto simp: prune_interval_def tdiv_nonneg Let_def)
next
  case False
  then have "tdiv r 4 \<le> 0" by (simp add: tdiv_def sgn_if)
  then show ?thesis using False by (simp add: prune_interval_def Let_def)
qed

section \<open>A started process\<close>

lemma level_of_config:
  "l \<in> log_levels \<Longrightarrow> level_from_string l =
     (if l = ''debug'' then - 4 else if l = ''info'' then 0 else if l = ''warn'' then 4 else 8)"
  unfolding log_levels_def by (elim insertE emptyE) (simp; code_simp)+

lemma startup_InrD:
  assumes "startup drv os = Inr p"
  obtains cfg lib st where "load_config (os_lookup os) = Inr cfg"
    and "load_library (os_read_dir os) (os_read_file os) (runbook_path (os_lookup os)) = Inr lib"
    and "new_store drv (open_db (os_opener os) (cf_sqlite_path cfg)) (retention_duration cfg) (os_store_time os) = Inr st"
    and "sv_store (pr_server p) = Some st" and "sv_runbooks (pr_server p) = Some lib"
    and "sv_metrics (pr_server p) = Some []" and "sv_config (pr_server p) = cfg"
    and "pr_logger p = new_logger ''vyomm-api'' (cf_environment_mode cfg) (level_from_string (cf_log_level cfg))"
    and "pr_interval p = prune_interval (retention_duration cfg)" and "pr_addr p = cf_api_addr cfg"
  using assms by (auto simp: startup_def Let_def split: sum.splits option.splits)

lemma retention_small:
  "0 < cf_retention_hours c \<Longrightarrow> cf_retention_hours c \<le> 2562047 \<Longrightarrow>
     retention_duration c = cf_retention_hours c * 3600000000000"
  by (simp add: retention_duration_def)

text \<open>
  C30: A process that starts is configured by its environment alone. It listens where
  \<open>VYOMM_API_ADDR\<close> says, its logger (service, mode and level fixed at start) writes a record exactly
  when the record reaches the level \<open>VYOMM_LOG_LEVEL\<close> names whatever its case, and it prunes every
  15 minutes per configured hour, at most every hour; hours that overflow the retention window
  make it prune every minute.
\<close>

theorem startup_configured:
  assumes "startup drv os = Inr p"
  shows "\<exists>hours level. atoi (setting (os_lookup os) ''VYOMM_TELEMETRY_RETENTION_HOURS'' ''24'') = Inr hours \<and>
    (to_lower (setting (os_lookup os) ''VYOMM_LOG_LEVEL'' ''info''), level) \<in>
      {(''debug'', - 4), (''info'', 0), (''warn'', 4), (''error'', 8)} \<and>
    (\<forall>r. log_line (pr_logger p) r \<noteq> None \<longleftrightarrow> level \<le> lr_level r) \<and>
    pr_addr p = setting (os_lookup os) ''VYOMM_API_ADDR'' '':8080'' \<and>
    60 * 10 ^ 9 \<le> pr_interval p \<and> pr_interval p \<le> 3600 * 10 ^ 9 \<and>
    (hours \<le> 2562047 \<longrightarrow> pr_interval p = min (hours * 900 * 10 ^ 9) (3600 * 10 ^ 9)) \<and>
    (2562048 \<le> hours \<and> hours \<le> 5124095 \<longrightarrow> pr_interval p = 60 * 10 ^ 9)"
proof -
  from assms obtain cfg where c: "load_config (os_lookup os) = Inr cfg"
    "pr_logger p = new_logger ''vyomm-api'' (cf_environment_mode cfg) (level_from_string (cf_log_level cfg))"
    "pr_interval p = prune_interval (retention_duration cfg)" "pr_addr p = cf_api_addr cfg"
    by (rule startup_InrD)
  note law = c(1) [unfolded load_config_law]
  let ?h = "cf_retention_hours cfg"
  have small: "?h \<le> 2562047 \<longrightarrow> pr_interval p = min (?h * 900 * 10 ^ 9) (3600 * 10 ^ 9)"
    using law prune_interval_law [of "retention_duration cfg"] retention_small [of cfg] c(3)
    by (auto simp: min_def)
  have big: "2562048 \<le> ?h \<and> ?h \<le> 5124095 \<longrightarrow> pr_interval p = 60 * 10 ^ 9"
  proof
    assume h: "2562048 \<le> ?h \<and> ?h \<le> 5124095"
    then have "retention_duration cfg < 0" by (simp add: retention_duration_def wrap64_above)
    with prune_interval_law [of "retention_duration cfg"] c(3) show "pr_interval p = 60 * 10 ^ 9" by simp
  qed
  have set: "atoi (setting (os_lookup os) ''VYOMM_TELEMETRY_RETENTION_HOURS'' ''24'') = Inr ?h"
    "pr_addr p = setting (os_lookup os) ''VYOMM_API_ADDR'' '':8080''"
    "cf_log_level cfg = to_lower (setting (os_lookup os) ''VYOMM_LOG_LEVEL'' ''info'')" "cf_log_level cfg \<in> log_levels"
    unfolding c(4) using law by blast+
  have level: "(cf_log_level cfg, level_from_string (cf_log_level cfg)) \<in>
      {(''debug'', - 4), (''info'', 0), (''warn'', 4), (''error'', 8)}"
    using level_of_config [OF set(4)] set(4) unfolding log_levels_def by (elim insertE emptyE) simp_all
  have log: "\<forall>r. log_line (pr_logger p) r \<noteq> None \<longleftrightarrow> level_from_string (cf_log_level cfg) \<le> lr_level r"
    by (simp add: c(2) log_line_def new_logger_simps)
  have "60 * 10 ^ 9 \<le> pr_interval p \<and> pr_interval p \<le> 3600 * 10 ^ 9"
    using prune_interval_law [of "retention_duration cfg"] c(3) by simp
  with set(1,2) level [unfolded set(3)] log small big show ?thesis unfolding set(3) by blast
qed

section \<open>What pruning does to the store\<close>

lemma new_store_keeps:
  assumes "sql_laws drv committed pending" "pending db = None" "new_store drv (Inr db) retention now = Inr st"
  shows "ps_retention st = retention \<and> pending (ps_db st) = None \<and> committed (ps_db st) = committed db"
proof -
  obtain ds irows all drows decided db' where
    "st = (fold append_history ds (initial_pstore db retention))
       \<lparr>ps_db := db', ps_incidents := inc_restore all decided new_incident_store\<rparr>"
    "pending db' = None" "committed db' = committed db"
    by (rule new_store_InrE [OF assms])
  then show ?thesis by (simp add: fold_append_history) (simp add: initial_pstore_def)
qed

definition rows_logged :: "(persist_error + nat) log_record list \<Rightarrow> nat" where
  "rows_logged ls = sum_list (map (\<lambda>l. case map_of (lr_attrs l) ''rows_pruned'' of
     Some (OtherValue (Inr n)) \<Rightarrow> n | _ \<Rightarrow> 0) ls)"

lemma prune_tick_law:
  assumes "sql_laws drv committed pending" "pending (ps_db s) = None" "prune_tick drv now s = (s', line)"
  shows "s' = s\<lparr>ps_db := ps_db s'\<rparr> \<and> pending (ps_db s') = None \<and>
    (\<exists>rows. committed (ps_db s') = (committed (ps_db s))\<lparr>tb_telemetry := rows\<rparr> \<and>
       set rows \<subseteq> set (tb_telemetry (committed (ps_db s))) \<and>
       rows_logged (case line of None \<Rightarrow> [] | Some l \<Rightarrow> [l]) + length rows = length (tb_telemetry (committed (ps_db s))))"
proof -
  let ?c = "rfc3339 (retention_cutoff now s)"
  obtain db r where x: "sd_exec drv (DeleteTelemetry ?c) (ps_db s) = (db, r)" by fastforce
  note law = sql_laws.exec_law [OF assms(1,2) x]
  show ?thesis
  proof (cases r)
    case (Inl e)
    then have "s' = s\<lparr>ps_db := db\<rparr>"
      "line = Some \<lparr>lr_level = 8, lr_message = ''retention prune failed'',
         lr_attrs = [(''event'', StringValue ''persistence.prune.failed''), (''error'', OtherValue (Inl (ErrPrune e)))]\<rparr>"
      using assms(3) x by (simp_all add: prune_tick_def prune_def)
    with law Inl show ?thesis
      by (simp add: rows_logged_def) (metis order_refl tables.surjective tables.update_convs(1))
  next
    case (Inr n)
    let ?rows = "filter (\<lambda>r. \<not> tr_observed_at r < ?c) (tb_telemetry (committed (ps_db s)))"
    from law Inr have db: "pending db = None" "committed db = (committed (ps_db s))\<lparr>tb_telemetry := ?rows\<rparr>"
      "n = length (filter (\<lambda>r. tr_observed_at r < ?c) (tb_telemetry (committed (ps_db s))))" by auto
    have "s' = s\<lparr>ps_db := db\<rparr>" "rows_logged (case line of None \<Rightarrow> [] | Some l \<Rightarrow> [l]) = n"
      using assms(3) x Inr by (auto simp: prune_tick_def prune_def rows_logged_def split: if_splits)
    moreover have "n + length ?rows = length (tb_telemetry (committed (ps_db s)))"
      unfolding db(3) by (rule filter_eq_length_le)
    ultimately show ?thesis using db by (intro conjI exI [of _ ?rows]) auto
  qed
qed

lemma prune_loop_law:
  assumes "sql_laws drv committed pending" "pending (ps_db s) = None" "prune_loop drv ticks s = (s', ls)"
  shows "s' = s\<lparr>ps_db := ps_db s'\<rparr> \<and> pending (ps_db s') = None \<and>
    (\<exists>rows. committed (ps_db s') = (committed (ps_db s))\<lparr>tb_telemetry := rows\<rparr> \<and>
       set rows \<subseteq> set (tb_telemetry (committed (ps_db s))) \<and>
       rows_logged ls + length rows = length (tb_telemetry (committed (ps_db s))))"
  using assms(2,3)
proof (induction ticks arbitrary: s ls)
  case Nil
  then show ?case by (auto simp: rows_logged_def intro!: exI [of _ "tb_telemetry (committed (ps_db s))"])
next
  case (Cons now ticks)
  obtain s1 line where t: "prune_tick drv now s = (s1, line)" by (cases "prune_tick drv now s")
  obtain s2 ls2 where l: "prune_loop drv ticks s1 = (s2, ls2)" by (cases "prune_loop drv ticks s1")
  from Cons.prems t l have res: "s2 = s'" "ls = (case line of None \<Rightarrow> [] | Some x \<Rightarrow> [x]) @ ls2"
    by (auto split: option.splits)
  from prune_tick_law [OF assms(1) Cons.prems(1) t] obtain rows1 where r1: "s1 = s\<lparr>ps_db := ps_db s1\<rparr>"
    "pending (ps_db s1) = None" "committed (ps_db s1) = (committed (ps_db s))\<lparr>tb_telemetry := rows1\<rparr>"
    "set rows1 \<subseteq> set (tb_telemetry (committed (ps_db s)))"
    "rows_logged (case line of None \<Rightarrow> [] | Some l \<Rightarrow> [l]) + length rows1 = length (tb_telemetry (committed (ps_db s)))"
    by blast
  from Cons.IH [OF r1(2) l [unfolded res]] obtain rows2 where r2: "s' = s1\<lparr>ps_db := ps_db s'\<rparr>"
    "pending (ps_db s') = None" "committed (ps_db s') = (committed (ps_db s1))\<lparr>tb_telemetry := rows2\<rparr>"
    "set rows2 \<subseteq> set (tb_telemetry (committed (ps_db s1)))"
    "rows_logged ls2 + length rows2 = length (tb_telemetry (committed (ps_db s1)))" by blast
  have "s' = s\<lparr>ps_db := ps_db s'\<rparr>" using r1(1) r2(1) by (metis pstore.surjective pstore.update_convs(1))
  moreover have "rows_logged ls = rows_logged (case line of None \<Rightarrow> [] | Some x \<Rightarrow> [x]) + rows_logged ls2"
    unfolding res(2) by (simp add: rows_logged_def)
  ultimately show ?case using r1 r2 by (intro conjI exI [of _ rows2]) auto
qed

text \<open>
  However often the pruning loop runs and whatever statements fail, it only ever removes telemetry
  rows: the memory of the store (histories, incidents, audit trail) and the other tables stay as they
  were, no row is added, and the rows it reports in its log lines are exactly the rows that are
  gone.
\<close>

lemma prune_loop_accounts:
  assumes "sql_laws drv committed pending" "pending (ps_db s) = None" "prune_loop drv ticks s = (s', ls)"
  shows "(\<forall>h. device_history s' h = device_history s h) \<and> ps_incidents s' = ps_incidents s \<and>
    tb_incidents (committed (ps_db s')) = tb_incidents (committed (ps_db s)) \<and>
    tb_decisions (committed (ps_db s')) = tb_decisions (committed (ps_db s)) \<and>
    set (tb_telemetry (committed (ps_db s'))) \<subseteq> set (tb_telemetry (committed (ps_db s))) \<and>
    rows_logged ls + length (tb_telemetry (committed (ps_db s'))) = length (tb_telemetry (committed (ps_db s)))"
proof -
  from prune_loop_law [OF assms] obtain rows where r: "s' = s\<lparr>ps_db := ps_db s'\<rparr>"
    "committed (ps_db s') = (committed (ps_db s))\<lparr>tb_telemetry := rows\<rparr>"
    "set rows \<subseteq> set (tb_telemetry (committed (ps_db s)))"
    "rows_logged ls + length rows = length (tb_telemetry (committed (ps_db s)))" by blast
  have "ps_history s' = ps_history s" "ps_incidents s' = ps_incidents s" by (subst r(1), simp)+
  with r(2-4) show ?thesis by (simp add: device_history_def)
qed

lemma overflow_hours_window:
  assumes "2562048 \<le> cf_retention_hours cfg" "cf_retention_hours cfg \<le> 5124095"
  shows "- (2 ^ 63) < retention_duration cfg \<and> retention_duration cfg \<le> - (10 ^ 9)"
  using assms by (simp add: retention_duration_def wrap64_above)

text \<open>
  C31: Hours of retention that the configuration accepts but whose window, wrapped to 64 bits, is
  negative by at least a second turn retention into deletion. The hours from 2562048 to 5124095 all
  wrap so (\<open>overflow_hours_window\<close>); larger ones may wrap to a positive window again and are not meant.
  If a process with such a window starts, which needs the rest of its environment in order, it prunes
  after one minute, and its first tick deletes every telemetry row or logs that the statement failed,
  provided no row was observed in the future and the cutoff still has a year of four digits.
\<close>

theorem retention_overflow_deletes:
  assumes "sql_laws drv committed pending" "startup drv os = Inr p"
    and "load_config (os_lookup os) = Inr cfg"
    and "- (2 ^ 63) < retention_duration cfg" "retention_duration cfg \<le> - (10 ^ 9)"
    and "open_db (os_opener os) (cf_sqlite_path cfg) = Inr db" "pending db = None"
    and "\<forall>r \<in> set (tb_telemetry (committed db)). year_ok (observed r) \<and> tr_observed_at r = rfc3339 (observed r) \<and>
      observed r \<le> now"
    and "year_ok (now - retention_duration cfg)"
  shows "\<exists>st st' line. sv_store (pr_server p) = Some st \<and> pr_interval p = 60 * 10 ^ 9 \<and>
    prune_tick drv now st = (st', line) \<and>
    (tb_telemetry (committed (ps_db st')) = [] \<or>
     (\<exists>l. line = Some l \<and> lr_message l = ''retention prune failed''))"
proof -
  from assms(2) obtain cfg' st where p: "load_config (os_lookup os) = Inr cfg'"
    "new_store drv (open_db (os_opener os) (cf_sqlite_path cfg')) (retention_duration cfg') (os_store_time os) = Inr st"
    "sv_store (pr_server p) = Some st" "pr_interval p = prune_interval (retention_duration cfg')" by (rule startup_InrD)
  then have cfg: "cfg' = cfg" using assms(3) by simp
  let ?R = "retention_duration cfg"
  have neg: "?R < 0" "in_int64 (- ?R)" using assms(4,5) by simp_all
  from p(2) have "new_store drv (Inr db) ?R (os_store_time os) = Inr st" by (simp add: cfg assms(6))
  note st = new_store_keeps [OF assms(1,7) this]
  obtain st1 res where x: "prune drv now st = (st1, res)" by (cases "prune drv now st")
  obtain st' line where t: "prune_tick drv now st = (st', line)" by (cases "prune_tick drv now st")
  have law: "\<forall>n. res = Inr n \<longrightarrow> committed (ps_db st1) = (committed (ps_db st))
      \<lparr>tb_telemetry := filter (\<lambda>r. unix (now - ps_retention st) \<le> unix (observed r)) (tb_telemetry (committed (ps_db st)))\<rparr>"
    using prune_exact_law [OF assms(1) _ x, of observed] st neg(2) assms(8,9) by simp
  have later: "unix (observed r) < unix (now - ?R)" if "r \<in> set (tb_telemetry (committed db))" for r
  proof -
    have "observed r \<le> now" using assms(8) that by blast
    moreover have "10 ^ 9 \<le> - ?R" using assms(5) by simp
    ultimately have "observed r + 10 ^ 9 \<le> now - ?R" by simp
    then show ?thesis by (simp add: unix_def nsec_per_sec_def)
  qed
  then have none: "filter (\<lambda>r. unix (now - ps_retention st) \<le> unix (observed r)) (tb_telemetry (committed (ps_db st))) = []"
    using st by (auto simp: filter_empty_conv not_le)
  have "pr_interval p = 60 * 10 ^ 9" using p(4) prune_interval_law [of ?R] neg(1) by (simp add: cfg)
  moreover have "tb_telemetry (committed (ps_db st')) = [] \<or> (\<exists>l. line = Some l \<and> lr_message l = ''retention prune failed'')"
  proof (cases res)
    case (Inl e)
    then show ?thesis using t x by (auto simp: prune_tick_def)
  next
    case (Inr n)
    then have "st' = st1" using t x by (simp add: prune_tick_def)
    with law Inr none show ?thesis by simp
  qed
  ultimately show ?thesis using p(3) t by blast
qed

end
