(* ===== verification/Lifetimes.thy ===== *)
theory Lifetimes
  imports ServerRuns
begin

text \<open>
  The durable store across any number of processes: the operations of a running process, a stop or a
  crash at any point, and the restart, \<open>NewStore\<close> on the tables the last process left. A failed
  statement leaves the tables as they were, so a process that stops after it restarts from the state
  before the operation; one that goes on loses the recurrence numbering.
\<close>

section \<open>The incident store after a restart\<close>

text \<open>Cutting instants to seconds changes neither the rows nor the invariant.\<close>

lemma rfc3339_trunc_sec [simp]: "rfc3339 (trunc_sec t) = rfc3339 t"
  by (simp add: rfc3339_def)

lemma year_ok_trunc_sec [simp]: "year_ok (trunc_sec t) = year_ok t"
  by (simp add: year_ok_def)

lemma trunc_incident_simps [simp]:
  "incident_row_of (trunc_incident i) = incident_row_of i"
  "in_id (trunc_incident i) = in_id i" "in_occurrence_key (trunc_incident i) = in_occurrence_key i"
  "in_occurrence_sequence (trunc_incident i) = in_occurrence_sequence i"
  "in_status (trunc_incident i) = in_status i"
  "in_created_at (trunc_incident i) = trunc_sec (in_created_at i)"
  "in_updated_at (trunc_incident i) = trunc_sec (in_updated_at i)"
  by (simp_all add: trunc_incident_def incident_row_of_def)

lemma trunc_decision_simps [simp]:
  "decision_row_of (trunc_decision d) = decision_row_of d"
  "de_incident_id (trunc_decision d) = de_incident_id d" "de_status (trunc_decision d) = de_status d"
  "de_decided_at (trunc_decision d) = trunc_sec (de_decided_at d)"
  by (simp_all add: trunc_decision_def decision_row_of_def)

text \<open>A store and its image after a restart.\<close>

definition reread :: "incident_store \<Rightarrow> incident_store \<Rightarrow> bool" where
  "reread m m' \<longleftrightarrow>
     is_incidents m' = map_option trunc_incident \<circ> is_incidents m \<and>
     (\<forall>k. inc_history m' k = inc_history m k) \<and>
     (\<forall>iid. inc_decisions m' iid = map trunc_decision (inc_decisions m iid))"

lemma reread_store_ok: assumes "reread m m'" "store_ok m" shows "store_ok m'"
proof -
  have r: "is_incidents m' iid = map_option trunc_incident (is_incidents m iid)"
    "inc_history m' k = inc_history m k" "inc_decisions m' iid = map trunc_decision (inc_decisions m iid)" for iid k
    using assms(1) by (simp_all add: reread_def)
  have ok: "linked m" "active_is_last m" "audited m" using assms(2) by (simp_all add: store_ok_def)
  have "linked m'"
    unfolding linked_def r
  proof (intro conjI allI impI)
    fix iid i assume "map_option trunc_incident (is_incidents m iid) = Some i"
    then show "in_id i = iid" "iid \<in> set (inc_history m (in_occurrence_key i))"
      using linkedD1 [OF ok(1)] by auto
  next
    fix k n assume "n < length (inc_history m k)"
    from linkedD2 [OF ok(1) this] show "\<exists>i. map_option trunc_incident (is_incidents m (inc_history m k ! n)) =
        Some i \<and> in_occurrence_key i = k \<and> in_occurrence_sequence i = int n + 1" by auto
  qed
  moreover have "active_is_last m'" using ok(2) by (auto simp: active_is_last_def r)
  moreover have "audited m'"
    using ok(3) by (auto simp: audited_def r last_map Let_def split: if_splits)
  ultimately show ?thesis by (simp add: store_ok_def)
qed

lemma reread_rows: assumes "reread m m'" "mirrors t m" shows "mirrors t m'"
proof -
  have r: "is_incidents m' iid = map_option trunc_incident (is_incidents m iid)"
    "inc_decisions m' iid = map trunc_decision (inc_decisions m iid)" for iid
    using assms(1) by (simp_all add: reread_def)
  have "ran (is_incidents m') = trunc_incident ` ran (is_incidents m)" by (force simp: ran_def r image_iff)
  moreover have "incident_row_of ` trunc_incident ` X = incident_row_of ` X" for X by (simp add: image_image)
  moreover have "map decision_row_of (map trunc_decision ds) = map decision_row_of ds" for ds by simp
  ultimately show ?thesis using assms(2) by (simp only: mirrors_def r simp_thms)
qed

lemma reread_times: assumes "reread m m'" "times_ok m" shows "times_ok m'"
proof -
  have r: "is_incidents m' iid = map_option trunc_incident (is_incidents m iid)"
    "inc_decisions m' iid = map trunc_decision (inc_decisions m iid)" for iid
    using assms(1) by (simp_all add: reread_def)
  show ?thesis
    using assms(2) by (auto simp: times_ok_def r ran_def o_def)
qed

lemma reread_count: "reread m m' \<Longrightarrow> active_count m' = active_count m"
  by (auto simp: reread_def active_count_def intro!: arg_cong [where f = card])

lemma reread_finite: "reread m m' \<Longrightarrow> finite (dom (is_incidents m')) = finite (dom (is_incidents m))"
  by (simp add: reread_def dom_map_option_comp)

lemma restarted:
  assumes "sql_laws drv committed pending" "pending db = None" "new_store drv (Inr db) retention now = Inr s"
    and "mirrors (committed db) m" "store_ok m" "times_ok m"
  shows "reread m (ps_incidents s)" "\<exists>S. durable_ok committed pending S s"
    "committed (ps_db s) = committed db" "ps_anomalies s = []" "ps_retention s = retention"
proof -
  obtain ds irows all drows decided db' where n:
    "s = (fold append_history ds (initial_pstore db retention))
       \<lparr>ps_db := db', ps_incidents := inc_restore all decided new_incident_store\<rparr>"
    "mset irows = mset (tb_incidents (committed db))"
    "sorted (map (\<lambda>x. (ir_occurrence_key x, ir_occurrence_sequence x)) irows)"
    "incidents_of_rows irows = Inr all"
    "mset drows = mset (tb_decisions (committed db))" "sorted (map dr_decided_at drows)"
    "decisions_of_rows drows Map.empty = Inr decided"
    "pending db' = None" "committed db' = committed db" by (rule new_store_InrE [OF assms(1-3)])
  obtain all' where i:
    "incidents_of_rows irows = Inr all'"
    "is_incidents (inc_restore all' decided new_incident_store) = map_option trunc_incident \<circ> is_incidents m"
    "\<And>k. inc_history (inc_restore all' decided new_incident_store) k = inc_history m k"
    "is_decisions (inc_restore all' decided new_incident_store) = decided"
    using restore_incident_rows [OF assms(4-6) n(2,3), of decided] by blast
  from restore_decision_rows [OF assms(4-6) n(5,6)] obtain ds' where d:
    "decisions_of_rows drows Map.empty = Inr ds'"
    "\<And>iid. lookup_list ds' iid = map trunc_decision (inc_decisions m iid)" by blast
  have inc: "ps_incidents s = inc_restore all' decided new_incident_store" using n(1,4) i(1) by simp
  show "reread m (ps_incidents s)"
    using i(2-4) d n(7) by (simp add: reread_def inc inc_decisions_def)
  then have ok: "store_ok (ps_incidents s)" "mirrors (committed db) (ps_incidents s)"
    using reread_store_ok reread_rows assms(4,5) by blast+
  have "remembers (initial_pstore db retention) []"
    by (simp add: remembers_def device_history_def initial_pstore_def)
  from remembers_fold [OF this, of ds] have "remembers s ds" by (simp add: n(1))
  with ok n(8,9) show "\<exists>S. durable_ok committed pending S s" by (auto simp: durable_ok_def n(1))
  show "committed (ps_db s) = committed db" "ps_anomalies s = []" "ps_retention s = retention"
    using n(9) by (simp_all add: n(1) fold_append_history) (simp_all add: initial_pstore_def)
qed

text \<open>Whatever the tables hold, a restart gives every incident the status of its row; so an incident that
  was resolved in memory but not in its table (\<open>decision_overtakes_insert\<close>) is active again.\<close>

lemma incidents_of_rows_all2:
  "incidents_of_rows rows = Inr all \<Longrightarrow> list_all2 (\<lambda>r i. incident_of_row r = Inr i) rows all"
proof (induction rows arbitrary: all)
  case (Cons r rows)
  then show ?case by (auto split: sum.splits)
qed simp

lemma incident_of_row_keeps:
  "incident_of_row r = Inr i \<Longrightarrow> in_id i = ir_id r \<and> in_status i = ir_status r \<and>
     in_occurrence_key i = ir_occurrence_key r \<and> in_occurrence_sequence i = ir_occurrence_sequence r"
  by (auto simp: incident_of_row_def split: option.splits sum.splits)

lemma restart_takes_status:
  assumes "sql_laws drv committed pending" "pending db = None" "new_store drv (Inr db) retention now = Inr s"
    and "distinct (map ir_id (tb_incidents (committed db)))" "r \<in> set (tb_incidents (committed db))"
  shows "\<exists>i. is_incidents (ps_incidents s) (ir_id r) = Some i \<and> in_status i = ir_status r"
proof -
  obtain ds irows all drows decided db' where n:
    "s = (fold append_history ds (initial_pstore db retention))
       \<lparr>ps_db := db', ps_incidents := inc_restore all decided new_incident_store\<rparr>"
    "mset irows = mset (tb_incidents (committed db))" "incidents_of_rows irows = Inr all"
    by (rule new_store_InrE [OF assms(1-3)])
  note a = incidents_of_rows_all2 [OF n(3)]
  have ids: "map in_id all = map ir_id irows"
    using a incident_of_row_keeps by (auto simp: list_all2_conv_all_nth intro!: nth_equalityI)
  have "mset (map in_id all) = mset (map ir_id (tb_incidents (committed db)))" unfolding ids using n(2) by simp
  then have d: "distinct (map in_id all)" using assms(4) mset_eq_imp_distinct_iff by blast
  have "r \<in> set irows" using assms(5) mset_eq_setD [OF n(2)] by simp
  then obtain k where k: "k < length irows" "irows ! k = r" by (auto simp: in_set_conv_nth)
  define i where "i = all ! k"
  have i: "i \<in> set all" "incident_of_row r = Inr i"
    using list_all2_nthD [OF a k(1)] list_all2_lengthD [OF a] k by (simp_all add: i_def)
  have "map_of (map (\<lambda>i. (in_id i, i)) (rev all)) (in_id i) = Some i"
    by (rule map_of_is_SomeI) (use d i(1) in \<open>auto simp: o_def rev_map distinct_map inj_on_def\<close>)
  then have "is_incidents (ps_incidents s) (in_id i) = Some i"
    by (simp add: n(1) inc_restore_def Let_def fold_restore(1) rev_map)
  with incident_of_row_keeps [OF i(2)] show ?thesis by auto
qed

section \<open>Any number of processes\<close>

text \<open>
  The states of the durable store over all processes on one database: the first start on empty tables;
  the operations of a running process, whether or not their statements succeed, a process going on
  after a failure as the handlers do; and a restart, which may come at any time because only the
  tables survive. A crash inside or right after a failed operation leaves the tables as they were
  before it (\<open>life_crash_upsert\<close>, \<open>life_crash_decide\<close>), so it is a restart from the state before. The
  flag tells whether the history is clean: no process went on after the statement of an incident
  operation failed, and each left times of four-digit years and the decisions of each incident in
  distinct, increasing seconds. New identifiers are fresh in memory and in the audit trail.
\<close>

definition fresh_audit :: "candidate \<Rightarrow> gotime \<Rightarrow> incident_store \<Rightarrow> tables \<Rightarrow> bool" where
  "fresh_audit c now m t \<longleftrightarrow>
     new_incident_id (cd_occurrence_key c) (int (length (inc_history m (cd_occurrence_key c))) + 1) now
       \<notin> dr_incident_id ` set (tb_decisions t)"

inductive lives :: "'db sql_driver \<Rightarrow> ('db \<Rightarrow> tables) \<Rightarrow> ('db \<Rightarrow> tables option) \<Rightarrow> bool \<Rightarrow> 'db pstore \<Rightarrow> bool"
  for drv :: "'db sql_driver" and committed :: "'db \<Rightarrow> tables" and pending :: "'db \<Rightarrow> tables option" where
  life_first: "pending db = None \<Longrightarrow> committed db = empty_tables \<Longrightarrow>
    new_store drv (Inr db) retention now = Inr s \<Longrightarrow> lives drv committed pending True s"
| life_ingest: "lives drv committed pending clean s \<Longrightarrow>
    ingest drv devices run_id now s = (s', r, err) \<Longrightarrow> lives drv committed pending clean s'"
| life_record: "lives drv committed pending clean s \<Longrightarrow> lives drv committed pending clean (record_anomalies new s)"
| life_prune: "lives drv committed pending clean s \<Longrightarrow> prune drv now s = (s', res) \<Longrightarrow>
    lives drv committed pending clean s'"
| life_ping: "lives drv committed pending clean s \<Longrightarrow> ping drv s = (s', e) \<Longrightarrow> lives drv committed pending clean s'"
| life_upsert: "lives drv committed pending clean s \<Longrightarrow> fresh_id c now (ps_incidents s) \<Longrightarrow>
    fresh_audit c now (ps_incidents s) (committed (ps_db s)) \<Longrightarrow>
    upsert_incident drv c now s = (s', inc, created, err) \<Longrightarrow>
    lives drv committed pending (clean \<and> err = None) s'"
| life_decide: "lives drv committed pending clean s \<Longrightarrow> status \<noteq> IncActive \<Longrightarrow>
    decide_incident drv iid status actor now s = (s', res, err) \<Longrightarrow>
    lives drv committed pending (clean \<and> (err = None \<or> res = None)) s'"
| life_restart: "lives drv committed pending clean s \<Longrightarrow>
    pending db = None \<Longrightarrow> committed db = committed (ps_db s) \<Longrightarrow>
    new_store drv (Inr db) retention now = Inr s' \<Longrightarrow>
    lives drv committed pending (clean \<and> times_ok (ps_incidents s)) s'"

section \<open>The rows and their newest decisions\<close>

definition rows_current :: "tables \<Rightarrow> bool" where
  "rows_current t \<longleftrightarrow> distinct (map ir_id (tb_incidents t)) \<and>
     (\<forall>r \<in> set (tb_incidents t).
        let ds = filter (\<lambda>d. dr_incident_id d = ir_id r) (tb_decisions t) in
        ir_status r = (if ds = [] then IncActive else dr_status (last ds)) \<and>
        ir_updated_at r = (if ds = [] then ir_created_at r else dr_decided_at (last ds)))"

lemma rows_current_telemetry [simp]: "rows_current (t\<lparr>tb_telemetry := rows\<rparr>) \<longleftrightarrow> rows_current t"
  by (simp add: rows_current_def)

lemma rows_current_insert:
  assumes "rows_current t" "stmt_allowed (InsertIncident (incident_row_of i)) t"
    and "in_id i \<notin> dr_incident_id ` set (tb_decisions t)" "in_status i = IncActive" "in_updated_at i = in_created_at i"
  shows "rows_current (fst (stmt_effect (InsertIncident (incident_row_of i)) t))"
proof -
  have "filter (\<lambda>d. dr_incident_id d = in_id i) (tb_decisions t) = []"
    unfolding filter_empty_conv using assms(3) by (metis imageI)
  then show ?thesis
    using assms(1,2,4,5) by (simp add: rows_current_def) (simp add: incident_row_of_def)
qed

lemma rows_current_decide:
  assumes "rows_current t"
  shows "rows_current (fst (stmt_effect (InsertDecision (decision_row_of
        \<lparr>de_incident_id = iid, de_status = st, de_actor = actor, de_decided_at = now\<rparr>))
      (fst (stmt_effect (UpdateIncident st (rfc3339 now) iid) t))))" (is "rows_current ?t")
proof -
  let ?d = "decision_row_of \<lparr>de_incident_id = iid, de_status = st, de_actor = actor, de_decided_at = now\<rparr>"
  let ?f = "\<lambda>r. if ir_id r = iid then r\<lparr>ir_status := st, ir_updated_at := rfc3339 now\<rparr> else r"
  have t: "tb_incidents ?t = map ?f (tb_incidents t)" "tb_decisions ?t = tb_decisions t @ [?d]" by simp_all
  have d: "dr_incident_id ?d = iid" "dr_status ?d = st" "dr_decided_at ?d = rfc3339 now"
    by (simp_all add: decision_row_of_def)
  have "map ir_id (tb_incidents ?t) = map ir_id (tb_incidents t)" unfolding t map_map by simp
  then have ids: "distinct (map ir_id (tb_incidents ?t))" using assms by (metis rows_current_def)
  have cur: "let ds = filter (\<lambda>d. dr_incident_id d = ir_id (?f r)) (tb_decisions t @ [?d]) in
      ir_status (?f r) = (if ds = [] then IncActive else dr_status (last ds)) \<and>
      ir_updated_at (?f r) = (if ds = [] then ir_created_at (?f r) else dr_decided_at (last ds))"
    if "r \<in> set (tb_incidents t)" for r
  proof (cases "ir_id r = iid")
    case True
    then show ?thesis by (simp add: d)
  next
    case False
    with assms that show ?thesis by (simp add: d rows_current_def)
  qed
  show ?thesis unfolding rows_current_def t(2) using ids cur unfolding t(1) set_map ball_simps by blast
qed

text \<open>A failed incident operation leaves the tables as they were.\<close>

lemma failed_upsert_tables:
  assumes "sql_laws drv committed pending" "pending (ps_db s) = None"
    and "upsert_incident drv c now s = (s1, inc, created, Some e)"
  shows "committed (ps_db s1) = committed (ps_db s)"
proof -
  obtain m i b where u: "inc_upsert c now (ps_incidents s) = (m, i, b)" by (cases "inc_upsert c now (ps_incidents s)")
  obtain db' r where x: "sd_exec drv (InsertIncident (incident_row_of i)) (ps_db s) = (db', r)" by fastforce
  show ?thesis
    using assms(3) u x sql_laws.exec_law [OF assms(1,2) x]
    by (cases r) (auto simp: upsert_incident_def Let_def split: if_splits)
qed

lemma failed_decide_tables:
  assumes "sql_laws drv committed pending" "pending (ps_db s) = None"
    and "decide_incident drv iid status actor now s = (s1, res, Some e)"
  shows "committed (ps_db s1) = committed (ps_db s)"
  using assms(3) sql_laws.store_decision_law [OF assms(1,2)]
  by (auto simp: decide_incident_def split: prod.splits sum.splits)

text \<open>Every insert that reaches the tables is that of a new, active incident.\<close>

lemma upsert_rows_current:
  assumes "sql_laws drv committed pending" "pending (ps_db s) = None" "rows_current (committed (ps_db s))"
    and "fresh_audit c now (ps_incidents s) (committed (ps_db s))"
    and "upsert_incident drv c now s = (s', inc, created, err)"
  shows "pending (ps_db s') = None \<and> rows_current (committed (ps_db s'))"
proof -
  obtain m i b where u: "inc_upsert c now (ps_incidents s) = (m, i, b)" by (cases "inc_upsert c now (ps_incidents s)")
  show ?thesis
  proof (cases b)
    case False
    with u assms(2,3,5) show ?thesis by (auto simp: upsert_incident_def Let_def)
  next
    case True
    note nu = inc_upsert_True [OF u [unfolded eqTrueI [OF True]]]
    obtain db' r where x: "sd_exec drv (InsertIncident (incident_row_of i)) (ps_db s) = (db', r)" by fastforce
    have db: "ps_db s' = db'" using assms(5) u x True by (auto simp: upsert_incident_def Let_def split: sum.splits)
    note law = sql_laws.exec_law [OF assms(1,2) x]
    show ?thesis
    proof (cases r)
      case (Inl e)
      with law assms(3) show ?thesis by (simp add: db)
    next
      case (Inr n)
      have "in_id i \<notin> dr_incident_id ` set (tb_decisions (committed (ps_db s)))"
        "in_status i = IncActive" "in_updated_at i = in_created_at i"
        using assms(4) unfolding nu(2) by (simp_all add: fresh_audit_def)
      moreover have "stmt_allowed (InsertIncident (incident_row_of i)) (committed (ps_db s))"
        "committed db' = fst (stmt_effect (InsertIncident (incident_row_of i)) (committed (ps_db s)))"
        "pending db' = None"
        using law Inr by (metis (mono_tags, lifting) fst_conv sum.case(2))+
      ultimately show ?thesis using rows_current_insert [OF assms(3)] by (simp add: db)
    qed
  qed
qed

lemma decide_rows_current:
  assumes "sql_laws drv committed pending" "pending (ps_db s) = None" "rows_current (committed (ps_db s))"
    and "decide_incident drv iid status actor now s = (s', res, err)"
  shows "pending (ps_db s') = None \<and> rows_current (committed (ps_db s'))"
proof -
  obtain m r where d: "inc_decide iid status actor now (ps_incidents s) = (m, r)"
    by (cases "inc_decide iid status actor now (ps_incidents s)")
  show ?thesis
  proof (cases r)
    case (Inl e)
    with d assms(2-4) show ?thesis by (auto simp: decide_incident_def)
  next
    case (Inr p)
    obtain u was where p: "r = Inr (u, was)" using Inr by (cases p) simp
    from d [unfolded p] have u: "in_status u = status" "in_updated_at u = now" by (rule inc_decide_Inr, simp)+
    obtain db' er where x: "store_decision drv u
        \<lparr>de_incident_id = in_id u, de_status = status, de_actor = actor, de_decided_at = now\<rparr> (ps_db s) = (db', er)"
      by fastforce
    have db: "ps_db s' = db'" using assms(4) d p x by (auto simp: decide_incident_def split: option.splits)
    note law = sql_laws.store_decision_law [OF assms(1,2) x]
    show ?thesis
      using law assms(3) rows_current_decide [OF assms(3), of "in_id u" status actor now]
      by (cases er) (simp_all only: db u, simp_all)
  qed
qed

section \<open>The invariant over all processes\<close>

definition life_ok :: "('db \<Rightarrow> tables) \<Rightarrow> ('db \<Rightarrow> tables option) \<Rightarrow> bool \<Rightarrow> 'db pstore \<Rightarrow> bool" where
  "life_ok committed pending clean s \<longleftrightarrow>
     pending (ps_db s) = None \<and> (\<exists>S. remembers s S) \<and> rows_current (committed (ps_db s)) \<and>
     (clean \<longrightarrow> store_ok (ps_incidents s) \<and> mirrors (committed (ps_db s)) (ps_incidents s))"

lemma restart_remembers:
  assumes "sql_laws drv committed pending" "pending db = None" "new_store drv (Inr db) retention now = Inr s"
  shows "pending (ps_db s) = None \<and> committed (ps_db s) = committed db \<and> (\<exists>S. remembers s S)"
proof -
  obtain ds irows all drows decided db' where n:
    "s = (fold append_history ds (initial_pstore db retention))
       \<lparr>ps_db := db', ps_incidents := inc_restore all decided new_incident_store\<rparr>"
    "pending db' = None" "committed db' = committed db" by (rule new_store_InrE [OF assms])
  have "remembers (initial_pstore db retention) []"
    by (simp add: remembers_def device_history_def initial_pstore_def)
  from remembers_fold [OF this, of ds] have "remembers s ds" by (simp add: n(1))
  with n show ?thesis by auto
qed

lemma life_ok_restart:
  assumes "sql_laws drv committed pending" "life_ok committed pending clean s"
    and "pending db = None" "committed db = committed (ps_db s)" "new_store drv (Inr db) retention now = Inr s'"
  shows "life_ok committed pending (clean \<and> times_ok (ps_incidents s)) s'"
proof -
  note r = restart_remembers [OF assms(1,3,5)]
  have "store_ok (ps_incidents s') \<and> mirrors (committed (ps_db s')) (ps_incidents s')"
    if "clean" "times_ok (ps_incidents s)"
  proof -
    have "mirrors (committed db) (ps_incidents s)" "store_ok (ps_incidents s)"
      using assms(2) that(1) by (simp_all add: life_ok_def assms(4))
    from restarted(2) [OF assms(1,3,5) this that(2)] show ?thesis by (auto simp: durable_ok_def)
  qed
  with r assms(2,4) show ?thesis by (simp add: life_ok_def)
qed

lemma times_ok_new: "times_ok new_incident_store"
  by (simp add: times_ok_def new_incident_store_def inc_decisions_def)

lemma life_ok_first:
  assumes "sql_laws drv committed pending" "pending db = None" "committed db = empty_tables"
    and "new_store drv (Inr db) retention now = Inr s"
  shows "life_ok committed pending True s"
proof -
  have "\<exists>S. durable_ok committed pending S s"
    using restarted(2) [OF assms(1,2,4)] mirrors_empty times_ok_new by (simp add: assms(3))
  moreover have "rows_current empty_tables" by (simp add: rows_current_def empty_tables_def)
  ultimately show ?thesis
    using restart_remembers [OF assms(1,2,4)] assms(3) by (auto simp: life_ok_def durable_ok_def)
qed

text \<open>What leaves the incidents and their tables alone keeps the invariant.\<close>

lemma life_ok_telemetry:
  assumes "life_ok committed pending clean s" "pending (ps_db s') = None" "\<exists>S. remembers s' S"
    and "committed (ps_db s') = (committed (ps_db s))\<lparr>tb_telemetry := rows\<rparr>" "ps_incidents s' = ps_incidents s"
  shows "life_ok committed pending clean s'"
  using assms by (simp add: life_ok_def)

lemma life_ok_ingest:
  assumes "sql_laws drv committed pending" "life_ok committed pending clean s"
    and "ingest drv devices run_id now s = (s', r, err)"
  shows "life_ok committed pending clean s'"
proof -
  from assms(2) obtain S where s: "pending (ps_db s) = None" "remembers s S" by (auto simp: life_ok_def)
  note law = ingest_law [OF assms(1) s assms(3)]
  have "\<exists>S rows. remembers s' S \<and> committed (ps_db s') = (committed (ps_db s))\<lparr>tb_telemetry := rows\<rparr>"
  proof (cases err)
    case None
    with law show ?thesis by blast
  next
    case (Some e)
    with law have "s' = s\<lparr>ps_db := ps_db s'\<rparr>" "committed (ps_db s') = committed (ps_db s)" by auto
    moreover have "committed (ps_db s) = (committed (ps_db s))\<lparr>tb_telemetry := tb_telemetry (committed (ps_db s))\<rparr>"
      by simp
    ultimately show ?thesis using s(2) by (metis remembers_ps_db)
  qed
  with law life_ok_telemetry [OF assms(2)] show ?thesis by blast
qed

lemma lives_ok:
  assumes laws: "sql_laws drv committed pending" and "lives drv committed pending clean s"
  shows "life_ok committed pending clean s"
  using assms(2)
proof (induction rule: lives.induct)
  case (life_first db retention now s)
  from life_ok_first [OF laws this] show ?case .
next
  case (life_ingest clean s devices run_id now s' r err)
  from life_ok_ingest [OF laws life_ingest.IH life_ingest.hyps(2)] show ?case .
next
  case (life_record clean s new)
  then show ?case by (simp add: life_ok_def record_anomalies_def remembers_def device_history_def Let_def)
next
  case (life_prune clean s now s' res)
  then obtain S where s: "pending (ps_db s) = None" "remembers s S" by (auto simp: life_ok_def)
  from prune_keeps [OF laws s(1) life_prune.hyps(2)] obtain rows where p: "s' = s\<lparr>ps_db := ps_db s'\<rparr>"
      "pending (ps_db s') = None" "committed (ps_db s') = (committed (ps_db s))\<lparr>tb_telemetry := rows\<rparr>" by blast
  have "ps_incidents s' = ps_incidents s" by (subst p(1)) simp
  moreover have "remembers s' S" by (subst p(1)) (simp add: s(2))
  ultimately show ?case using life_ok_telemetry [OF life_prune.IH p(2) _ p(3)] by blast
next
  case (life_ping clean s s' e)
  then obtain db' where "sd_ping drv (ps_db s) = (db', e)" "s' = s\<lparr>ps_db := db'\<rparr>"
    by (auto simp: ping_def split: prod.splits)
  with sql_laws.ping_law [OF laws this(1)] life_ping.IH show ?case by (simp add: life_ok_def)
next
  case (life_upsert clean s c now s' inc created err)
  from life_upsert.IH obtain S where s: "pending (ps_db s) = None" "rows_current (committed (ps_db s))" "remembers s S"
    by (auto simp: life_ok_def)
  have "remembers s' S" using upsert_incident_memory [OF life_upsert.hyps(4)] s(3) by auto
  moreover have "store_ok (ps_incidents s') \<and> mirrors (committed (ps_db s')) (ps_incidents s')"
    if "clean \<and> err = None"
    using sql_laws.upsert_incident_mirrors [OF laws s(1) _ _ life_upsert.hyps(2), of s' inc created]
      life_upsert.hyps(4) life_upsert.IH that by (simp add: life_ok_def)
  ultimately show ?case
    using upsert_rows_current [OF laws s(1,2) life_upsert.hyps(3,4)] by (auto simp: life_ok_def)
next
  case (life_decide clean s status iid actor now s' res err)
  from life_decide.IH obtain S where s: "pending (ps_db s) = None" "rows_current (committed (ps_db s))" "remembers s S"
    by (auto simp: life_ok_def)
  have "remembers s' S" using decide_incident_memory [OF life_decide.hyps(3)] s(3) by auto
  moreover have "store_ok (ps_incidents s') \<and> mirrors (committed (ps_db s')) (ps_incidents s')"
    if "clean \<and> (err = None \<or> res = None)"
    using sql_laws.decide_incident_mirrors [OF laws s(1) _ _ life_decide.hyps(2,3)] life_decide.IH that
    by (simp add: life_ok_def)
  ultimately show ?case
    using decide_rows_current [OF laws s(1,2) life_decide.hyps(3)] by (auto simp: life_ok_def)
next
  case (life_restart clean s db retention now s')
  from life_ok_restart [OF laws life_restart.IH life_restart.hyps(2-4)] show ?case .
qed

text \<open>A crash after a failed incident operation is a restart from the state before it.\<close>

lemma life_crash_upsert:
  assumes "sql_laws drv committed pending" "lives drv committed pending clean s"
    and "upsert_incident drv c instant s = (s1, inc, created, Some e)"
    and "pending db = None" "committed db = committed (ps_db s1)" "new_store drv (Inr db) retention now = Inr s'"
  shows "lives drv committed pending (clean \<and> times_ok (ps_incidents s)) s'"
proof -
  have "pending (ps_db s) = None" using lives_ok [OF assms(1,2)] by (simp add: life_ok_def)
  from failed_upsert_tables [OF assms(1) this assms(3)] assms(5) have "committed db = committed (ps_db s)" by simp
  with assms(2,4,6) show ?thesis by (blast intro: life_restart)
qed

lemma life_crash_decide:
  assumes "sql_laws drv committed pending" "lives drv committed pending clean s"
    and "decide_incident drv iid status actor instant s = (s1, res, Some e)"
    and "pending db = None" "committed db = committed (ps_db s1)" "new_store drv (Inr db) retention now = Inr s'"
  shows "lives drv committed pending (clean \<and> times_ok (ps_incidents s)) s'"
proof -
  have "pending (ps_db s) = None" using lives_ok [OF assms(1,2)] by (simp add: life_ok_def)
  from failed_decide_tables [OF assms(1) this assms(3)] assms(5) have "committed db = committed (ps_db s)" by simp
  with assms(2,4,6) show ?thesis by (blast intro: life_restart)
qed

section \<open>What the tables hold\<close>

lemma mirrored_rows:
  assumes "mirrors t m" "store_ok m"
  defines "rows \<equiv> \<lambda>k. filter (\<lambda>r. ir_occurrence_key r = k) (tb_incidents t)"
  shows "ir_occurrence_sequence ` set (rows k) = {1..int (length (rows k))}"
    and "length (filter (\<lambda>r. ir_status r = IncActive) (rows k)) \<le> 1"
    and "length (rows k) = length (inc_history m k)"
proof -
  have ok: "linked m" "active_is_last m" using assms(2) by (simp_all add: store_ok_def)
  have t: "distinct (map ir_id (tb_incidents t))" "set (tb_incidents t) = incident_row_of ` ran (is_incidents m)"
    using assms(1) by (simp_all add: mirrors_def)
  have d: "distinct (map ir_id (rows k))" unfolding rows_def by (rule distinct_map_filter [OF t(1)])
  have members: "set (rows k) = incident_row_of ` {i \<in> ran (is_incidents m). in_occurrence_key i = k}"
    by (auto simp: rows_def t(2) incident_row_of_def)
  let ?h = "inc_history m k"
  have mem: "i \<in> ran (is_incidents m) \<and> in_occurrence_key i = k \<longleftrightarrow>
      (\<exists>n < length ?h. is_incidents m (?h ! n) = Some i \<and> in_occurrence_sequence i = int n + 1)" for i
    using linkedD1 [OF ok(1), of _ i] linkedD2 [OF ok(1), of _ k] by (fastforce simp: ran_def in_set_conv_nth)
  have seq: "ir_occurrence_sequence ` set (rows k) = {1..int (length ?h)}"
  proof (intro equalityI subsetI)
    fix x assume "x \<in> ir_occurrence_sequence ` set (rows k)"
    then show "x \<in> {1..int (length ?h)}" unfolding members by (auto simp: mem incident_row_of_def)
  next
    fix x assume "x \<in> {1..int (length ?h)}"
    then have n: "nat (x - 1) < length ?h" "x = int (nat (x - 1)) + 1" by auto
    from linkedD2 [OF ok(1) n(1)] obtain i where "is_incidents m (?h ! nat (x - 1)) = Some i"
      "in_occurrence_sequence i = x" using n(2) by auto
    then show "x \<in> ir_occurrence_sequence ` set (rows k)"
      unfolding members by (intro image_eqI [of _ _ "incident_row_of i"] imageI) (use n mem in \<open>auto simp: incident_row_of_def\<close>)
  qed
  have "ir_id ` set (rows k) = set ?h"
  proof (intro equalityI subsetI)
    fix x assume "x \<in> ir_id ` set (rows k)"
    then show "x \<in> set ?h" unfolding members using linkedD1 [OF ok(1)] by (auto simp: mem)
  next
    fix x assume "x \<in> set ?h"
    then obtain i where "is_incidents m x = Some i" "in_occurrence_key i = k"
      by (rule linked_history_known [OF ok(1)])
    with linkedD1 [OF ok(1)] have "i \<in> ran (is_incidents m)" "in_id i = x" by (auto intro: ranI)
    then show "x \<in> ir_id ` set (rows k)"
      unfolding members using \<open>in_occurrence_key i = k\<close>
      by (intro image_eqI [of _ _ "incident_row_of i"] imageI) simp_all
  qed
  then have "card (set (map ir_id (rows k))) = card (set ?h)" by simp
  then show len: "length (rows k) = length ?h"
    using distinct_card [OF d] distinct_card [OF linked_distinct [OF ok(1)]] by simp
  show "ir_occurrence_sequence ` set (rows k) = {1..int (length (rows k))}" using seq len by simp
  let ?A = "filter (\<lambda>r. ir_status r = IncActive) (rows k)"
  have "ir_id ` set ?A \<subseteq> {last ?h}"
    using ok(2) linkedD1 [OF ok(1)] by (auto simp: members active_is_last_def incident_row_of_def ran_def)
  then have "card (ir_id ` set ?A) \<le> 1" using card_mono [of "{last ?h}"] by fastforce
  moreover have "card (set (map ir_id ?A)) = length ?A"
    using distinct_card [OF distinct_map_filter [OF d, of "\<lambda>r. ir_status r = IncActive"]] by simp
  ultimately show "length ?A \<le> 1" by simp
qed

lemma mirrored_audit:
  assumes "mirrors t m" "store_ok m"
  shows "r \<in> set (tb_incidents t) \<Longrightarrow>
      (let ds = filter (\<lambda>d. dr_incident_id d = ir_id r) (tb_decisions t) in
       ir_status r = (if ds = [] then IncActive else dr_status (last ds)) \<and>
       ir_updated_at r = (if ds = [] then ir_created_at r else dr_decided_at (last ds)))"
    and "d \<in> set (tb_decisions t) \<Longrightarrow> dr_incident_id d \<in> ir_id ` set (tb_incidents t)"
proof -
  have ok: "linked m" "audited m" using assms(2) by (simp_all add: store_ok_def)
  have t: "set (tb_incidents t) = incident_row_of ` ran (is_incidents m)"
    "filter (\<lambda>d. dr_incident_id d = iid) (tb_decisions t) = map decision_row_of (inc_decisions m iid)" for iid
    using assms(1) by (simp_all add: mirrors_def)
  show "let ds = filter (\<lambda>d. dr_incident_id d = ir_id r) (tb_decisions t) in
       ir_status r = (if ds = [] then IncActive else dr_status (last ds)) \<and>
       ir_updated_at r = (if ds = [] then ir_created_at r else dr_decided_at (last ds))"
    if "r \<in> set (tb_incidents t)"
  proof -
    from that obtain j i where j: "is_incidents m j = Some i" "r = incident_row_of i"
      by (auto simp: t(1) ran_def)
    with linkedD1 [OF ok(1) j(1)] have i: "is_incidents m (in_id i) = Some i" "r = incident_row_of i" by simp_all
    show ?thesis
      unfolding i(2) ir_id_row t(2) Let_def
      using ok(2) i(1) by (simp add: audited_def Let_def incident_row_of_def decision_row_of_def last_map)
  qed
  show "dr_incident_id d \<in> ir_id ` set (tb_incidents t)" if "d \<in> set (tb_decisions t)"
  proof -
    have "d \<in> set (filter (\<lambda>x. dr_incident_id x = dr_incident_id d) (tb_decisions t))" using that by simp
    then have "inc_decisions m (dr_incident_id d) \<noteq> []" unfolding t(2) by auto
    then obtain i where i: "is_incidents m (dr_incident_id d) = Some i"
      using ok(2) unfolding audited_def by (cases "is_incidents m (dr_incident_id d)") auto
    with linkedD1 [OF ok(1) i] show ?thesis
      unfolding t(1) by (intro image_eqI [of _ _ "incident_row_of i"] imageI ranI) auto
  qed
qed

text \<open>In a clean history the audit trail has no other identifiers than the incidents in memory, and a run
  without failed incident statements continues it.\<close>

lemma mirrored_fresh:
  assumes "mirrors t m" "store_ok m" "fresh_id c now m"
  shows "fresh_audit c now m t"
proof -
  have known: "is_incidents m (dr_incident_id d) \<noteq> None" if "d \<in> set (tb_decisions t)" for d
  proof -
    from mirrored_audit(2) [OF assms(1,2) that] obtain i where "i \<in> ran (is_incidents m)" "in_id i = dr_incident_id d"
      using assms(1) by (auto simp: mirrors_def)
    then show ?thesis using linkedD1 [of m] assms(2) by (fastforce simp: store_ok_def ran_def)
  qed
  show ?thesis unfolding fresh_audit_def using known assms(3) unfolding fresh_id_def by (metis imageE)
qed

lemma life_run:
  assumes "sql_laws drv committed pending" "lives drv committed pending True s0" "durable_run drv S0 s0 S s"
  shows "lives drv committed pending True s"
  using assms(3)
proof (induction rule: durable_run.induct)
  case run_start
  show ?case by (rule assms(2))
next
  case (run_ingest S s devices run_id now s' r err)
  from life_ingest [OF run_ingest.IH run_ingest.hyps(2)] show ?case .
next
  case (run_record S s new)
  from life_record [OF run_record.IH] show ?case .
next
  case (run_prune S s now s' res)
  from life_prune [OF run_prune.IH run_prune.hyps(2)] show ?case .
next
  case (run_ping S s s' e)
  from life_ping [OF run_ping.IH run_ping.hyps(2)] show ?case .
next
  case (run_upsert S s c now s' inc created)
  have "fresh_audit c now (ps_incidents s) (committed (ps_db s))"
    using lives_ok [OF assms(1) run_upsert.IH] mirrored_fresh run_upsert.hyps(2) by (auto simp: life_ok_def)
  from life_upsert [OF run_upsert.IH run_upsert.hyps(2) this run_upsert.hyps(3)] show ?case by simp
next
  case (run_decide S s status iid actor now s' result err)
  from life_decide [OF run_decide.IH run_decide.hyps(2,3)] run_decide.hyps(4) show ?case by simp
qed

text \<open>
  C14: Over any number of processes on one database, with stops, crashes and failed statements, the
  identifiers of the incident rows are distinct and every row has the status and the time of its
  newest decision row, or is active since its creation if it has none: also after a process went on
  after a failed statement. In a clean history, that is, as long as no process went on after the
  statement of an incident operation failed, and every restart found times of four-digit years and
  the decisions of each incident in distinct, increasing seconds, moreover: tables and memory agree,
  the occurrences of every fault are numbered 1 to n, each number once, at most one of them is active,
  and no decision row refers to a missing incident. New identifiers are assumed fresh. What becomes
  of a history that is not clean is shown by \<open>lost_insert_repeats_number\<close>.
\<close>

theorem tables_over_lifetimes:
  assumes "sql_laws drv committed pending" "lives drv committed pending clean s"
  defines "t \<equiv> committed (ps_db s)"
  defines "rows \<equiv> \<lambda>k. filter (\<lambda>r. ir_occurrence_key r = k) (tb_incidents t)"
  defines "ds \<equiv> \<lambda>iid. filter (\<lambda>d. dr_incident_id d = iid) (tb_decisions t)"
  shows "pending (ps_db s) = None \<and> distinct (map ir_id (tb_incidents t)) \<and>
    (\<forall>r \<in> set (tb_incidents t).
       ir_status r = (if ds (ir_id r) = [] then IncActive else dr_status (last (ds (ir_id r)))) \<and>
       ir_updated_at r = (if ds (ir_id r) = [] then ir_created_at r else dr_decided_at (last (ds (ir_id r))))) \<and>
    (clean \<longrightarrow> mirrors t (ps_incidents s) \<and>
       ir_occurrence_sequence ` set (rows k) = {1..int (length (rows k))} \<and>
       length (filter (\<lambda>r. ir_status r = IncActive) (rows k)) \<le> 1 \<and>
       dr_incident_id ` set (tb_decisions t) \<subseteq> ir_id ` set (tb_incidents t))"
proof -
  note ok = lives_ok [OF assms(1,2), unfolded life_ok_def, folded t_def]
  have cur: "distinct (map ir_id (tb_incidents t)) \<and> (\<forall>r \<in> set (tb_incidents t).
       ir_status r = (if ds (ir_id r) = [] then IncActive else dr_status (last (ds (ir_id r)))) \<and>
       ir_updated_at r = (if ds (ir_id r) = [] then ir_created_at r else dr_decided_at (last (ds (ir_id r)))))"
    using ok unfolding rows_current_def Let_def ds_def by blast
  have "mirrors t (ps_incidents s) \<and>
       ir_occurrence_sequence ` set (rows k) = {1..int (length (rows k))} \<and>
       length (filter (\<lambda>r. ir_status r = IncActive) (rows k)) \<le> 1 \<and>
       dr_incident_id ` set (tb_decisions t) \<subseteq> ir_id ` set (tb_incidents t)" if clean
  proof -
    from ok that have m: "mirrors t (ps_incidents s)" "store_ok (ps_incidents s)" by simp_all
    show ?thesis
      unfolding rows_def using m(1) mirrored_rows [OF m, of k] mirrored_audit(2) [OF m] by blast
  qed
  with ok cur show ?thesis by blast
qed

section \<open>The gauge after a restart\<close>

text \<open>
  Registering the instruments starts every series at zero, but a restart brings active incidents back:
  along every run of requests and prunings whose incident statements succeed, the gauge of the
  restarted server is below the number of active incidents by exactly the number that was active
  before the restart.
\<close>

lemma gauge_since_restart:
  assumes "sql_laws drv committed pending" "pending db = None"
    and "mirrors (committed db) m" "store_ok m" "times_ok m"
    and "new_store drv (Inr db) retention boot = Inr st0"
    and "sv_store s0 = Some st0" "sv_metrics s0 = Some []" "server_run drv s0 s"
  shows "\<exists>st es. sv_store s = Some st \<and> sv_metrics s = Some es \<and>
    total IncidentsActive es = active_count (ps_incidents st) - active_count m \<and>
    pending (ps_db st) = None \<and> store_ok (ps_incidents st) \<and> mirrors (committed (ps_db st)) (ps_incidents st)"
proof -
  note r = restarted [OF assms(1,2,6,3-5)]
  from r(2) obtain S0 where S0: "durable_ok committed pending S0 st0" ..
  have "store_wf (ps_incidents st0)"
    using S0 restored_finite [OF assms(1,2,6)] by (simp add: durable_ok_def store_wf_def)
  then have "tracked drv S0 st0 (active_count m) s0"
    using assms(7,8) reread_count [OF r(1)] by (auto intro: trackedI run_start)
  from server_run_tracked [OF assms(9) this] obtain st es S where t: "sv_store s = Some st"
      "sv_metrics s = Some es" "durable_run drv S0 st0 S st"
      "total IncidentsActive es + active_count m = active_count (ps_incidents st)"
    by (auto simp: tracked_def)
  from durable_run_ok [OF assms(1) t(3) S0] t show ?thesis
    by (intro exI [of _ st] exI [of _ es]) (simp add: durable_ok_def)
qed

section \<open>A process that goes on after a failed insert\<close>

definition row_numbers :: "tables \<Rightarrow> (string \<times> int) list" where
  "row_numbers t = map (\<lambda>r. (ir_occurrence_key r, ir_occurrence_sequence r)) (tb_incidents t)"

lemma upsert_numbers:
  assumes "sql_laws drv committed pending" "pending (ps_db s) = None"
    and "upsert_incident drv c now s = (s', i, True, err)"
  shows "pending (ps_db s') = None"
    "in_occurrence_sequence i = int (length (inc_history (ps_incidents s) (cd_occurrence_key c))) + 1"
    "inc_history (ps_incidents s') (cd_occurrence_key c) =
       inc_history (ps_incidents s) (cd_occurrence_key c) @ [in_id i]"
    "row_numbers (committed (ps_db s')) = row_numbers (committed (ps_db s)) @
       (if err = None then [(cd_occurrence_key c, in_occurrence_sequence i)] else [])"
proof -
  obtain db' r where x: "sd_exec drv (InsertIncident (incident_row_of i)) (ps_db s) = (db', r)" by fastforce
  obtain m where u: "inc_upsert c now (ps_incidents s) = (m, i, True)" "ps_incidents s' = m"
    using upsert_incident_store [OF assms(3)] by blast
  note nu = inc_upsert_True [OF u(1), folded u(2)]
  have "upsert_incident drv c now s = (s\<lparr>ps_incidents := m, ps_db := db'\<rparr>, i, True,
      (case r of Inl e \<Rightarrow> Some (ErrIncidentInsert (in_id i) e) | Inr n \<Rightarrow> None))"
    by (simp add: upsert_incident_def u(1) x Let_def split: sum.split)
  with assms(3) have db: "ps_db s' = db'" "err = None \<longleftrightarrow> (\<exists>n. r = Inr n)"
    by (auto split: sum.splits)
  note law = sql_laws.exec_law [OF assms(1,2) x]
  show "pending (ps_db s') = None" using law db by simp
  show "in_occurrence_sequence i = int (length (inc_history (ps_incidents s) (cd_occurrence_key c))) + 1"
    unfolding nu(2) by simp
  show "inc_history (ps_incidents s') (cd_occurrence_key c) =
      inc_history (ps_incidents s) (cd_occurrence_key c) @ [in_id i]"
    using nu(4) by simp
  have "in_occurrence_key i = cd_occurrence_key c" unfolding nu(2) by simp
  then show "row_numbers (committed (ps_db s')) = row_numbers (committed (ps_db s)) @
      (if err = None then [(cd_occurrence_key c, in_occurrence_sequence i)] else [])"
    using law db by (cases r) (auto simp: row_numbers_def incident_row_of_def)
qed

lemma decide_numbers:
  assumes "sql_laws drv committed pending" "pending (ps_db s) = None"
    and "decide_incident drv iid status actor now s = (s', res, None)"
  shows "pending (ps_db s') = None" "inc_history (ps_incidents s') k = inc_history (ps_incidents s) k"
    "row_numbers (committed (ps_db s')) = row_numbers (committed (ps_db s))"
proof -
  obtain m u was where d: "inc_decide iid status actor now (ps_incidents s) = (m, Inr (u, was))"
      "ps_incidents s' = m"
    using assms(3) by (auto simp: decide_incident_def split: prod.splits sum.splits)
  show "inc_history (ps_incidents s') k = inc_history (ps_incidents s) k"
    using d(1) unfolding d(2) by (rule inc_decide_Inr) simp
  obtain db' er where x: "store_decision drv u
      \<lparr>de_incident_id = in_id u, de_status = status, de_actor = actor, de_decided_at = now\<rparr> (ps_db s) = (db', er)"
    by fastforce
  have "ps_db s' = db'" "er = None" using assms(3) d(1) x by (auto simp: decide_incident_def)
  with sql_laws.store_decision_law [OF assms(1,2) x]
  show "pending (ps_db s') = None" "row_numbers (committed (ps_db s')) = row_numbers (committed (ps_db s))"
    by (auto simp: row_numbers_def)
qed

lemma incidents_of_rows_keys:
  "incidents_of_rows rows = Inr all \<Longrightarrow> map in_occurrence_key all = map ir_occurrence_key rows"
  using incidents_of_rows_all2 [of rows all] incident_of_row_keeps
  by (auto simp: list_all2_conv_all_nth intro!: nth_equalityI)

lemma restart_history_length:
  assumes "sql_laws drv committed pending" "pending db = None" "new_store drv (Inr db) retention now = Inr s"
  shows "pending (ps_db s) = None" "committed (ps_db s) = committed db"
    "length (inc_history (ps_incidents s) k) = length (filter (\<lambda>x. fst x = k) (row_numbers (committed db)))"
proof -
  obtain ds irows all drows decided db' where n:
    "s = (fold append_history ds (initial_pstore db retention))
       \<lparr>ps_db := db', ps_incidents := inc_restore all decided new_incident_store\<rparr>"
    "mset irows = mset (tb_incidents (committed db))" "incidents_of_rows irows = Inr all"
    "pending db' = None" "committed db' = committed db"
    by (rule new_store_InrE [OF assms])
  show "pending (ps_db s) = None" "committed (ps_db s) = committed db" using n by simp_all
  have "length (inc_history (ps_incidents s) k) = length (filter (\<lambda>i. in_occurrence_key i = k) all)"
    using fold_restore(2) [of all new_incident_store k]
    by (simp add: n(1) inc_restore_def Let_def inc_history_def) (simp add: new_incident_store_def)
  also have "\<dots> = length (filter (\<lambda>x. x = k) (map in_occurrence_key all))" by (simp add: filter_map o_def)
  also have "\<dots> = size (filter_mset (\<lambda>x. x = k) (image_mset ir_occurrence_key (mset irows)))"
    unfolding incidents_of_rows_keys [OF n(3)] by (metis mset_filter mset_map size_mset)
  also have "\<dots> = length (filter (\<lambda>x. fst x = k) (row_numbers (committed db)))"
    unfolding n(2) by (simp add: row_numbers_def filter_map o_def filter_mset_image_mset flip: mset_filter)
  finally show "length (inc_history (ps_incidents s) k) = length (filter (\<lambda>x. fst x = k) (row_numbers (committed db)))" .
qed

lemma numbers_of_mirror:
  assumes "mirrors t m" "store_ok m"
  shows "length (filter (\<lambda>x. fst x = k) (row_numbers t)) = length (inc_history m k)"
    "(k, n) \<in> set (row_numbers t) \<Longrightarrow> n \<le> int (length (inc_history m k))"
proof -
  let ?rows = "filter (\<lambda>r. ir_occurrence_key r = k) (tb_incidents t)"
  note m = mirrored_rows [OF assms, of k]
  show "length (filter (\<lambda>x. fst x = k) (row_numbers t)) = length (inc_history m k)"
    using m(3) by (simp add: row_numbers_def filter_map o_def)
  assume "(k, n) \<in> set (row_numbers t)"
  then have "n \<in> ir_occurrence_sequence ` set ?rows" by (auto simp: row_numbers_def)
  then show "n \<le> int (length (inc_history m k))" unfolding m(1) m(3) by simp
qed

text \<open>
  C18: A process that goes on after a failed insert loses the numbering. The insert of occurrence
  \<open>n + 1\<close> fails, the incident is closed and the fault recurs: the tables get occurrence \<open>n + 2\<close>. After a
  restart the history has one entry too few, so when that occurrence is closed the next one gets
  the number \<open>n + 2\<close> again, and once its insert succeeds the tables hold two occurrences of one
  fault with one number.
\<close>

theorem lost_insert_repeats_number:
  assumes "sql_laws drv committed pending" "pending (ps_db s0) = None"
    and "mirrors (committed (ps_db s0)) (ps_incidents s0)" "store_ok (ps_incidents s0)"
    and "upsert_incident drv c t1 s0 = (s1, i1, True, Some e)"
    and "decide_incident drv (in_id i1) status1 actor1 t2 s1 = (s2, r1, None)"
    and "upsert_incident drv c t3 s2 = (s3, i2, True, None)"
    and "pending db = None" "committed db = committed (ps_db s3)" "new_store drv (Inr db) retention t4 = Inr s4"
    and "decide_incident drv (in_id i2) status2 actor2 t5 s4 = (s5, r2, None)"
    and "upsert_incident drv c t6 s5 = (s6, i3, True, err)"
  defines "k \<equiv> cd_occurrence_key c"
  defines "n \<equiv> int (length (inc_history (ps_incidents s0) k))"
  shows "in_occurrence_sequence i1 = n + 1 \<and> in_occurrence_sequence i2 = n + 2 \<and>
    in_occurrence_sequence i3 = n + 2 \<and>
    length (filter (\<lambda>r. ir_occurrence_key r = k \<and> ir_occurrence_sequence r = n + 2)
      (tb_incidents (committed (ps_db s6)))) = (if err = None then 2 else 1)"
proof -
  note u1 = upsert_numbers [OF assms(1,2,5), folded k_def]
  note d1 = decide_numbers [OF assms(1) u1(1) assms(6)]
  note u2 = upsert_numbers [OF assms(1) d1(1) assms(7), folded k_def]
  note rs = restart_history_length [OF assms(1,8,10)]
  note d2 = decide_numbers [OF assms(1) rs(1) assms(11)]
  note u3 = upsert_numbers [OF assms(1) d2(1) assms(12), folded k_def]
  note old = numbers_of_mirror [OF assms(3,4)]
  have i2: "in_occurrence_sequence i2 = n + 2" using u2(2) d1(2) u1(3) by (simp add: n_def)
  have t3: "row_numbers (committed (ps_db s3)) = row_numbers (committed (ps_db s0)) @ [(k, n + 2)]"
    using u2(4) d1(3) u1(4) i2 by simp
  then have "int (length (inc_history (ps_incidents s4) k)) = n + 1"
    using rs(3) [of k] old(1) [of k] assms(9) by (simp add: n_def)
  then have i3: "in_occurrence_sequence i3 = n + 2" using u3(2) d2(2) [of k] by simp
  have "row_numbers (committed (ps_db s6)) = row_numbers (committed (ps_db s0)) @
      (k, n + 2) # (if err = None then [(k, n + 2)] else [])"
    using u3(4) d2(3) rs(2) assms(9) t3 i3 by simp
  moreover have "filter (\<lambda>x. x = (k, n + 2)) (row_numbers (committed (ps_db s0))) = []"
    using old(2) [of k "n + 2"] by (auto simp: filter_empty_conv n_def)
  ultimately have "length (filter (\<lambda>x. x = (k, n + 2)) (row_numbers (committed (ps_db s6)))) =
      (if err = None then 2 else 1)" by simp
  then have "length (filter (\<lambda>r. ir_occurrence_key r = k \<and> ir_occurrence_sequence r = n + 2)
      (tb_incidents (committed (ps_db s6)))) = (if err = None then 2 else 1)"
    by (simp add: row_numbers_def filter_map o_def)
  with u1(2) i2 i3 show ?thesis by (simp add: n_def)
qed

end
