(* ===== verification/ApiProcess.thy ===== *)
theory ApiProcess
  imports ApiMain Lifetimes
begin

text \<open>
  \<open>cmd/vyomm-api/main.go\<close> from the first log line to the exit: what a start logs and how it exits, and
  the started process as a step relation between the goroutine of the listener, the goroutine of the
  pruning and \<open>main\<close>, which waits for a signal, shuts the server down and runs its deferred calls,
  last in first out. \<open>ListenAndServe\<close>, \<open>Shutdown\<close> and the shutdown of the tracer provider belong to
  libraries; a step chooses their result.
\<close>

section \<open>The lines of a start\<close>

datatype main_value = PruneValue "persist_error + nat" | ErrorText string | StoreError persist_error

type_synonym main_line = "main_value log_record"

definition main_line :: "int \<Rightarrow> string \<Rightarrow> string \<Rightarrow> main_value log_attr list \<Rightarrow> main_line" where
  "main_line level msg event attrs =
     \<lparr>lr_level = level, lr_message = msg, lr_attrs = (''event'', StringValue event) # attrs\<rparr>"

definition error_attr :: "main_value \<Rightarrow> main_value log_attr list" where
  "error_attr v = [(''error'', OtherValue v)]"

text \<open>\<open>main\<close> up to the start of the goroutines: what it writes to standard error, what it logs, and the
  exit status or the process.\<close>

record 'db boot_outcome =
  bt_stderr :: "config_error option"
  bt_lines :: "main_line list"
  bt_result :: "nat + ('db, main_value) process"

definition boot :: "'db sql_driver \<Rightarrow> ('db, 'x, 'r) outside \<Rightarrow> 'db boot_outcome" where
  "boot drv os =
     (let begin_line = main_line 0 ''starting vyomm-api'' ''startup.begin''
            [(''run_id'', StringValue (new_run_id (os_random os) (os_run_time os))), (''version'', StringValue app_version)] in
      case startup drv os of
        Inl (ConfigError e) \<Rightarrow> \<lparr>bt_stderr = Some e, bt_lines = [], bt_result = Inl 1\<rparr>
      | Inl (RunbooksFailed e) \<Rightarrow>
          \<lparr>bt_stderr = None, bt_lines = [begin_line, main_line 8 ''failed to load runbooks'' ''startup.runbooks.failed''
             (error_attr (ErrorText e))], bt_result = Inl 1\<rparr>
      | Inl (StoreFailed e) \<Rightarrow>
          \<lparr>bt_stderr = None, bt_lines = [begin_line, main_line 8 ''failed to open persistence store''
             ''startup.store.failed'' (error_attr (StoreError e))], bt_result = Inl 1\<rparr>
      | Inr p \<Rightarrow>
          \<lparr>bt_stderr = None,
           bt_lines = begin_line #
             (case tracing_init (os_tracing os) (cf_otel_endpoint (sv_config (pr_server p)))
                 (cf_sample_ratio (sv_config (pr_server p))) ''vyomm-api'' of
                Inl e \<Rightarrow> [main_line 4 ''tracing initialization failed; continuing without exported traces''
                  ''startup.tracing.failed'' (error_attr (ErrorText e))]
              | Inr provider \<Rightarrow> []),
           bt_result = Inr p\<rparr>)"

section \<open>The running process\<close>

datatype deferred = CloseStore | ShutdownTracing | StopPruning | CancelSignals | CancelShutdown

datatype main_phase = MainWaiting | MainStopping | MainDeferring | MainExited

datatype listener = ListenerStarting | ListenerOpening | ListenerServing | ListenerGone

text \<open>\<open>lv_conns\<close>: connections may be open, on which requests are served; \<open>lv_done\<close>: the channel that
  stops the pruning is closed; \<open>lv_closed\<close>: the store is closed.\<close>

record 'db live =
  lv_server :: "'db server"
  lv_phase :: main_phase
  lv_listener :: listener
  lv_conns :: bool
  lv_pruning :: bool
  lv_done :: bool
  lv_closed :: bool
  lv_defers :: "deferred list"
  lv_lines :: "main_line list"

definition live_of :: "('db, main_value) process \<Rightarrow> 'db live" where
  "live_of p =
     \<lparr>lv_server = pr_server p, lv_phase = MainWaiting, lv_listener = ListenerStarting, lv_conns = False,
      lv_pruning = True, lv_done = False, lv_closed = False,
      lv_defers = [CancelSignals, StopPruning] @
        (if sv_otel_status (pr_server p) = ''enabled'' then [ShutdownTracing] else []) @ [CloseStore],
      lv_lines = []\<rparr>"

text \<open>A line of the pruning loop among the lines of the process.\<close>

definition prune_line :: "(persist_error + nat) log_record \<Rightarrow> main_line" where
  "prune_line l = \<lparr>lr_level = lr_level l, lr_message = lr_message l,
     lr_attrs = map (\<lambda>(k, v). (k, map_log_value PruneValue v)) (lr_attrs l)\<rparr>"

definition put_lines :: "main_line list \<Rightarrow> 'db live \<Rightarrow> 'db live" where
  "put_lines ls l = l\<lparr>lv_lines := lv_lines l @ ls\<rparr>"

text \<open>A deferred call; the shutdown of the tracer provider may return an error.\<close>

fun run_deferred :: "deferred \<Rightarrow> string option \<Rightarrow> 'db live \<Rightarrow> 'db live" where
  "run_deferred CloseStore e l = l\<lparr>lv_closed := True\<rparr>"
| "run_deferred ShutdownTracing e l =
     (case e of
        None \<Rightarrow> l
      | Some m \<Rightarrow> put_lines [main_line 8 ''tracing shutdown error'' ''shutdown.tracing.error''
          (error_attr (ErrorText m))] l)"
| "run_deferred StopPruning e l = l\<lparr>lv_done := True\<rparr>"
| "run_deferred CancelSignals e l = l"
| "run_deferred CancelShutdown e l = l"

definition listening_line :: "'db server \<Rightarrow> main_line" where
  "listening_line s = main_line 0 ''listening'' ''startup.listening''
     [(''addr'', StringValue (cf_api_addr (sv_config s))), (''mode'', StringValue (mode_label s))]"

text \<open>
  The steps, with the requests the environment sends restricted by \<open>legal\<close>. A tick may still be
  taken after \<open>done\<close> is closed, because \<open>select\<close> chooses between ready cases. Once the shutdown has
  begun the listener may return \<open>ErrServerClosed\<close>, which is not logged; any other error is.
\<close>

inductive main_step ::
  "'db sql_driver \<Rightarrow> (env \<Rightarrow> request \<Rightarrow> 'db server \<Rightarrow> bool) \<Rightarrow> 'db live \<Rightarrow> 'db live \<Rightarrow> bool"
  for drv :: "'db sql_driver" and legal :: "env \<Rightarrow> request \<Rightarrow> 'db server \<Rightarrow> bool" where
  announce: "lv_phase l \<noteq> MainExited \<Longrightarrow> lv_listener l = ListenerStarting \<Longrightarrow>
    main_step drv legal l (put_lines [listening_line (lv_server l)] (l\<lparr>lv_listener := ListenerOpening\<rparr>))"
| listen: "lv_phase l \<in> {MainWaiting, MainStopping} \<Longrightarrow> lv_listener l = ListenerOpening \<Longrightarrow>
    main_step drv legal l (l\<lparr>lv_listener := ListenerServing, lv_conns := True\<rparr>)"
| listen_error: "lv_phase l \<noteq> MainExited \<Longrightarrow> lv_listener l \<in> {ListenerOpening, ListenerServing} \<Longrightarrow>
    main_step drv legal l (put_lines [main_line 8 ''http server error'' ''http.server.error'' (error_attr (ErrorText e))]
      (l\<lparr>lv_listener := ListenerGone\<rparr>))"
| listen_closed: "lv_phase l \<in> {MainStopping, MainDeferring} \<Longrightarrow> lv_listener l \<in> {ListenerOpening, ListenerServing} \<Longrightarrow>
    main_step drv legal l (l\<lparr>lv_listener := ListenerGone\<rparr>)"
| request: "lv_phase l \<noteq> MainExited \<Longrightarrow> lv_conns l \<Longrightarrow> legal ev rq (lv_server l) \<Longrightarrow>
    serve drv ev rq (lv_server l) = (s', resp) \<Longrightarrow> main_step drv legal l (l\<lparr>lv_server := s'\<rparr>)"
| tick: "lv_phase l \<noteq> MainExited \<Longrightarrow> lv_pruning l \<Longrightarrow> sv_store (lv_server l) = Some st \<Longrightarrow>
    prune_tick drv now st = (st', line) \<Longrightarrow>
    main_step drv legal l (put_lines (case line of None \<Rightarrow> [] | Some x \<Rightarrow> [prune_line x])
      (l\<lparr>lv_server := (lv_server l)\<lparr>sv_store := Some st'\<rparr>\<rparr>))"
| prune_stops: "lv_phase l \<noteq> MainExited \<Longrightarrow> lv_pruning l \<Longrightarrow> lv_done l \<Longrightarrow>
    main_step drv legal l (l\<lparr>lv_pruning := False\<rparr>)"
| signal: "lv_phase l = MainWaiting \<Longrightarrow>
    main_step drv legal l (put_lines [main_line 0 ''shutting down'' ''shutdown.begin'' []]
      (l\<lparr>lv_phase := MainStopping, lv_defers := CancelShutdown # lv_defers l\<rparr>))"
| stopped: "lv_phase l = MainStopping \<Longrightarrow>
    main_step drv legal l (put_lines [main_line 0 ''shutdown complete'' ''shutdown.complete'' []]
      (l\<lparr>lv_phase := MainDeferring, lv_conns := False\<rparr>))"
| stop_error: "lv_phase l = MainStopping \<Longrightarrow>
    main_step drv legal l (put_lines [main_line 8 ''shutdown error'' ''shutdown.error'' (error_attr (ErrorText e)),
        main_line 0 ''shutdown complete'' ''shutdown.complete'' []] (l\<lparr>lv_phase := MainDeferring\<rparr>))"
| deferred_call: "lv_phase l = MainDeferring \<Longrightarrow> lv_defers l = d # ds \<Longrightarrow>
    main_step drv legal l (run_deferred d e (l\<lparr>lv_defers := ds\<rparr>))"
| returns: "lv_phase l = MainDeferring \<Longrightarrow> lv_defers l = [] \<Longrightarrow>
    main_step drv legal l (l\<lparr>lv_phase := MainExited\<rparr>)"

inductive main_reach ::
  "'db sql_driver \<Rightarrow> (env \<Rightarrow> request \<Rightarrow> 'db server \<Rightarrow> bool) \<Rightarrow> 'db live \<Rightarrow> 'db live \<Rightarrow> bool"
  for drv :: "'db sql_driver" and legal :: "env \<Rightarrow> request \<Rightarrow> 'db server \<Rightarrow> bool" and l0 :: "'db live" where
  main_start: "main_reach drv legal l0 l0"
| main_next: "main_reach drv legal l0 l \<Longrightarrow> main_step drv legal l l' \<Longrightarrow> main_reach drv legal l0 l'"

inductive_cases main_stepE: "main_step drv legal l l'"

lemma put_lines_simps [simp]:
  "lv_server (put_lines ls l) = lv_server l" "lv_phase (put_lines ls l) = lv_phase l"
  "lv_listener (put_lines ls l) = lv_listener l" "lv_conns (put_lines ls l) = lv_conns l"
  "lv_pruning (put_lines ls l) = lv_pruning l" "lv_done (put_lines ls l) = lv_done l"
  "lv_closed (put_lines ls l) = lv_closed l" "lv_defers (put_lines ls l) = lv_defers l"
  "lv_lines (put_lines ls l) = lv_lines l @ ls"
  by (simp_all add: put_lines_def)

lemma run_deferred_simps [simp]:
  "lv_server (run_deferred d e l) = lv_server l" "lv_phase (run_deferred d e l) = lv_phase l"
  "lv_listener (run_deferred d e l) = lv_listener l" "lv_conns (run_deferred d e l) = lv_conns l"
  "lv_pruning (run_deferred d e l) = lv_pruning l" "lv_defers (run_deferred d e l) = lv_defers l"
  "lv_done (run_deferred d e l) \<longleftrightarrow> lv_done l \<or> d = StopPruning"
  "lv_closed (run_deferred d e l) \<longleftrightarrow> lv_closed l \<or> d = CloseStore"
  by (cases d; simp split: option.split)+

lemma run_deferred_lines: "\<exists>ls. lv_lines (run_deferred d e l) = lv_lines l @ ls"
  by (cases d) (auto split: option.split)

section \<open>Order of the shutdown\<close>

definition all_defers :: "('db, main_value) process \<Rightarrow> deferred list" where
  "all_defers p = CancelShutdown # lv_defers (live_of p)"

definition order_ok :: "('db, main_value) process \<Rightarrow> 'db live \<Rightarrow> bool" where
  "order_ok p l \<longleftrightarrow>
     suffix (lv_defers l) (all_defers p) \<and>
     (lv_done l \<longleftrightarrow> StopPruning \<notin> set (lv_defers l)) \<and> (lv_closed l \<longleftrightarrow> CloseStore \<notin> set (lv_defers l)) \<and>
     (lv_phase l = MainWaiting \<longrightarrow> lv_defers l = lv_defers (live_of p)) \<and>
     (lv_phase l = MainStopping \<longrightarrow> lv_defers l = all_defers p) \<and>
     (lv_phase l = MainExited \<longrightarrow> lv_defers l = []) \<and>
     (lv_phase l \<in> {MainDeferring, MainExited} \<longrightarrow>
        main_line 0 ''shutdown complete'' ''shutdown.complete'' [] \<in> set (lv_lines l)) \<and>
     (lv_listener l = ListenerGone \<and> lv_phase l = MainWaiting \<longrightarrow>
        (\<exists>e. main_line 8 ''http server error'' ''http.server.error'' (error_attr (ErrorText e)) \<in> set (lv_lines l)))"

lemma distinct_defers: "distinct (all_defers p)" "lv_defers (live_of p) \<noteq> []"
  by (simp_all add: all_defers_def live_of_def)

lemma order_ok_start: "order_ok p (live_of p)"
  by (simp add: order_ok_def all_defers_def suffix_def) (simp add: live_of_def)

lemma order_ok_step: assumes "order_ok p l" "main_step drv legal l l'" shows "order_ok p l'"
  using assms(2,1)
proof (cases rule: main_step.cases)
  case (deferred_call d ds e)
  from assms(1) deferred_call(3) have suf: "suffix (d # ds) (all_defers p)" by (simp add: order_ok_def)
  then have "suffix ds (all_defers p)" by (auto simp: suffix_def)
  moreover have "distinct (d # ds)" using suf distinct_defers(1) [of p] by (auto simp: suffix_def)
  moreover obtain ls where "lv_lines l' = lv_lines l @ ls" using run_deferred_lines [of d e "l\<lparr>lv_defers := ds\<rparr>"] deferred_call(1) by auto
  ultimately show ?thesis
    using assms(1) deferred_call by (auto simp: order_ok_def)
qed (use assms(1) in \<open>auto simp: order_ok_def all_defers_def\<close>)

lemma order_ok_reach: "main_reach drv legal (live_of p) l \<Longrightarrow> order_ok p l"
  by (induction rule: main_reach.induct) (auto intro: order_ok_start order_ok_step)

lemma main_reach_trans: "main_reach drv legal l1 l2 \<Longrightarrow> main_reach drv legal l2 l3 \<Longrightarrow> main_reach drv legal l1 l3"
  by (rotate_tac, induction rule: main_reach.induct) (auto intro: main_next)

text \<open>From every state that has not exited, signal, shutdown and the deferred calls lead to the exit.\<close>

lemma deferring_ends:
  "lv_phase l = MainDeferring \<Longrightarrow> \<exists>l'. main_reach drv legal l l' \<and> lv_phase l' = MainExited"
proof (induction "lv_defers l" arbitrary: l)
  case Nil
  then show ?case using main_next [OF main_start returns [of l]] by (intro exI [of _ "l\<lparr>lv_phase := MainExited\<rparr>"]) simp
next
  case (Cons d ds)
  let ?l = "run_deferred d None (l\<lparr>lv_defers := ds\<rparr>)"
  have "main_step drv legal l ?l" using Cons by (intro deferred_call) simp_all
  then have s: "main_reach drv legal l ?l" by (rule main_next [OF main_start])
  have "ds = lv_defers ?l" "lv_phase ?l = MainDeferring" using Cons.prems by simp_all
  from Cons.hyps(1) [OF this] s show ?case by (blast intro: main_reach_trans)
qed

lemma then_reach: "main_step drv legal l m \<Longrightarrow> main_reach drv legal m l' \<Longrightarrow> main_reach drv legal l l'"
  using main_next [OF main_start] by (rule main_reach_trans)

lemma stopping_ends:
  assumes "lv_phase l = MainStopping" shows "\<exists>l'. main_reach drv legal l l' \<and> lv_phase l' = MainExited"
proof -
  obtain m where m: "main_step drv legal l m" "lv_phase m = MainDeferring" using stopped [OF assms] by fastforce
  obtain l' where "main_reach drv legal m l'" "lv_phase l' = MainExited" using deferring_ends [OF m(2)] by blast
  with then_reach [OF m(1)] show ?thesis by blast
qed

lemma main_ends: "\<exists>l'. main_reach drv legal l l' \<and> lv_phase l' = MainExited"
proof (cases "lv_phase l")
  case MainWaiting
  obtain m where m: "main_step drv legal l m" "lv_phase m = MainStopping" using signal [OF MainWaiting] by fastforce
  obtain l' where "main_reach drv legal m l'" "lv_phase l' = MainExited" using stopping_ends [OF m(2)] by blast
  with then_reach [OF m(1)] show ?thesis by blast
qed (auto intro: stopping_ends deferring_ends main_start)


section \<open>A listener that fails\<close>

definition deaf :: "'db live \<Rightarrow> 'db live \<Rightarrow> bool" where
  "deaf l l' \<longleftrightarrow> (lv_phase l' = MainWaiting \<longrightarrow>
     lv_listener l' = ListenerGone \<and> \<not> lv_conns l' \<and> sv_metrics (lv_server l') = sv_metrics (lv_server l) \<and>
     map_option ps_incidents (sv_store (lv_server l')) = map_option ps_incidents (sv_store (lv_server l)))"

lemma prune_tick_keeps: "prune_tick drv now st = (st', line) \<Longrightarrow> ps_incidents st' = ps_incidents st"
  by (auto simp: prune_tick_def prune_def split: prod.splits sum.splits)

lemma deaf_step:
  assumes "deaf l m" "main_step drv legal m m'" shows "deaf l m'"
  using assms(2,1)
proof (cases rule: main_step.cases)
  case (tick st now st' line)
  then show ?thesis using assms(1) prune_tick_keeps [OF tick(5)] by (simp add: deaf_def)
qed (use assms(1) in \<open>auto simp: deaf_def\<close>)

lemma waiting_steps:
  "main_step drv legal l l' \<Longrightarrow> lv_phase l = MainWaiting \<Longrightarrow> lv_phase l' \<in> {MainWaiting, MainStopping}"
  by (elim main_stepE) auto

text \<open>
  C33: A process that cannot listen, because the address is taken for instance, does not end: it logs
  one error line and waits for a signal. As long as none arrives no request is ever served, the
  incidents and the instruments stay as they are, and no step leaves the wait except the signal.
\<close>

theorem listen_failure_waits:
  assumes "main_reach drv legal (live_of p) l" "lv_phase l = MainWaiting"
    and "lv_listener l = ListenerGone" "\<not> lv_conns l"
    and "main_reach drv legal l l'" "lv_phase l' = MainWaiting"
  shows "(\<exists>e. main_line 8 ''http server error'' ''http.server.error'' (error_attr (ErrorText e)) \<in> set (lv_lines l)) \<and>
    lv_listener l' = ListenerGone \<and> \<not> lv_conns l' \<and> sv_metrics (lv_server l') = sv_metrics (lv_server l) \<and>
    map_option ps_incidents (sv_store (lv_server l')) = map_option ps_incidents (sv_store (lv_server l)) \<and>
    (\<forall>m. main_step drv legal l' m \<longrightarrow> lv_phase m \<in> {MainWaiting, MainStopping})"
proof -
  have start: "deaf l l" using assms(2-4) by (auto simp: deaf_def)
  have "deaf l m" if "main_reach drv legal l m" for m
    using that by (induction rule: main_reach.induct) (auto intro: start deaf_step)
  then have d: "deaf l l'" using assms(5) .
  show ?thesis
    using order_ok_reach [OF assms(1)] d assms(2,3,6) waiting_steps by (auto simp: order_ok_def deaf_def)
qed

section \<open>The lifetime of a process\<close>

definition lawful :: "'db sql_driver \<Rightarrow> env \<Rightarrow> request \<Rightarrow> 'db server \<Rightarrow> bool" where
  "lawful drv ev rq s \<longleftrightarrow>
     (\<forall>r args. find_route (registered_routes s) (rq_method rq) (rq_path rq) = Some (r, args) \<longrightarrow>
        legal_request drv ev rq r args s)"

lemma main_step_server:
  assumes "server_run drv s0 (lv_server l)" "main_step drv (lawful drv) l l'"
  shows "server_run drv s0 (lv_server l')"
  using assms(2)
proof (cases rule: main_step.cases)
  case (request ev rq s' resp)
  then show ?thesis using server_request [OF assms(1)] by (simp add: lawful_def)
next
  case (tick st now st' line)
  obtain s1 r where p: "prune drv now st = (s1, r)" by (cases "prune drv now st")
  with tick(5) have "s1 = st'" by (auto simp: prune_tick_def split: sum.splits)
  with server_prune [OF assms(1) tick(4) p] tick(1) show ?thesis by simp
qed (use assms(1) in simp_all)

lemma main_reach_server:
  "main_reach drv (lawful drv) l0 l \<Longrightarrow> server_run drv (lv_server l0) (lv_server l)"
  by (induction rule: main_reach.induct) (auto intro: server_start main_step_server)

text \<open>
  C20: The lifetime of a process whose incident statements succeed. Let it start on a database with no
  open transaction whose tables mirror an incident store with its invariant, with times of four-digit
  years and the decisions of each incident in distinct, increasing seconds (\<open>times_ok\<close>), and let every
  request be \<open>lawful\<close>: each INSERT or UPDATE of an incident that the request makes succeeds and the
  identifiers it draws are fresh. Telemetry statements, pruning and the listener may fail. Then, with
  requests, pruning ticks, listener errors, a signal and the shutdown in any order, the incident store
  keeps its invariant and the tables mirror it in every state, the exit included, so that the next
  process can start from them. Meanwhile the gauge \<open>vyomm_incidents_active\<close>, which starts at zero, is
  below the number of active incidents by exactly the number that was active at the start. What a
  failed incident statement leaves behind is the subject of \<open>failed_insert_not_retried\<close>,
  \<open>decide_endpoint\<close> and \<open>tables_over_lifetimes\<close>.
\<close>

theorem process_lifetime:
  assumes "sql_laws drv committed pending" "startup drv os = Inr p"
    and "load_config (os_lookup os) = Inr cfg" "open_db (os_opener os) (cf_sqlite_path cfg) = Inr db" "pending db = None"
    and "mirrors (committed db) m" "store_ok m" "times_ok m"
    and "main_reach drv (lawful drv) (live_of p) l"
  shows "\<exists>st es. sv_store (lv_server l) = Some st \<and> sv_metrics (lv_server l) = Some es \<and>
    pending (ps_db st) = None \<and> store_ok (ps_incidents st) \<and>
    mirrors (committed (ps_db st)) (ps_incidents st) \<and>
    total IncidentsActive es = active_count (ps_incidents st) - active_count m"
proof -
  from assms(2) obtain cfg' st where p: "load_config (os_lookup os) = Inr cfg'"
    "new_store drv (open_db (os_opener os) (cf_sqlite_path cfg')) (retention_duration cfg') (os_store_time os) = Inr st"
    "sv_store (pr_server p) = Some st" "sv_metrics (pr_server p) = Some []" by (rule startup_InrD)
  have n: "new_store drv (Inr db) (retention_duration cfg) (os_store_time os) = Inr st"
    using p(1,2) assms(3,4) by simp
  have "server_run drv (pr_server p) (lv_server l)"
    using main_reach_server [OF assms(9)] by (simp add: live_of_def)
  from gauge_since_restart [OF assms(1,5-8) n p(3,4) this] show ?thesis by blast
qed

text \<open>A process whose store is one of the clean lifetimes of a database keeps it one under lawful
  requests, so \<open>tables_over_lifetimes\<close> holds in all its states and for the processes after it.\<close>

lemma process_lives:
  assumes "sql_laws drv committed pending" "startup drv os = Inr p" "sv_store (pr_server p) = Some st0"
    and "load_config (os_lookup os) = Inr cfg" "open_db (os_opener os) (cf_sqlite_path cfg) = Inr db" "pending db = None"
    and "lives drv committed pending True st0" "main_reach drv (lawful drv) (live_of p) l"
  shows "\<exists>st. sv_store (lv_server l) = Some st \<and> lives drv committed pending True st"
proof -
  from assms(2) obtain cfg' st where p: "load_config (os_lookup os) = Inr cfg'"
    "new_store drv (open_db (os_opener os) (cf_sqlite_path cfg')) (retention_duration cfg') (os_store_time os) = Inr st"
    "sv_store (pr_server p) = Some st" "sv_metrics (pr_server p) = Some []" by (rule startup_InrD)
  then have n: "new_store drv (Inr db) (retention_duration cfg) (os_store_time os) = Inr st0"
    using assms(3-5) by simp
  from lives_ok [OF assms(1,7)] have "store_wf (ps_incidents st0)"
    using restored_finite [OF assms(1,6) n] by (simp add: life_ok_def store_wf_def)
  then have "tracked drv [] st0 (active_count (ps_incidents st0)) (pr_server p)"
    using assms(3) p(4) by (auto intro: trackedI run_start)
  moreover have "server_run drv (pr_server p) (lv_server l)"
    using main_reach_server [OF assms(8)] by (simp add: live_of_def)
  ultimately have "tracked drv [] st0 (active_count (ps_incidents st0)) (lv_server l)"
    by (rule server_run_tracked [rotated])
  then obtain st S where "sv_store (lv_server l) = Some st" "durable_run drv [] st0 S st"
    by (auto simp: tracked_def)
  with life_run [OF assms(1,7)] show ?thesis by blast
qed

section \<open>Tracing is optional\<close>

text \<open>
  A missing or unreachable collector never keeps the process from serving: whatever the tracing SDK
  does, the start succeeds with the same server, but for the status that \<open>/healthz\<close> reports, or fails
  with the same error.
\<close>

lemma tracing_best_effort:
  "case (startup drv os, startup drv (os\<lparr>os_tracing := sdk\<rparr>)) of
     (Inl e, r) \<Rightarrow> r = Inl e
   | (Inr p, r) \<Rightarrow> (\<exists>status \<in> {''enabled'', ''disabled''}.
       r = Inr (p\<lparr>pr_server := (pr_server p)\<lparr>sv_otel_status := status\<rparr>\<rparr>))"
  by (simp add: startup_def Let_def split: sum.split)

end
