(* ===== verification/LifetimeWitnesses.thy ===== *)
theory LifetimeWitnesses
  imports Lifetimes ApiWitnesses
begin

text \<open>The properties of \<open>Lifetimes\<close> applied to concrete processes over the driver with tables in memory.\<close>

section \<open>A restart that finds no failing query\<close>

lemma table_restart:
  assumes "td_pending db = None" "td_faults db = []" "tb_telemetry (td_committed db) = []"
    and "mirrors (td_committed db) m" "store_ok m" "times_ok m" "in_int64 (- retention)" "year_ok (now - retention)"
  shows "\<exists>s. new_store table_driver (Inr db) retention now = Inr s \<and> td_faults (ps_db s) = []"
proof (cases "new_store table_driver (Inr db) retention now")
  case (Inl e)
  with restart_law [OF demo_laws assms(1) _ _ assms(4-8), of "[]"] assms(3) obtain q where "e = ErrQuery q"
    by (auto simp: in_order_def)
  with Inl assms(2) show ?thesis
    by (auto simp: new_store_def restore_def table_driver_def td_read_def next_fault_def initial_pstore_def
        no_query_error split: sum.splits)
next
  case (Inr s)
  then have "td_faults (ps_db s) = []"
    using assms(2) by (auto simp: new_store_def restore_def table_driver_def td_read_def next_fault_def
        initial_pstore_def split: sum.splits)
  with Inr show ?thesis by blast
qed

lemma table_upsert:
  assumes "td_pending (ps_db s) = None" "td_faults (ps_db s) = []" "inc_upsert c now (ps_incidents s) = (m, i, True)"
    and "in_id i \<notin> ir_id ` set (tb_incidents (td_committed (ps_db s)))"
  shows "\<exists>s'. upsert_incident table_driver c now s = (s', i, True, None) \<and> ps_incidents s' = m \<and>
    td_faults (ps_db s') = [] \<and> td_pending (ps_db s') = None \<and>
    td_committed (ps_db s') = (td_committed (ps_db s))
      \<lparr>tb_incidents := tb_incidents (td_committed (ps_db s)) @ [incident_row_of i]\<rparr>"
  using assms by (simp add: upsert_incident_def table_driver_def td_exec_def next_fault_def Let_def)

lemma table_decide:
  assumes "td_pending (ps_db s) = None" "td_faults (ps_db s) = []"
    and "inc_decide iid status actor now (ps_incidents s) = (m, Inr (u, was))"
  shows "\<exists>s'. decide_incident table_driver iid status actor now s = (s', Some (u, was), None) \<and>
    ps_incidents s' = m \<and> td_faults (ps_db s') = [] \<and> td_pending (ps_db s') = None \<and>
    td_committed (ps_db s') = fst (stmt_effect (InsertDecision (decision_row_of
        \<lparr>de_incident_id = in_id u, de_status = status, de_actor = actor, de_decided_at = now\<rparr>))
      (fst (stmt_effect (UpdateIncident (in_status u) (rfc3339 (in_updated_at u)) (in_id u)) (td_committed (ps_db s)))))"
  using assms by (simp add: decide_incident_def store_decision_def table_driver_def td_begin_def td_exec_def
      td_commit_def next_fault_def Let_def)

section \<open>Two processes\<close>

lemma demo_lives:
  "\<exists>s. lives table_driver td_committed td_pending True s \<and> is_incidents (ps_incidents s) \<noteq> Map.empty"
proof -
  let ?db = "demo_db empty_tables []"
  have db: "td_pending ?db = None" "td_faults ?db = []" "td_committed ?db = empty_tables"
    by (simp_all add: demo_db_def)
  have "tb_telemetry (td_committed ?db) = []" "mirrors (td_committed ?db) new_incident_store"
    using mirrors_empty by (simp_all add: db(3)) (simp add: empty_tables_def)
  from table_restart [OF db(1,2) this store_ok_new times_ok_new demo_retention_range demo_year_ok(2)]
  obtain s0 where s0: "new_store table_driver (Inr ?db) demo_retention demo_time = Inr s0" "td_faults (ps_db s0) = []"
    by blast
  have l0: "lives table_driver td_committed td_pending True s0" by (rule life_first) (use db s0(1) in simp_all)
  note r0 = restarted [OF demo_laws db(1) s0(1), of new_incident_store, unfolded db(3), OF mirrors_empty store_ok_new times_ok_new]
  have e0: "is_incidents (ps_incidents s0) = Map.empty" "\<And>k. inc_history (ps_incidents s0) k = []"
      "td_pending (ps_db s0) = None" "td_committed (ps_db s0) = empty_tables"
      "\<And>k. inc_decisions (ps_incidents s0) k = []"
    using r0 by (auto simp: reread_def new_incident_store_def inc_history_def inc_decisions_def durable_ok_def)
  obtain m where u: "inc_upsert demo_candidate (demo_time + 1) (ps_incidents s0) = (m, demo_incident 1, True)"
    using e0(2) by (auto simp: inc_upsert_def inc_history_def active_last_def demo_incident_def Let_def)
  obtain s1 where s1: "upsert_incident table_driver demo_candidate (demo_time + 1) s0 = (s1, demo_incident 1, True, None)"
      "ps_incidents s1 = m" "td_faults (ps_db s1) = []" "td_pending (ps_db s1) = None"
      "td_committed (ps_db s1) = empty_tables\<lparr>tb_incidents := [incident_row_of (demo_incident 1)]\<rparr>"
    using table_upsert [OF e0(3) s0(2) u] by (auto simp: e0(4) empty_tables_def)
  have "durable_run table_driver [] s0 [] s1"
    by (rule run_upsert [OF run_start _ s1(1)]) (simp add: fresh_id_def e0(1))
  from life_run [OF demo_laws l0 this] have l1: "lives table_driver td_committed td_pending True s1" .
  note nu = inc_upsert_True [OF u]
  have m: "is_incidents m = [in_id (demo_incident 1) \<mapsto> demo_incident 1]" using nu(3) e0(1) by simp
  have "inc_decisions m k = []" for k using e0(5) [of k] nu(5) by (simp add: inc_decisions_def)
  then have t1: "times_ok m" by (simp add: times_ok_def m demo_incident_def demo_year_ok)
  from lives_ok [OF demo_laws l1] have ok: "mirrors (td_committed (ps_db s1)) m" "store_ok m"
    by (simp_all add: life_ok_def s1(2))
  obtain s2 where s2: "new_store table_driver (Inr (ps_db s1)) demo_retention demo_time = Inr s2"
    using table_restart [OF s1(4,3) _ ok t1 demo_retention_range demo_year_ok(2)]
    by (auto simp: s1(5) empty_tables_def)
  have "lives table_driver td_committed td_pending True s2"
    using life_restart [OF l1 s1(4) _ s2] t1 s1(2) by simp
  moreover have "is_incidents (ps_incidents s2) \<noteq> Map.empty"
    using restarted(1) [OF demo_laws s1(4) s2 ok t1] by (auto simp: reread_def m fun_eq_iff)
  ultimately show ?thesis by blast
qed

theorem tables_over_lifetimes_witness:
  "\<exists>s :: table_db pstore. is_incidents (ps_incidents s) \<noteq> Map.empty \<and>
     mirrors (td_committed (ps_db s)) (ps_incidents s) \<and>
     length (filter (\<lambda>r. ir_status r = IncActive)
       (filter (\<lambda>r. ir_occurrence_key r = ''Memory Leak:rtr-01'') (tb_incidents (td_committed (ps_db s))))) \<le> 1"
proof -
  obtain s where s: "lives table_driver td_committed td_pending True s" "is_incidents (ps_incidents s) \<noteq> Map.empty"
    using demo_lives by blast
  from tables_over_lifetimes [OF demo_laws s(1), of "''Memory Leak:rtr-01''"] s(2) show ?thesis by blast
qed

section \<open>The gauge of a restarted server\<close>

definition demo_decide_request :: request where
  "demo_decide_request = demo_get\<lparr>rq_method := ''POST'',
     rq_path := [''api'', ''v1'', ''incidents'', in_id (demo_incident 1), ''decision''], rq_body := Inr demo_decision_body\<rparr>"

lemma demo_decide_route:
  "find_route (registered_routes (demo_server st)) (rq_method demo_decide_request) (rq_path demo_decide_request) =
     Some (PostDecision, [in_id (demo_incident 1)])"
  by (simp add: demo_decide_request_def registered_routes_def route_table_def method_matches_def Let_def)

lemma gauge_since_restart_witness:
  "\<exists>st0 s st es. new_store table_driver (Inr (demo_db demo_tables [])) demo_retention demo_time = Inr st0 \<and>
     server_run table_driver (demo_server st0) s \<and> s \<noteq> demo_server st0 \<and>
     sv_store s = Some st \<and> sv_metrics s = Some es \<and>
     total IncidentsActive es = active_count (ps_incidents st) - active_count demo_store1"
proof -
  obtain st0 where st0: "new_store table_driver (Inr (demo_db demo_tables [])) demo_retention demo_time = Inr st0"
      "is_incidents (ps_incidents st0) = map_option trunc_incident \<circ> is_incidents demo_store1"
      "td_faults (ps_db st0) = []" "td_pending (ps_db st0) = None"
    using demo_restart by blast
  let ?iid = "in_id (demo_incident 1)"
  obtain m u was where d: "inc_decide ?iid IncResolved ''op'' demo_time (ps_incidents st0) = (m, Inr (u, was))"
    by (simp add: inc_decide_def st0(2) demo_store1 Let_def)
  obtain st1 where st1: "decide_incident table_driver ?iid IncResolved ''op'' demo_time st0 = (st1, Some (u, was), None)"
    using table_decide [OF st0(4,3) d] by blast
  have rq: "rq_body demo_decide_request = Inr demo_decision_body" by (simp add: demo_decide_request_def)
  have legal: "legal_request table_driver demo_env demo_decide_request PostDecision [?iid] (demo_server st0)"
    using st1 by (simp add: legal_request_def rq demo_decision_decodes) (simp add: demo_env_def)
  obtain s resp where s: "serve table_driver demo_env demo_decide_request (demo_server st0) = (s, resp)" by fastforce
  have run: "server_run table_driver (demo_server st0) s"
    by (rule server_request [OF server_start _ s]) (use demo_decide_route legal in auto)
  obtain h x where h: "handle_decide_incident table_driver demo_env ?iid (Inr demo_decision_body) (demo_server st0) = (h, Some x)"
      "\<exists>es. sv_metrics h = Some es"
    using st1 by (auto simp: handle_decide_incident_def demo_decision_decodes demo_env_def)
  have "rq_method demo_decide_request \<noteq> ''OPTIONS''" by (simp add: demo_decide_request_def)
  with h s have res: "resp \<noteq> None" "\<exists>es e e'. sv_metrics s = Some (es @ [e, e'])"
    by (auto simp: serve_def mux_def demo_decide_route dispatch_def rq with_metrics_def Let_def)
  then have "s \<noteq> demo_server st0" by auto
  moreover from gauge_since_restart [OF demo_laws demo_tables_db(1) demo_tables_mirror demo_store1_ok st0(1) _ _ run]
  obtain st es where "sv_store s = Some st" "sv_metrics s = Some es"
      "total IncidentsActive es = active_count (ps_incidents st) - active_count demo_store1" by auto
  ultimately show ?thesis using st0(1) run by auto
qed

section \<open>A lost insert\<close>

definition demo_incident2 :: incident where
  "demo_incident2 = new_incident demo_candidate 2 (demo_time + 2)"

text \<open>The tables after the lost incident was closed and the fault came back.\<close>

definition demo_lost_tables :: tables where
  "demo_lost_tables = empty_tables\<lparr>tb_incidents := [incident_row_of demo_incident2],
     tb_decisions := [decision_row_of \<lparr>de_incident_id = in_id (demo_incident 1), de_status = IncResolved,
       de_actor = ''op'', de_decided_at = demo_time\<rparr>]\<rparr>"

lemma demo_lost_process:
  "\<exists>s1 s2 s3 e r. upsert_incident table_driver demo_candidate (demo_time + 1) (demo_pstore [True]) =
      (s1, demo_incident 1, True, Some e) \<and>
    decide_incident table_driver (in_id (demo_incident 1)) IncResolved ''op'' demo_time s1 = (s2, r, None) \<and>
    upsert_incident table_driver demo_candidate (demo_time + 2) s2 = (s3, demo_incident2, True, None) \<and>
    td_committed (ps_db s3) = demo_lost_tables \<and> td_pending (ps_db s3) = None"
proof -
  define s1 where "s1 = (demo_pstore [True])\<lparr>ps_incidents := demo_store1, ps_db := demo_db empty_tables []\<rparr>"
  have u1: "upsert_incident table_driver demo_candidate (demo_time + 1) (demo_pstore [True]) =
      (s1, demo_incident 1, True, Some (ErrIncidentInsert (in_id (demo_incident 1)) td_error))"
    by (simp add: s1_def upsert_incident_def demo_upsert1 table_driver_def td_exec_def next_fault_def
        demo_pstore_def initial_pstore_def demo_db_def Let_def)
  have p1: "td_pending (ps_db s1) = None" "td_faults (ps_db s1) = []" "ps_incidents s1 = demo_store1"
      "td_committed (ps_db s1) = empty_tables"
    by (simp_all add: s1_def demo_db_def)
  obtain s2 where d1: "decide_incident table_driver (in_id (demo_incident 1)) IncResolved ''op'' demo_time s1 =
        (s2, Some ((demo_incident 1)\<lparr>in_status := IncResolved, in_updated_at := demo_time\<rparr>, True), None)"
      "ps_incidents s2 = demo_store2" "td_faults (ps_db s2) = []" "td_pending (ps_db s2) = None"
      "td_committed (ps_db s2) = demo_lost_tables\<lparr>tb_incidents := []\<rparr>"
    using table_decide [OF p1(1,2) demo_decide [folded p1(3)]]
    by (auto simp: p1(4) empty_tables_def demo_lost_tables_def)
  have key: "cd_occurrence_key demo_candidate = ''Memory Leak:rtr-01''" by (simp add: demo_candidate_def)
  obtain m where u: "inc_upsert demo_candidate (demo_time + 2) demo_store2 = (m, demo_incident2, True)"
    using demo_store2 by (auto simp: inc_upsert_def inc_history_def active_last_def demo_incident2_def key Let_def)
  obtain s3 where "upsert_incident table_driver demo_candidate (demo_time + 2) s2 = (s3, demo_incident2, True, None)"
      "td_pending (ps_db s3) = None" "td_committed (ps_db s3) = demo_lost_tables"
    using table_upsert [OF d1(4,3) u [folded d1(2)]] by (auto simp: d1(5) demo_lost_tables_def)
  with u1 d1(1) show ?thesis by blast
qed

lemma demo_lost_restart:
  "\<exists>s4. new_store table_driver (Inr (demo_db demo_lost_tables [])) demo_retention demo_time = Inr s4 \<and>
     is_incidents (ps_incidents s4) = [in_id demo_incident2 \<mapsto> trunc_incident demo_incident2] \<and>
     inc_history (ps_incidents s4) ''Memory Leak:rtr-01'' = [in_id demo_incident2] \<and>
     td_faults (ps_db s4) = [] \<and> td_pending (ps_db s4) = None"
proof -
  have y: "year_ok (demo_time + 2)" by code_simp
  have i: "incident_of_row (incident_row_of demo_incident2) = Inr (trunc_incident demo_incident2)"
    by (rule incident_of_row_of) (simp_all add: demo_incident2_def y)
  have d: "\<exists>ds. decisions_of_rows (tb_decisions demo_lost_tables) Map.empty = Inr ds"
    by (simp add: demo_lost_tables_def decision_row_of_def parse_rfc3339_rfc3339 demo_year_ok)
  have k: "in_occurrence_key demo_incident2 = ''Memory Leak:rtr-01''"
    by (simp add: demo_incident2_def demo_candidate_def)
  have t: "tb_telemetry demo_lost_tables = []" "tb_incidents demo_lost_tables = [incident_row_of demo_incident2]"
    by (simp_all add: demo_lost_tables_def empty_tables_def)
  have "sort_key dr_decided_at (tb_decisions demo_lost_tables) = tb_decisions demo_lost_tables"
    by (simp add: demo_lost_tables_def)
  with d show ?thesis
    by (auto simp: new_store_def restore_def table_driver_def td_read_def next_fault_def initial_pstore_def
        demo_db_def t i inc_restore_def restore_incident_def new_incident_store_def inc_history_def k)
qed

theorem lost_insert_repeats_number_witness:
  "\<exists>s1 s2 s3 s4 s5 s6 i3 e r1 r2 err.
     upsert_incident table_driver demo_candidate (demo_time + 1) (demo_pstore [True]) = (s1, demo_incident 1, True, Some e) \<and>
     decide_incident table_driver (in_id (demo_incident 1)) IncResolved ''op'' demo_time s1 = (s2, r1, None) \<and>
     upsert_incident table_driver demo_candidate (demo_time + 2) s2 = (s3, demo_incident2, True, None) \<and>
     new_store table_driver (Inr (demo_db demo_lost_tables [])) demo_retention demo_time = Inr s4 \<and>
     decide_incident table_driver (in_id demo_incident2) IncIgnored ''op'' (demo_time + 3) s4 = (s5, r2, None) \<and>
     upsert_incident table_driver demo_candidate (demo_time + 4) s5 = (s6, i3, True, err) \<and>
     in_occurrence_sequence demo_incident2 = 2 \<and> in_occurrence_sequence i3 = 2"
proof -
  obtain s1 s2 s3 e r1 where p: "upsert_incident table_driver demo_candidate (demo_time + 1) (demo_pstore [True]) =
      (s1, demo_incident 1, True, Some e)"
    "decide_incident table_driver (in_id (demo_incident 1)) IncResolved ''op'' demo_time s1 = (s2, r1, None)"
    "upsert_incident table_driver demo_candidate (demo_time + 2) s2 = (s3, demo_incident2, True, None)"
    "td_committed (ps_db s3) = demo_lost_tables" using demo_lost_process by blast
  obtain s4 where q: "new_store table_driver (Inr (demo_db demo_lost_tables [])) demo_retention demo_time = Inr s4"
    "is_incidents (ps_incidents s4) = [in_id demo_incident2 \<mapsto> trunc_incident demo_incident2]"
    "inc_history (ps_incidents s4) ''Memory Leak:rtr-01'' = [in_id demo_incident2]"
    "td_faults (ps_db s4) = []" "td_pending (ps_db s4) = None" using demo_lost_restart by blast
  obtain m u was where d: "inc_decide (in_id demo_incident2) IncIgnored ''op'' (demo_time + 3) (ps_incidents s4) =
      (m, Inr (u, was))" by (simp add: inc_decide_def q(2) Let_def)
  obtain s5 where s5: "decide_incident table_driver (in_id demo_incident2) IncIgnored ''op'' (demo_time + 3) s4 =
      (s5, Some (u, was), None)" "ps_incidents s5 = m" using table_decide [OF q(5,4) d] by blast
  from d obtain x where m: "is_incidents m (in_id demo_incident2) = Some x" "in_status x = IncIgnored"
      "inc_history m ''Memory Leak:rtr-01'' = [in_id demo_incident2]"
    by (rule inc_decide_Inr) (simp add: q(3))
  have key: "cd_occurrence_key demo_candidate = ''Memory Leak:rtr-01''" by (simp add: demo_candidate_def)
  obtain m' i3 where u: "inc_upsert demo_candidate (demo_time + 4) m = (m', i3, True)"
    using m by (simp add: inc_upsert_def inc_history_def active_last_def key Let_def)
  obtain s6 err where s6: "upsert_incident table_driver demo_candidate (demo_time + 4) s5 = (s6, i3, True, err)"
    by (cases "sd_exec table_driver (InsertIncident (incident_row_of i3)) (ps_db s5)"; cases "snd
        (sd_exec table_driver (InsertIncident (incident_row_of i3)) (ps_db s5))")
      (simp_all add: upsert_incident_def s5(2) u Let_def)
  have db: "td_pending (demo_db demo_lost_tables []) = None" "td_committed (demo_db demo_lost_tables []) = td_committed (ps_db s3)"
    by (simp_all add: demo_db_def p(4))
  have s0: "mirrors (td_committed (ps_db (demo_pstore [True]))) (ps_incidents (demo_pstore [True]))"
    "store_ok (ps_incidents (demo_pstore [True]))" by (simp_all add: mirrors_empty)
  have "inc_history (ps_incidents (demo_pstore [True])) ''Memory Leak:rtr-01'' = []"
    by (simp add: inc_history_def new_incident_store_def)
  with lost_insert_repeats_number [OF demo_laws _ s0 p(1-3) db q(1) s5(1) s6] p q(1) s5(1) s6
  show ?thesis by (simp add: key)
qed

end
