(* ===== verification/MainWitnesses.thy ===== *)
theory MainWitnesses
  imports ApiProcess LifetimeWitnesses
begin

text \<open>Processes started from concrete environments on the in-memory driver.\<close>

definition demo_lookup :: "string \<Rightarrow> env_lookup" where
  "demo_lookup hours = (\<lambda>k. if k = ''VYOMM_TELEMETRY_RETENTION_HOURS'' then Some hours else None)"

text \<open>A collector that cannot be reached.\<close>

definition demo_sdk :: "(unit, unit) trace_sdk" where
  "demo_sdk = \<lparr>ts_parse = (\<lambda>u. Inr (u, '''')), ts_exporter = (\<lambda>_ _. Inl ''no collector''), ts_resource = (\<lambda>_. Inr ())\<rparr>"

definition demo_opener :: "tables \<Rightarrow> table_db db_opener" where
  "demo_opener t = \<lparr>do_open = (\<lambda>_ _. Inr (demo_db t [])), do_dialect = (\<lambda>_. None), do_up = (\<lambda>_ db. (db, None))\<rparr>"

lemma demo_opens [simp]: "open_db (demo_opener t) path = Inr (demo_db t [])"
  by (simp add: open_db_def demo_opener_def)

definition demo_outside :: "string \<Rightarrow> tables \<Rightarrow> (table_db, unit, unit) outside" where
  "demo_outside hours t =
     \<lparr>os_lookup = demo_lookup hours, os_read_dir = (\<lambda>_. Inr []), os_read_file = (\<lambda>_ _. Inl ''no such file''),
      os_opener = demo_opener t, os_tracing = demo_sdk, os_random = None,
      os_run_time = demo_time, os_store_time = demo_time\<rparr>"

lemma demo_hours: "atoi ''2562048'' = Inr 2562048" "atoi ''2'' = Inr 2"
  by (simp_all add: atoi_def signed_digits_def is_digit_def digit_val_def less_eq_char_def)

lemma demo_loads:
  "load_config (demo_lookup ''2562048'') = Inr (default_config\<lparr>cf_retention_hours := 2562048\<rparr>)"
  "load_config (demo_lookup ''2'') = Inr (default_config\<lparr>cf_retention_hours := 2\<rparr>)"
  unfolding load_config_def Let_def demo_lookup_def
  by (simp_all add: when_set_def load_api_key_def load_retention_def demo_hours)

lemma demo_library: "load_library (os_read_dir (demo_outside h t)) (os_read_file (demo_outside h t)) dir = Inr \<lparr>lib_dir = dir, lib_docs = []\<rparr>"
  by (simp add: demo_outside_def load_library_def)

lemma demo_new_store:
  assumes "\<forall>r \<in> set (tb_telemetry t). \<not> rfc3339 (retention_cutoff demo_time (initial_pstore (demo_db t []) retention)) \<le> tr_observed_at r"
    and "tb_incidents t = []" "tb_decisions t = []"
  shows "\<exists>st. new_store table_driver (Inr (demo_db t [])) retention demo_time = Inr st"
proof -
  have "filter (\<lambda>r. rfc3339 (retention_cutoff demo_time (initial_pstore (demo_db t []) retention)) \<le> tr_observed_at r)
      (tb_telemetry t) = []" using assms(1) by (auto simp: filter_empty_conv)
  then show ?thesis
    by (simp add: new_store_def restore_def table_driver_def td_read_def next_fault_def assms(2,3) demo_db_def
        initial_pstore_def)
qed

lemma demo_startup:
  assumes "load_config (demo_lookup hours) = Inr cfg"
    and "\<exists>st. new_store table_driver (Inr (demo_db t [])) (retention_duration cfg) demo_time = Inr st"
  shows "\<exists>p. startup table_driver (demo_outside hours t) = Inr p"
proof -
  from assms(2) obtain st where "new_store table_driver (Inr (demo_db t [])) (retention_duration cfg) demo_time = Inr st" ..
  then have "new_store table_driver (open_db (os_opener (demo_outside hours t)) (cf_sqlite_path cfg)) (retention_duration cfg)
      (os_store_time (demo_outside hours t)) = Inr st" by (simp add: demo_outside_def)
  moreover have "load_config (os_lookup (demo_outside hours t)) = Inr cfg" using assms(1) by (simp add: demo_outside_def)
  ultimately show ?thesis by (simp add: startup_def demo_library Let_def)
qed

theorem startup_configured_witness:
  "\<exists>p :: (table_db, string) process. startup table_driver (demo_outside ''2'' empty_tables) = Inr p \<and> pr_interval p = 1800 * 10 ^ 9 \<and>
     pr_addr p = '':8080''"
proof -
  have "\<exists>st. new_store table_driver (Inr (demo_db empty_tables []))
      (retention_duration (default_config\<lparr>cf_retention_hours := 2\<rparr>)) demo_time = Inr st"
    by (rule demo_new_store) (simp_all add: empty_tables_def)
  from demo_startup [OF demo_loads(2) this] obtain p :: "(table_db, string) process" where
    p: "startup table_driver (demo_outside ''2'' empty_tables) = Inr p" ..
  from startup_configured [OF p] p show ?thesis
    by (auto simp: demo_outside_def demo_lookup_def setting_def demo_hours)
qed

lemma demo_far_retention:
  "retention_duration (default_config\<lparr>cf_retention_hours := 2562048\<rparr>) = - 9223371273709551616"
  by (simp add: retention_duration_def wrap64_above)

lemma demo_far_cutoff:
  "year_ok (demo_time - retention_duration (default_config\<lparr>cf_retention_hours := 2562048\<rparr>))"
  "unix demo_time < unix (demo_time - retention_duration (default_config\<lparr>cf_retention_hours := 2562048\<rparr>))"
  unfolding demo_far_retention by code_simp+

theorem retention_overflow_deletes_witness:
  "\<exists>(p :: (table_db, string) process) st st' line.
     startup table_driver (demo_outside ''2562048'' (empty_tables\<lparr>tb_telemetry := [demo_row]\<rparr>)) = Inr p \<and>
     sv_store (pr_server p) = Some st \<and> prune_tick table_driver demo_time st = (st', line) \<and>
     (tb_telemetry (td_committed (ps_db st')) = [] \<or>
      (\<exists>l. line = Some l \<and> lr_message l = ''retention prune failed''))"
proof -
  let ?cfg = "default_config\<lparr>cf_retention_hours := 2562048\<rparr>" and ?t = "empty_tables\<lparr>tb_telemetry := [demo_row]\<rparr>"
  have cut: "retention_cutoff demo_time (initial_pstore (demo_db ?t []) (retention_duration ?cfg)) =
      demo_time - retention_duration ?cfg"
    by (simp add: retention_cutoff_def initial_pstore_def time_add_def retention_duration_def wrap64_above)
  have "\<not> rfc3339 (demo_time - retention_duration ?cfg) \<le> tr_observed_at demo_row"
    using rfc3339_less_iff [OF demo_year_ok(1) demo_far_cutoff(1)] demo_far_cutoff(2) by (simp add: demo_row_observed)
  then have "\<exists>st. new_store table_driver (Inr (demo_db ?t [])) (retention_duration ?cfg) demo_time = Inr st"
    by (intro demo_new_store) (simp add: cut, simp_all add: empty_tables_def)
  from demo_startup [OF demo_loads(1) this] obtain p :: "(table_db, string) process" where
    p: "startup table_driver (demo_outside ''2562048'' ?t) = Inr p" ..
  have "load_config (os_lookup (demo_outside ''2562048'' ?t)) = Inr ?cfg" using demo_loads(1) by (simp add: demo_outside_def)
  moreover have "\<forall>r \<in> set (tb_telemetry (td_committed (demo_db ?t []))). year_ok ((\<lambda>_. demo_time) r) \<and>
      tr_observed_at r = rfc3339 ((\<lambda>_. demo_time) r) \<and> (\<lambda>_. demo_time) r \<le> demo_time"
    using demo_year_ok by (simp add: demo_db_def demo_row_observed)
  moreover have "open_db (os_opener (demo_outside ''2562048'' ?t)) (cf_sqlite_path ?cfg) = Inr (demo_db ?t [])"
    by (simp add: demo_outside_def)
  moreover have "- (2 ^ 63) < retention_duration ?cfg" "retention_duration ?cfg \<le> - (10 ^ 9)"
    using overflow_hours_window [of ?cfg] by simp_all
  ultimately show ?thesis
    using retention_overflow_deletes [OF demo_laws p _ _ _ _ _ _ demo_far_cutoff(1), of "demo_db ?t []" "\<lambda>_. demo_time"] p
    by (auto simp: demo_db_def)
qed

lemma prune_loop_accounts_witness:
  "\<exists>s' ls. prune_loop table_driver [demo_time, demo_time + 1] demo_pstore1 = (s', ls) \<and>
     ps_incidents s' = ps_incidents demo_pstore1 \<and>
     rows_logged ls + length (tb_telemetry (td_committed (ps_db s'))) = 1"
proof -
  obtain s' ls where l: "prune_loop table_driver [demo_time, demo_time + 1] demo_pstore1 = (s', ls)"
    by (cases "prune_loop table_driver [demo_time, demo_time + 1] demo_pstore1")
  have "td_pending (ps_db demo_pstore1) = None" "length (tb_telemetry (td_committed (ps_db demo_pstore1))) = 1"
    by (simp_all add: demo_pstore1_def initial_pstore_def demo_db_def)
  with prune_loop_accounts [OF demo_laws _ l] l show ?thesis by auto
qed

section \<open>Processes that run and end\<close>

lemma demo_process:
  "\<exists>p :: (table_db, main_value) process. startup table_driver (demo_outside ''2'' empty_tables) = Inr p"
proof -
  have "\<exists>st. new_store table_driver (Inr (demo_db empty_tables []))
      (retention_duration (default_config\<lparr>cf_retention_hours := 2\<rparr>)) demo_time = Inr st"
    by (rule demo_new_store) (simp_all add: empty_tables_def)
  from demo_startup [OF demo_loads(2) this] show ?thesis .
qed


lemma demo_deaf:
  assumes "startup table_driver (demo_outside ''2'' empty_tables) = Inr p"
  shows "\<exists>l l'. main_reach table_driver (lawful table_driver) (live_of p) l \<and> lv_phase l = MainWaiting \<and>
    lv_listener l = ListenerGone \<and> \<not> lv_conns l \<and>
    main_reach table_driver (lawful table_driver) l l' \<and> lv_phase l' = MainWaiting"
proof -
  from assms obtain st where st: "sv_store (pr_server p) = Some st" by (blast elim: startup_InrD)
  define l0 where "l0 = live_of p"
  have l0: "lv_phase l0 = MainWaiting" "lv_listener l0 = ListenerStarting" "\<not> lv_conns l0" "lv_pruning l0"
      "lv_server l0 = pr_server p"
    by (simp_all add: l0_def live_of_def)
  obtain l1 where l1: "main_step table_driver (lawful table_driver) l0 l1" "lv_phase l1 = MainWaiting"
      "lv_listener l1 = ListenerOpening" "\<not> lv_conns l1" "lv_pruning l1" "lv_server l1 = pr_server p"
    using announce [of l0 table_driver "lawful table_driver"] l0 by simp
  obtain l where l: "main_step table_driver (lawful table_driver) l1 l" "lv_phase l = MainWaiting"
      "lv_listener l = ListenerGone" "\<not> lv_conns l" "lv_pruning l" "lv_server l = pr_server p"
    using listen_error [of l1 table_driver "lawful table_driver" "''address already in use''"] l1 by simp
  obtain st1 line where t: "prune_tick table_driver demo_time st = (st1, line)"
    by (cases "prune_tick table_driver demo_time st")
  obtain l' where l': "main_step table_driver (lawful table_driver) l l'" "lv_phase l' = MainWaiting"
    using tick [OF _ l(5) _ t, of "lawful table_driver"] l st by fastforce
  have "main_reach table_driver (lawful table_driver) (live_of p) l"
    using main_next [OF main_next [OF main_start l1(1)] l(1)] by (simp add: l0_def)
  with main_next [OF main_start l'(1)] l l'(2) show ?thesis by blast
qed

theorem listen_failure_waits_witness:
  "\<exists>(p :: (table_db, main_value) process) l l'. startup table_driver (demo_outside ''2'' empty_tables) = Inr p \<and>
     main_reach table_driver (lawful table_driver) (live_of p) l \<and>
     main_reach table_driver (lawful table_driver) l l' \<and> lv_phase l' = MainWaiting \<and> \<not> lv_conns l' \<and>
     sv_metrics (lv_server l') = sv_metrics (lv_server l)"
proof -
  obtain p :: "(table_db, main_value) process" where
    p: "startup table_driver (demo_outside ''2'' empty_tables) = Inr p" using demo_process by blast
  obtain l l' where l: "main_reach table_driver (lawful table_driver) (live_of p) l" "lv_phase l = MainWaiting"
      "lv_listener l = ListenerGone" "\<not> lv_conns l"
      "main_reach table_driver (lawful table_driver) l l'" "lv_phase l' = MainWaiting"
    using demo_deaf [OF p] by blast
  from listen_failure_waits [OF l] p l show ?thesis by blast
qed

text \<open>A process started on the tables of one active incident, up to its exit.\<close>

lemma demo_restarted_process:
  "\<exists>p :: (table_db, main_value) process.
     startup table_driver (demo_outside ''2'' (demo_tables\<lparr>tb_telemetry := []\<rparr>)) = Inr p"
proof -
  let ?db = "demo_db (demo_tables\<lparr>tb_telemetry := []\<rparr>) []"
  have R: "retention_duration (default_config\<lparr>cf_retention_hours := 2\<rparr>) = 7200000000000"
    by (simp add: retention_duration_def)
  have y: "year_ok (demo_time - 7200000000000)" by code_simp
  have m: "mirrors (td_committed ?db) demo_store1" using demo_tables_mirror [of "[]"] by (simp add: demo_db_def)
  have db: "td_pending ?db = None" "td_faults ?db = []" "tb_telemetry (td_committed ?db) = []"
    by (simp_all add: demo_db_def)
  have "in_int64 (- 7200000000000)" by simp
  from table_restart [OF db m demo_store1_ok this y] R
  have "\<exists>st. new_store table_driver (Inr ?db)
      (retention_duration (default_config\<lparr>cf_retention_hours := 2\<rparr>)) demo_time = Inr st" by auto
  from demo_startup [OF demo_loads(2) this] show ?thesis .
qed

theorem process_lifetime_witness:
  "\<exists>(p :: (table_db, main_value) process) l st es.
     startup table_driver (demo_outside ''2'' (demo_tables\<lparr>tb_telemetry := []\<rparr>)) = Inr p \<and>
     main_reach table_driver (lawful table_driver) (live_of p) l \<and> lv_phase l = MainExited \<and>
     sv_store (lv_server l) = Some st \<and> mirrors (td_committed (ps_db st)) (ps_incidents st) \<and>
     sv_metrics (lv_server l) = Some es \<and>
     total IncidentsActive es = active_count (ps_incidents st) - active_count demo_store1"
proof -
  let ?t = "demo_tables\<lparr>tb_telemetry := []\<rparr>" and ?cfg = "default_config\<lparr>cf_retention_hours := 2\<rparr>"
  obtain p :: "(table_db, main_value) process" where p: "startup table_driver (demo_outside ''2'' ?t) = Inr p"
    using demo_restarted_process by blast
  obtain l where l: "main_reach table_driver (lawful table_driver) (live_of p) l" "lv_phase l = MainExited"
    using main_ends by blast
  have o: "load_config (os_lookup (demo_outside ''2'' ?t)) = Inr ?cfg"
    "open_db (os_opener (demo_outside ''2'' ?t)) (cf_sqlite_path ?cfg) = Inr (demo_db ?t [])"
    using demo_loads(2) by (simp_all add: demo_outside_def)
  have db: "td_pending (demo_db ?t []) = None" "mirrors (td_committed (demo_db ?t [])) demo_store1"
    using demo_tables_mirror [of "[]"] by (simp_all add: demo_db_def)
  from process_lifetime [OF demo_laws p o db demo_store1_ok l(1)] p l show ?thesis by blast
qed

end
