(* ===== verification/Concurrency.thy ===== *)
theory Concurrency
  imports Durability
begin

text \<open>
  Requests run concurrently. A call of \<open>UpsertIncident\<close> or \<open>DecideIncident\<close> (\<open>internal/persistence/store.go\<close>)
  takes the mutex of \<open>incidents.Store\<close> for its memory part only; its database part follows on the
  single connection, where a statement outside a transaction or a whole transaction is atomic, and
  its handler (\<open>internal/api/handlers.go\<close>) moves the gauge after that. Between these parts any other
  request may run. A state is the shared memory, the tables, the gauge and what the calls in
  flight have left to do. A process starts with the incidents it restored and a gauge at zero. The
  database part of a call may fail: the handler then logs and goes on to the next incident, or answers
  404, and moves no gauge, while the memory keeps the change. The two lists \<open>cs_lost\<close> and \<open>cs_undone\<close>
  are no state of the program: they record which incidents and which decisions the database refused,
  so that properties can speak of them.
\<close>

section \<open>Calls in flight\<close>

datatype task = InsertTask incident | DecideTask incident decision bool | GaugeTask int

record conc_state =
  cs_mem :: incident_store
  cs_tables :: tables
  cs_gauge :: int
  cs_tasks :: "task list"
  cs_lost :: "incident list"
  cs_undone :: "(decision \<times> bool) list"

definition begin_upsert :: "candidate \<Rightarrow> gotime \<Rightarrow> conc_state \<Rightarrow> conc_state" where
  "begin_upsert c now s =
     (let (m, inc, created) = inc_upsert c now (cs_mem s) in
      s\<lparr>cs_mem := m, cs_tasks := cs_tasks s @ (if created then [InsertTask inc] else [])\<rparr>)"

definition begin_decide :: "string \<Rightarrow> inc_status \<Rightarrow> string \<Rightarrow> gotime \<Rightarrow> conc_state \<Rightarrow> conc_state" where
  "begin_decide iid status actor now s =
     (case inc_decide iid status actor now (cs_mem s) of
        (m, Inl e) \<Rightarrow> s\<lparr>cs_mem := m\<rparr>
      | (m, Inr (inc, was_active)) \<Rightarrow>
          s\<lparr>cs_mem := m, cs_tasks := cs_tasks s @ [DecideTask inc
            \<lparr>de_incident_id = in_id inc, de_status = status, de_actor = actor, de_decided_at = now\<rparr> was_active]\<rparr>)"

text \<open>The effect of a part on the tables and the gauge, and what the call still has to do after it.\<close>

fun task_tables :: "task \<Rightarrow> tables \<Rightarrow> tables" where
  "task_tables (InsertTask inc) t = fst (stmt_effect (InsertIncident (incident_row_of inc)) t)"
| "task_tables (DecideTask inc d was) t =
     fst (stmt_effect (InsertDecision (decision_row_of d))
       (fst (stmt_effect (UpdateIncident (in_status inc) (rfc3339 (in_updated_at inc)) (in_id inc)) t)))"
| "task_tables (GaugeTask g) t = t"

fun task_gauge :: "task \<Rightarrow> int" where
  "task_gauge (GaugeTask g) = g"
| "task_gauge _ = 0"

fun task_rest :: "task \<Rightarrow> task list" where
  "task_rest (InsertTask inc) = [GaugeTask 1]"
| "task_rest (DecideTask inc d was) = (if was then [GaugeTask (- 1)] else [])"
| "task_rest (GaugeTask g) = []"

definition run_task :: "nat \<Rightarrow> conc_state \<Rightarrow> conc_state" where
  "run_task n s =
     (let task = cs_tasks s ! n in
      s\<lparr>cs_tables := task_tables task (cs_tables s), cs_gauge := cs_gauge s + task_gauge task,
        cs_tasks := take n (cs_tasks s) @ task_rest task @ drop (Suc n) (cs_tasks s)\<rparr>)"

text \<open>The database part of a call fails: \<open>UpsertIncident\<close> and \<open>DecideIncident\<close> return the error, a
  transaction is rolled back. Moving the gauge cannot fail.\<close>

definition fail_task :: "nat \<Rightarrow> conc_state \<Rightarrow> conc_state" where
  "fail_task n s =
     (let s' = s\<lparr>cs_tasks := take n (cs_tasks s) @ drop (Suc n) (cs_tasks s)\<rparr> in
      case cs_tasks s ! n of
        InsertTask inc \<Rightarrow> s'\<lparr>cs_lost := cs_lost s @ [inc]\<rparr>
      | DecideTask inc d was \<Rightarrow> s'\<lparr>cs_undone := cs_undone s @ [(d, was)]\<rparr>
      | GaugeTask g \<Rightarrow> s)"

definition conc_start :: "incident_store \<Rightarrow> tables \<Rightarrow> conc_state" where
  "conc_start m t = \<lparr>cs_mem = m, cs_tables = t, cs_gauge = 0, cs_tasks = [], cs_lost = [], cs_undone = []\<rparr>"

text \<open>Any interleaving of the parts in a process that started with the restored incidents \<open>m\<close> on the
  tables \<open>t\<close>. The handler only decides \<open>resolved\<close> or \<open>ignored\<close>.\<close>

inductive conc_reach :: "incident_store \<Rightarrow> tables \<Rightarrow> conc_state \<Rightarrow> bool" for m t where
  conc_init: "store_wf m \<Longrightarrow> mirrors t m \<Longrightarrow> conc_reach m t (conc_start m t)"
| conc_upsert: "conc_reach m t s \<Longrightarrow> fresh_id c now (cs_mem s) \<Longrightarrow> conc_reach m t (begin_upsert c now s)"
| conc_decide: "conc_reach m t s \<Longrightarrow> status \<noteq> IncActive \<Longrightarrow>
    conc_reach m t (begin_decide iid status actor now s)"
| conc_task: "conc_reach m t s \<Longrightarrow> n < length (cs_tasks s) \<Longrightarrow> conc_reach m t (run_task n s)"
| conc_fail: "conc_reach m t s \<Longrightarrow> n < length (cs_tasks s) \<Longrightarrow> conc_reach m t (fail_task n s)"

section \<open>The invariant of all interleavings\<close>

text \<open>What a row keeps for good: everything but the status and the time of the last update.\<close>

definition core :: "incident_row \<Rightarrow> incident_row" where
  "core r = r\<lparr>ir_status := IncActive, ir_updated_at := ''''\<rparr>"

fun pending_insert :: "task \<Rightarrow> incident list" where
  "pending_insert (InsertTask inc) = [inc]"
| "pending_insert _ = []"

fun pending_decision :: "task \<Rightarrow> decision list" where
  "pending_decision (DecideTask inc d was) = [d]"
| "pending_decision _ = []"

fun pending_gauge :: "task \<Rightarrow> int" where
  "pending_gauge (InsertTask inc) = 1"
| "pending_gauge (DecideTask inc d was) = (if was then - 1 else 0)"
| "pending_gauge (GaugeTask g) = g"

text \<open>The rows and the audit entries of the tables together with the refused ones and those in flight.\<close>

definition all_rows :: "conc_state \<Rightarrow> incident_row list" where
  "all_rows s = map core (tb_incidents (cs_tables s)) @ map (core \<circ> incident_row_of) (cs_lost s) @
     map (core \<circ> incident_row_of) (concat (map pending_insert (cs_tasks s)))"

definition all_audit :: "conc_state \<Rightarrow> decision_row list" where
  "all_audit s = tb_decisions (cs_tables s) @ map (decision_row_of \<circ> fst) (cs_undone s) @
     map decision_row_of (concat (map pending_decision (cs_tasks s)))"

text \<open>What the gauge will show when nothing is in flight, corrected by the refused parts.\<close>

definition all_gauge :: "conc_state \<Rightarrow> int" where
  "all_gauge s = cs_gauge s + sum_list (map pending_gauge (cs_tasks s)) + int (length (cs_lost s)) -
     int (length (filter snd (cs_undone s)))"

definition conc_ok :: "incident_store \<Rightarrow> conc_state \<Rightarrow> bool" where
  "conc_ok m0 s \<longleftrightarrow>
     store_wf (cs_mem s) \<and> all_gauge s + active_count m0 = active_count (cs_mem s) \<and>
     distinct (map ir_id (all_rows s)) \<and>
     set (all_rows s) = (core \<circ> incident_row_of) ` ran (is_incidents (cs_mem s)) \<and>
     (\<forall>iid. mset (filter (\<lambda>r. dr_incident_id r = iid) (all_audit s)) =
        mset (map decision_row_of (inc_decisions (cs_mem s) iid)))"

lemma core_simps [simp]:
  "ir_id (core r) = ir_id r" "core (r\<lparr>ir_status := st, ir_updated_at := u\<rparr>) = core r"
  by (simp_all add: core_def)

lemma core_row_decided [simp]:
  "core (incident_row_of (i\<lparr>in_status := st, in_updated_at := u\<rparr>)) = core (incident_row_of i)"
  by (simp add: core_def incident_row_of_def)

lemma tasks_split: "n < length ts \<Longrightarrow> ts = take n ts @ ts ! n # drop (Suc n) ts"
  by (rule id_take_nth_drop)

text \<open>Running a part moves its row or its audit entry from the calls in flight to the tables.\<close>

lemma run_task_moves:
  assumes "n < length (cs_tasks s)"
  shows "mset (all_rows (run_task n s)) = mset (all_rows s)" "mset (all_audit (run_task n s)) = mset (all_audit s)"
    "all_gauge (run_task n s) = all_gauge s" "cs_mem (run_task n s) = cs_mem s"
proof -
  obtain xs k ys where ts: "cs_tasks s = xs @ k # ys" "n = length xs" "cs_tasks s ! n = k"
    using tasks_split [OF assms] assms by (metis length_take less_imp_le min.absorb2)
  have run: "run_task n s = s\<lparr>cs_tables := task_tables k (cs_tables s), cs_gauge := cs_gauge s + task_gauge k,
      cs_tasks := xs @ task_rest k @ ys\<rparr>"
    by (simp add: run_task_def ts)
  have upd: "map core (map (\<lambda>r. if ir_id r = iid then r\<lparr>ir_status := st, ir_updated_at := u\<rparr> else r) rs) = map core rs"
    for iid st u and rs :: "incident_row list" by (induction rs) auto
  show "mset (all_rows (run_task n s)) = mset (all_rows s)"
    unfolding run by (cases k) (simp_all add: all_rows_def ts(1) upd del: map_map)
  show "mset (all_audit (run_task n s)) = mset (all_audit s)"
    unfolding run by (cases k) (simp_all add: all_audit_def ts(1))
  show "all_gauge (run_task n s) = all_gauge s"
    unfolding run by (cases k) (simp_all add: all_gauge_def ts(1))
  show "cs_mem (run_task n s) = cs_mem s" unfolding run by simp
qed

lemma fail_task_moves:
  assumes "n < length (cs_tasks s)"
  shows "mset (all_rows (fail_task n s)) = mset (all_rows s)" "mset (all_audit (fail_task n s)) = mset (all_audit s)"
    "all_gauge (fail_task n s) = all_gauge s" "cs_mem (fail_task n s) = cs_mem s"
proof -
  obtain xs k ys where ts: "cs_tasks s = xs @ k # ys" "n = length xs" "cs_tasks s ! n = k"
    using tasks_split [OF assms] assms by (metis length_take less_imp_le min.absorb2)
  show "mset (all_rows (fail_task n s)) = mset (all_rows s)"
    by (cases k) (simp_all add: fail_task_def all_rows_def ts)
  show "mset (all_audit (fail_task n s)) = mset (all_audit s)"
    by (cases k) (simp_all add: fail_task_def all_audit_def ts)
  show "all_gauge (fail_task n s) = all_gauge s"
    by (cases k) (simp_all add: fail_task_def all_gauge_def ts)
  show "cs_mem (fail_task n s) = cs_mem s" by (cases k) (simp_all add: fail_task_def ts)
qed

lemma conc_ok_moves:
  assumes "conc_ok m0 s" "mset (all_rows s') = mset (all_rows s)" "mset (all_audit s') = mset (all_audit s)"
    and "all_gauge s' = all_gauge s" "cs_mem s' = cs_mem s"
  shows "conc_ok m0 s'"
proof -
  have "mset (map ir_id (all_rows s')) = mset (map ir_id (all_rows s))" using assms(2) by simp
  then have "distinct (map ir_id (all_rows s')) \<longleftrightarrow> distinct (map ir_id (all_rows s))"
    by (rule mset_eq_imp_distinct_iff)
  moreover have "set (all_rows s') = set (all_rows s)" using assms(2) by (rule mset_eq_setD)
  moreover have "mset (filter P (all_audit s')) = mset (filter P (all_audit s))" for P
    using assms(3) by (simp only: mset_filter)
  ultimately show ?thesis using assms(1,4,5) by (simp add: conc_ok_def)
qed

lemma conc_ok_upsert:
  assumes "conc_ok m0 s" "fresh_id c now (cs_mem s)"
  shows "conc_ok m0 (begin_upsert c now s)"
proof -
  obtain m inc created where u: "inc_upsert c now (cs_mem s) = (m, inc, created)" by (cases "inc_upsert c now (cs_mem s)")
  have wf: "store_wf (cs_mem s)" using assms(1) by (simp add: conc_ok_def)
  note w = upsert_wf_count [OF wf assms(2) u]
  show ?thesis
  proof (cases created)
    case False
    then have "m = cs_mem s" using u by (cases rule: inc_upsert_cases [of "cs_mem s" c now]) auto
    then have "begin_upsert c now s = s" using u False by (simp add: begin_upsert_def)
    with assms(1) show ?thesis by simp
  next
    case True
    note n = inc_upsert_True [OF u [unfolded eqTrueI [OF True]]]
    have new: "is_incidents (cs_mem s) (in_id inc) = None" using assms(2) n(2) by (simp add: fresh_id_def)
    have s': "begin_upsert c now s = s\<lparr>cs_mem := m, cs_tasks := cs_tasks s @ [InsertTask inc]\<rparr>"
      using u True by (simp add: begin_upsert_def)
    have rows: "all_rows (begin_upsert c now s) = all_rows s @ [core (incident_row_of inc)]"
      "all_audit (begin_upsert c now s) = all_audit s"
      "all_gauge (begin_upsert c now s) = all_gauge s + 1"
      unfolding s' by (simp_all add: all_rows_def all_audit_def all_gauge_def)
    have ids: "ir_id ` set (all_rows s) = in_id ` ran (is_incidents (cs_mem s))"
      using assms(1) by (simp add: conc_ok_def image_image)
    have "linked (cs_mem s)" using wf by (simp add: store_wf_def store_ok_def)
    then have fresh: "in_id inc \<notin> in_id ` ran (is_incidents (cs_mem s))"
      using linkedD1 new by (fastforce simp: ran_def)
    have "ran (is_incidents m) = insert inc (ran (is_incidents (cs_mem s)))" using n(3) new by simp
    moreover have "inc_decisions m iid = inc_decisions (cs_mem s) iid" for iid by (simp add: inc_decisions_def n(5))
    ultimately show ?thesis
      using assms(1) w True fresh ids unfolding conc_ok_def rows unfolding s' by simp
  qed
qed

lemma conc_ok_decide:
  assumes "conc_ok m0 s" "status \<noteq> IncActive"
  shows "conc_ok m0 (begin_decide iid status actor now s)"
proof -
  obtain m r where d: "inc_decide iid status actor now (cs_mem s) = (m, r)" by (cases "inc_decide iid status actor now (cs_mem s)")
  have wf: "store_wf (cs_mem s)" using assms(1) by (simp add: conc_ok_def)
  note w = decide_wf_count [OF wf assms(2) d]
  show ?thesis
  proof (cases r)
    case (Inl e)
    then have "m = cs_mem s" using d by (auto simp: inc_decide_def Let_def split: option.splits)
    then have "begin_decide iid status actor now s = s" using d Inl by (simp add: begin_decide_def)
    with assms(1) show ?thesis by simp
  next
    case (Inr p)
    obtain u was where p: "r = Inr (u, was)" using Inr by (cases p) simp
    from d [unfolded p] obtain e where e: "is_incidents (cs_mem s) iid = Some e"
      "u = e\<lparr>in_status := status, in_updated_at := now\<rparr>" "was \<longleftrightarrow> in_status e = IncActive"
      "is_incidents m = (is_incidents (cs_mem s))(iid \<mapsto> u)" "\<forall>k. inc_history m k = inc_history (cs_mem s) k"
      "\<forall>d. inc_decisions m d = (if d = iid then inc_decisions (cs_mem s) iid @
         [\<lparr>de_incident_id = iid, de_status = status, de_actor = actor, de_decided_at = now\<rparr>]
         else inc_decisions (cs_mem s) d)" by (rule inc_decide_Inr)
    have "linked (cs_mem s)" using wf by (simp add: store_wf_def store_ok_def)
    then have id: "in_id u = iid" using linkedD1 e(1,2) by fastforce
    let ?d = "\<lparr>de_incident_id = iid, de_status = status, de_actor = actor, de_decided_at = now\<rparr>"
    have s': "begin_decide iid status actor now s = s\<lparr>cs_mem := m, cs_tasks := cs_tasks s @ [DecideTask u ?d was]\<rparr>"
      using d p id by (simp add: begin_decide_def)
    have rows: "all_rows (begin_decide iid status actor now s) = all_rows s"
      "all_audit (begin_decide iid status actor now s) = all_audit s @ [decision_row_of ?d]"
      "all_gauge (begin_decide iid status actor now s) = all_gauge s + (if was then - 1 else 0)"
      unfolding s' by (simp_all add: all_rows_def all_audit_def all_gauge_def)
    have "(core \<circ> incident_row_of) ` ran (is_incidents m) = (core \<circ> incident_row_of) ` ran (is_incidents (cs_mem s))"
    proof -
      have "\<exists>j \<in> ran (is_incidents (cs_mem s)). core (incident_row_of i) = core (incident_row_of j)"
        if "i \<in> ran (is_incidents m)" for i
        using that e(1,2,4) by (auto simp: ran_def split: if_splits)
      moreover have "\<exists>j \<in> ran (is_incidents m). core (incident_row_of i) = core (incident_row_of j)"
        if i: "i \<in> ran (is_incidents (cs_mem s))" for i
      proof -
        obtain k where k: "is_incidents (cs_mem s) k = Some i" using i by (auto simp: ran_def)
        show ?thesis
        proof (cases "k = iid")
          case True
          with k e have "u \<in> ran (is_incidents m)" "core (incident_row_of i) = core (incident_row_of u)"
            by (auto simp: ran_def)
          then show ?thesis by blast
        next
          case False
          with k e(4) have "i \<in> ran (is_incidents m)" by (auto simp: ran_def intro!: exI [of _ k])
          then show ?thesis by blast
        qed
      qed
      ultimately show ?thesis by (auto simp: image_iff)
    qed
    moreover have "mset (filter (\<lambda>r. dr_incident_id r = k) (all_audit s @ [decision_row_of ?d])) =
        mset (map decision_row_of (inc_decisions m k))" for k
      using assms(1) e(6) by (auto simp: conc_ok_def decision_row_of_def)
    ultimately show ?thesis
      using assms(1) w p unfolding conc_ok_def rows unfolding s' by simp
  qed
qed

lemma conc_ok_start:
  assumes "store_wf m" "mirrors t m"
  shows "conc_ok m (conc_start m t)"
proof -
  have "set (tb_incidents t) = incident_row_of ` ran (is_incidents m)" using assms(2) by (simp add: mirrors_def)
  then show ?thesis
    using assms by (simp add: conc_ok_def conc_start_def all_rows_def all_audit_def all_gauge_def mirrors_def
        comp_def image_image)
qed

lemma conc_reach_ok: "conc_reach m t s \<Longrightarrow> conc_ok m s"
proof (induction rule: conc_reach.induct)
  case (conc_task s n)
  show ?case by (rule conc_ok_moves [OF conc_task.IH run_task_moves [OF conc_task.hyps(2)]])
next
  case (conc_fail s n)
  show ?case by (rule conc_ok_moves [OF conc_fail.IH fail_task_moves [OF conc_fail.hyps(2)]])
qed (simp_all add: conc_ok_start conc_ok_upsert conc_ok_decide)

section \<open>What holds under every interleaving, and what does not\<close>

lemma core_eqD: "core r = core q \<Longrightarrow> r = q\<lparr>ir_status := ir_status r, ir_updated_at := ir_updated_at r\<rparr>"
  by (cases r; cases q) (simp add: core_def)

text \<open>
  C34: A process starts with a well-formed incident store that its tables mirror, restored or empty.
  However requests interleave, whichever INSERTs and decision transactions fail, at any time a fault has
  at most one active incident. Whenever no call is in flight, the gauge is the number of active
  incidents less those restored at the start, less the incidents whose INSERT failed, plus the
  decisions on active incidents that failed; the incidents in memory are those with a row, one row
  each, and those whose INSERT failed; a row agrees with its incident in everything but perhaps the
  status and the time of the last update; and the stored audit trail with the failed decisions holds
  exactly the decisions taken, up to their order. New identifiers are assumed fresh.
\<close>

theorem interleavings_safe:
  assumes "conc_reach m0 t0 s"
  shows "(\<forall>i j x y. is_incidents (cs_mem s) i = Some x \<and> is_incidents (cs_mem s) j = Some y \<and>
        in_occurrence_key x = in_occurrence_key y \<and> in_status x = IncActive \<and> in_status y = IncActive \<longrightarrow> i = j) \<and>
    (cs_tasks s = [] \<longrightarrow>
       cs_gauge s = active_count (cs_mem s) - active_count m0 - int (length (cs_lost s)) +
         int (length (filter snd (cs_undone s))) \<and>
       distinct (map ir_id (tb_incidents (cs_tables s)) @ map in_id (cs_lost s)) \<and>
       ir_id ` set (tb_incidents (cs_tables s)) \<union> in_id ` set (cs_lost s) = dom (is_incidents (cs_mem s)) \<and>
       (\<forall>r \<in> set (tb_incidents (cs_tables s)). \<exists>i. is_incidents (cs_mem s) (ir_id r) = Some i \<and>
          r = (incident_row_of i)\<lparr>ir_status := ir_status r, ir_updated_at := ir_updated_at r\<rparr>) \<and>
       (\<forall>iid. mset (filter (\<lambda>r. dr_incident_id r = iid)
            (tb_decisions (cs_tables s) @ map (decision_row_of \<circ> fst) (cs_undone s))) =
          mset (map decision_row_of (inc_decisions (cs_mem s) iid))))"
proof -
  note ok = conc_reach_ok [OF assms, unfolded conc_ok_def]
  have links: "linked (cs_mem s)" "active_is_last (cs_mem s)" using ok by (simp_all add: store_wf_def store_ok_def)
  have one: "\<forall>i j x y. is_incidents (cs_mem s) i = Some x \<and> is_incidents (cs_mem s) j = Some y \<and>
        in_occurrence_key x = in_occurrence_key y \<and> in_status x = IncActive \<and> in_status y = IncActive \<longrightarrow> i = j"
    using links(2) unfolding active_is_last_def by metis
  let ?rows = "tb_incidents (cs_tables s)"
  have quiet: "cs_gauge s = active_count (cs_mem s) - active_count m0 - int (length (cs_lost s)) +
         int (length (filter snd (cs_undone s))) \<and>
       distinct (map ir_id ?rows @ map in_id (cs_lost s)) \<and>
       ir_id ` set ?rows \<union> in_id ` set (cs_lost s) = dom (is_incidents (cs_mem s)) \<and>
       (\<forall>r \<in> set ?rows. \<exists>i. is_incidents (cs_mem s) (ir_id r) = Some i \<and>
          r = (incident_row_of i)\<lparr>ir_status := ir_status r, ir_updated_at := ir_updated_at r\<rparr>) \<and>
       (\<forall>iid. mset (filter (\<lambda>r. dr_incident_id r = iid)
            (tb_decisions (cs_tables s) @ map (decision_row_of \<circ> fst) (cs_undone s))) =
          mset (map decision_row_of (inc_decisions (cs_mem s) iid)))" if none: "cs_tasks s = []"
  proof -
    have all: "all_rows s = map core ?rows @ map (core \<circ> incident_row_of) (cs_lost s)"
        "all_audit s = tb_decisions (cs_tables s) @ map (decision_row_of \<circ> fst) (cs_undone s)"
      using none by (simp_all add: all_rows_def all_audit_def)
    have cores: "set (all_rows s) = (core \<circ> incident_row_of) ` ran (is_incidents (cs_mem s))" using ok by blast
    have stored: "\<exists>i. is_incidents (cs_mem s) (ir_id r) = Some i \<and>
          r = (incident_row_of i)\<lparr>ir_status := ir_status r, ir_updated_at := ir_updated_at r\<rparr>" if r: "r \<in> set ?rows" for r
    proof -
      have "core r \<in> set (all_rows s)" using r unfolding all by simp
      with cores obtain i where i: "i \<in> ran (is_incidents (cs_mem s))" "core r = core (incident_row_of i)" by auto
      then have "ir_id r = in_id i" by (metis core_simps(1) ir_id_row)
      with i(1) linkedD1 [OF links(1)] have "is_incidents (cs_mem s) (ir_id r) = Some i" by (fastforce simp: ran_def)
      with core_eqD [OF i(2)] show ?thesis by blast
    qed
    have ids: "map ir_id (all_rows s) = map ir_id ?rows @ map in_id (cs_lost s)" unfolding all by simp
    have "ir_id ` set ?rows \<union> in_id ` set (cs_lost s) = set (map ir_id (all_rows s))" unfolding ids by simp
    also have "\<dots> = in_id ` ran (is_incidents (cs_mem s))" unfolding set_map cores by (simp add: image_image)
    also have "\<dots> = dom (is_incidents (cs_mem s))" using linkedD1 [OF links(1)] by (force simp: ran_def image_iff)
    finally have "ir_id ` set ?rows \<union> in_id ` set (cs_lost s) = dom (is_incidents (cs_mem s))" .
    moreover have "distinct (map ir_id ?rows @ map in_id (cs_lost s))" using ok unfolding ids by blast
    moreover have "cs_gauge s = active_count (cs_mem s) - active_count m0 - int (length (cs_lost s)) +
         int (length (filter snd (cs_undone s)))"
      using ok none by (simp add: all_gauge_def)
    ultimately show ?thesis using stored ok unfolding all(2) [symmetric] by blast
  qed
  with one show ?thesis by blast
qed

text \<open>A process on empty tables in which no statement has failed.\<close>

definition undisturbed :: "conc_state \<Rightarrow> bool" where
  "undisturbed s \<longleftrightarrow> conc_reach new_incident_store empty_tables s \<and> cs_lost s = [] \<and> cs_undone s = []"

lemma undisturbed_first: "undisturbed (begin_upsert c now (conc_start new_incident_store empty_tables))"
proof -
  have "fresh_id c now (cs_mem (conc_start new_incident_store empty_tables))"
    by (simp add: fresh_id_def conc_start_def new_incident_store_def)
  with conc_init [OF store_wf_new mirrors_empty] show ?thesis
    by (auto simp: undisturbed_def begin_upsert_def conc_start_def intro: conc_upsert split: prod.splits
        dest: conc_upsert)
qed

lemma undisturbed_decide:
  "undisturbed s \<Longrightarrow> status \<noteq> IncActive \<Longrightarrow> undisturbed (begin_decide iid status actor now s)"
  by (auto simp: undisturbed_def conc_decide) (auto simp: begin_decide_def split: prod.splits sum.splits)

lemma undisturbed_task: "undisturbed s \<Longrightarrow> n < length (cs_tasks s) \<Longrightarrow> undisturbed (run_task n s)"
  by (auto simp: undisturbed_def conc_task) (simp_all add: run_task_def Let_def)

text \<open>
  C35: The database part of a decision can overtake that of the incident's creation: there is an
  interleaving of one detection and one decision, every statement succeeding, after which the
  incident is resolved in memory and active in its table, so a restart would reopen it; on the way
  the gauge is -1.
\<close>

theorem decision_overtakes_insert:
  "\<exists>mid s i r. conc_reach new_incident_store empty_tables mid \<and> cs_lost mid = [] \<and> cs_undone mid = [] \<and> cs_gauge mid = - 1 \<and>
     conc_reach new_incident_store empty_tables s \<and> cs_lost s = [] \<and> cs_undone s = [] \<and> cs_tasks s = [] \<and>
     is_incidents (cs_mem s) (in_id i) = Some i \<and>
     in_occurrence_key i = cd_occurrence_key c \<and> in_status i = IncResolved \<and>
     r \<in> set (tb_incidents (cs_tables s)) \<and> ir_id r = in_id i \<and> ir_status r = IncActive" for c :: candidate
proof -
  fix now later :: gotime and actor :: string
  obtain i u d where i: "i = new_incident c 1 now" "u = i\<lparr>in_status := IncResolved, in_updated_at := later\<rparr>"
    "d = \<lparr>de_incident_id = in_id u, de_status = IncResolved, de_actor = actor, de_decided_at = later\<rparr>" by blast
  let ?s0 = "begin_upsert c now (conc_start new_incident_store empty_tables)"
  have "undisturbed ?s0"
    by (rule undisturbed_first)
  moreover have "cs_tasks ?s0 = [InsertTask i] \<and> cs_gauge ?s0 = 0 \<and>
    is_incidents (cs_mem ?s0) = [in_id i \<mapsto> i] \<and>
    tb_incidents (cs_tables ?s0) = []"
    by (simp add: begin_upsert_def conc_start_def inc_upsert_def new_incident_store_def active_last_def
        lookup_list_def Let_def i(1) empty_tables_def)
  ultimately obtain s1 where s1: "undisturbed s1" "cs_tasks s1 = [InsertTask i]" "cs_gauge s1 = 0"
    "is_incidents (cs_mem s1) = [in_id i \<mapsto> i]" "tb_incidents (cs_tables s1) = []" by blast
  have act: "in_status i = IncActive" "in_id u = in_id i" by (simp_all add: i)
  have "undisturbed (begin_decide (in_id i) IncResolved actor later s1)" by (rule undisturbed_decide [OF s1(1)]) simp
  moreover have "cs_tasks (begin_decide (in_id i) IncResolved actor later s1) = [InsertTask i, DecideTask u d True] \<and>
    cs_gauge (begin_decide (in_id i) IncResolved actor later s1) = 0 \<and>
    is_incidents (cs_mem (begin_decide (in_id i) IncResolved actor later s1)) = [in_id i \<mapsto> u] \<and>
    tb_incidents (cs_tables (begin_decide (in_id i) IncResolved actor later s1)) = []"
    using act s1 by (simp add: begin_decide_def inc_decide_def Let_def i(2,3))
  ultimately obtain s2 where s2: "undisturbed s2" "cs_tasks s2 = [InsertTask i, DecideTask u d True]" "cs_gauge s2 = 0"
    "is_incidents (cs_mem s2) = [in_id i \<mapsto> u]" "tb_incidents (cs_tables s2) = []" by blast
  have "undisturbed (run_task 1 s2)" by (rule undisturbed_task [OF s2(1)]) (simp add: s2)
  moreover have "cs_tasks (run_task 1 s2) = [InsertTask i, GaugeTask (- 1)] \<and> cs_gauge (run_task 1 s2) = 0 \<and>
    cs_mem (run_task 1 s2) = cs_mem s2 \<and> tb_incidents (cs_tables (run_task 1 s2)) = []"
    using s2 by (simp add: run_task_def)
  ultimately obtain s3 where s3: "undisturbed s3" "cs_tasks s3 = [InsertTask i, GaugeTask (- 1)]" "cs_gauge s3 = 0"
    "cs_mem s3 = cs_mem s2" "tb_incidents (cs_tables s3) = []" by blast
  have "undisturbed (run_task 1 s3)" by (rule undisturbed_task [OF s3(1)]) (simp add: s3)
  moreover have "cs_tasks (run_task 1 s3) = [InsertTask i] \<and> cs_gauge (run_task 1 s3) = - 1 \<and>
    cs_mem (run_task 1 s3) = cs_mem s2 \<and> tb_incidents (cs_tables (run_task 1 s3)) = []"
    using s3 by (simp add: run_task_def)
  ultimately obtain s4 where s4: "undisturbed s4" "cs_tasks s4 = [InsertTask i]" "cs_gauge s4 = - 1"
    "cs_mem s4 = cs_mem s2" "tb_incidents (cs_tables s4) = []" by blast
  have "undisturbed (run_task 0 s4)" by (rule undisturbed_task [OF s4(1)]) (simp add: s4)
  moreover have "cs_tasks (run_task 0 s4) = [GaugeTask 1] \<and> cs_mem (run_task 0 s4) = cs_mem s2 \<and>
    tb_incidents (cs_tables (run_task 0 s4)) = [incident_row_of i]"
    using s4 by (simp add: run_task_def)
  ultimately obtain s5 where s5: "undisturbed s5" "cs_tasks s5 = [GaugeTask 1]" "cs_mem s5 = cs_mem s2"
    "tb_incidents (cs_tables s5) = [incident_row_of i]" by blast
  have "undisturbed (run_task 0 s5)" by (rule undisturbed_task [OF s5(1)]) (simp add: s5)
  moreover have "cs_tasks (run_task 0 s5) = [] \<and> cs_mem (run_task 0 s5) = cs_mem s2 \<and>
    tb_incidents (cs_tables (run_task 0 s5)) = [incident_row_of i]"
    using s5 by (simp add: run_task_def)
  ultimately obtain s6 where s6: "undisturbed s6" "cs_tasks s6 = []" "cs_mem s6 = cs_mem s2"
    "tb_incidents (cs_tables s6) = [incident_row_of i]" by blast
  have "is_incidents (cs_mem s6) (in_id u) = Some u" "in_status u = IncResolved"
    "in_occurrence_key u = cd_occurrence_key c" "ir_status (incident_row_of i) = IncActive"
    using s6(3) s2(4) by (simp_all add: i incident_row_of_def)
  with s4(1,3) s6 act(2) show ?thesis unfolding undisturbed_def
    by (intro exI [of _ s4] exI [of _ s6] exI [of _ u] exI [of _ "incident_row_of i"]) simp
qed

section \<open>Concrete input\<close>

text \<open>A process that restored one active incident; the decision that resolves it is refused.\<close>

theorem interleavings_safe_witness:
  "\<exists>m t s d r. conc_reach m t s \<and> cs_tasks s = [] \<and> cs_undone s = [(d, True)] \<and>
     tb_incidents (cs_tables s) = [r] \<and> ir_status r = IncActive \<and>
     cs_gauge s = active_count (cs_mem s) - active_count m + 1 \<and> dom (is_incidents (cs_mem s)) = {ir_id r}"
proof -
  let ?i = "demo_incident 1" and ?m = demo_store1
  let ?t = "fst (stmt_effect (InsertIncident (incident_row_of ?i)) empty_tables)"
  let ?d = "\<lparr>de_incident_id = in_id ?i, de_status = IncResolved, de_actor = ''op'', de_decided_at = demo_time\<rparr>"
  let ?u = "?i\<lparr>in_status := IncResolved, in_updated_at := demo_time\<rparr>"
  have "store_wf ?m" by (rule upsert_wf_count [OF store_wf_new demo_fresh1 demo_upsert1])
  moreover have "mirrors ?t ?m"
    by (rule mirrors_insert [OF mirrors_empty])
      (use inc_upsert_True [OF demo_upsert1] in \<open>simp_all add: new_incident_store_def linked_def inc_history_def\<close>)
  ultimately have "conc_reach ?m ?t (begin_decide (in_id ?i) IncResolved ''op'' demo_time (conc_start ?m ?t))"
    by (intro conc_decide conc_init) simp_all
  moreover have "cs_tasks (begin_decide (in_id ?i) IncResolved ''op'' demo_time (conc_start ?m ?t)) = [DecideTask ?u ?d True] \<and>
      cs_tables (begin_decide (in_id ?i) IncResolved ''op'' demo_time (conc_start ?m ?t)) = ?t \<and>
      cs_lost (begin_decide (in_id ?i) IncResolved ''op'' demo_time (conc_start ?m ?t)) = [] \<and>
      cs_undone (begin_decide (in_id ?i) IncResolved ''op'' demo_time (conc_start ?m ?t)) = []"
    by (simp add: begin_decide_def conc_start_def demo_decide)
  ultimately obtain s where s: "conc_reach ?m ?t s" "cs_tasks s = [DecideTask ?u ?d True]" "cs_tables s = ?t"
    "cs_lost s = []" "cs_undone s = []" by blast
  have r: "conc_reach ?m ?t (fail_task 0 s)" by (rule conc_fail [OF s(1)]) (simp add: s)
  have q: "cs_tasks (fail_task 0 s) = []" "cs_undone (fail_task 0 s) = [(?d, True)]" "cs_lost (fail_task 0 s) = []"
    "tb_incidents (cs_tables (fail_task 0 s)) = [incident_row_of ?i]"
    by (simp_all add: fail_task_def empty_tables_def s)
  note safe = interleavings_safe [OF r, THEN conjunct2, rule_format, OF q(1)]
  have "cs_gauge (fail_task 0 s) = active_count (cs_mem (fail_task 0 s)) - active_count ?m + 1"
    using safe unfolding q by simp
  moreover have "dom (is_incidents (cs_mem (fail_task 0 s))) = {ir_id (incident_row_of ?i)}"
    using safe unfolding q by simp
  moreover have "ir_status (incident_row_of ?i) = IncActive" by (simp add: incident_row_of_def demo_incident_def)
  ultimately show ?thesis using r q(1,2,4) by blast
qed

end
