(* ===== verification/Spec2Isabelle.thy ===== *)
theory Spec2Isabelle
  imports ApiWitnesses SimulatorWitnesses MainWitnesses Concurrency
begin

text \<open>
  VYOMM is a network operations backend in Go: a simulator (or a collector) posts batches of device
  telemetry to an HTTP API, which validates and stores them, looks for threshold anomalies,
  correlates faults into incidents, takes human decisions on them, forecasts the riskiest device
  and retrieves runbooks. This development is a shallow embedding of its Go code with the theorems
  that make it correct.

  The program and its theories, bottom up. A definition has the name of the Go function, in the
  style of this library, unless stated otherwise; Go's receiver is the last argument.

  \<^item> The language: \<open>Prelude\<close> (shared lemmas and rewrite collections), \<open>GoLib\<close> (64-bit wrap-around,
    truncated division, printing and parsing of integers, ASCII case mapping, substring search), \<open>Float64\<close>
    (binary64 with exact rounding on rationals), \<open>StrConv\<close> (\<open>ParseFloat\<close>), \<open>GoTime\<close> (instants in
    nanoseconds, the calendar, RFC 3339), \<open>Sha1\<close>, \<open>JsonCodec\<close> (documents as parsed values).
  \<^item> \<open>Telemetry\<close> (\<open>internal/telemetry/model.go\<close>): samples, provenance values, \<open>Validate\<close>.
  \<^item> \<open>Detection\<close> (\<open>internal/detection/anomaly.go\<close>), \<open>Forecast\<close> (\<open>internal/forecast/forecast.go\<close>) and
    \<open>Correlation\<close> (\<open>internal/incidents/incidents.go\<close>): the three pure analyses of a batch.
  \<^item> \<open>IncidentStore\<close> (\<open>internal/incidents/store.go\<close>): the recurrence-safe store in memory. Its state is
    three maps as in the code; an operation is a function from a state to a state and a result.
  \<^item> \<open>Database\<close> (\<open>migrations/00001_init.sql\<close> and what \<open>database/sql\<close> promises): the tables, the
    statements, and the locale \<open>sql_laws\<close>, the contract of the driver, proved for tables in memory with
    scripted failures. \<open>Persistence\<close> (\<open>internal/persistence/store.go\<close>) is the durable store over
    any driver; \<open>Durability\<close> proves what it guarantees for every driver that keeps the contract, and
    \<open>Lifetimes\<close> what holds over any number of processes on one database.
  \<^item> \<open>Runbooks\<close>, \<open>Config\<close>, \<open>Metrics\<close>: \<open>internal/runbooks\<close>, \<open>internal/config\<close>,
    \<open>internal/observability/metrics\<close>. \<open>Logging\<close> and \<open>Tracing\<close> are \<open>internal/observability/logging\<close> and
    \<open>internal/observability/tracing\<close>.
  \<^item> \<open>Wire\<close> (\<open>internal/api/dto.go\<close>) and \<open>Api\<close> (\<open>server.go\<close>, \<open>handlers.go\<close>): the documents, every handler,
    routing, CORS and the metrics middleware. \<open>ApiProps\<close>, \<open>ServerRuns\<close> and \<open>Endpoints\<close> hold the properties
    of the pipeline (locale \<open>middleware\<close>), of whole runs of requests and of single endpoints. \<open>Spans\<close> has
    the spans and the log lines of the handlers.
  \<^item> \<open>ApiMain\<close> and \<open>ApiProcess\<close> (\<open>cmd/vyomm-api/main.go\<close>): the start of the process and the pruning
    loop; what a start logs, and the running process as a step relation (\<open>main_step\<close>) up to its exit.
  \<^item> \<open>Simulator\<close> (\<open>cmd/vyomm-simulator/main.go\<close>) with its retries, and \<open>SimulatorRuns\<close>: the simulator
    with the modelled server as its HTTP peer.
  \<^item> \<open>Concurrency\<close>: calls of the durable store cut where the code releases its mutex, interleaved.
  \<^item> \<open>ApiWitnesses\<close>, \<open>LifetimeWitnesses\<close>, \<open>SimulatorWitnesses\<close>, \<open>MainWitnesses\<close>: the properties applied to
    concrete inputs.

  How the parts interact. The server (\<open>server\<close>) holds the durable store, the runbook library, the
  configuration and the log of calls on the instruments. A request is \<open>serve\<close>: CORS, then \<open>mux\<close> finds
  the route and \<open>dispatch\<close> its handler, inside \<open>with_metrics\<close>. Telemetry goes through \<open>ingest\<close>,
  \<open>detect\<close> with \<open>record_anomalies\<close>, and \<open>correlate\<close> with \<open>upsert_incident\<close>; a decision goes through
  \<open>decide_incident\<close>. Both durable operations act on memory first and on the tables second, which is
  what \<open>failed_insert_not_retried\<close>, \<open>decide_endpoint\<close> and \<open>decision_overtakes_insert\<close> are about. A restart
  is \<open>new_store\<close>, which rebuilds the memory from the tables. The process (\<open>live\<close>) interleaves requests,
  pruning ticks, the listener and the shutdown; its server is always one of a \<open>server_run\<close>, so what
  holds for runs of requests holds for processes.

  What the groups of lemmas show. The analyses: completeness, equivalence with a decision list,
  bounds and monotonicity on binary64. The incident store: an invariant of every reachable store and
  the recurrence rules. The durable store: atomic batches, exact pruning, tables that mirror the
  memory along every run whose incident statements succeed, and a restart that recovers it. Lifetimes:
  over any number of processes, with stops, crashes and failed statements, every row has the status
  of its newest decision; as long as no process went on after a failed incident statement, the tables
  also keep the numbering, the single active occurrence and the audit trail of every fault, which
  otherwise is false (\<open>lost_insert_repeats_number\<close>). The API: the gauge and the tables track the incidents along
  every run, read-only methods change nothing, the errors of each endpoint, and the spans account
  for the reply. The process: its shutdown is in order, and one that cannot listen waits. Logging: the
  matcher finds exactly the words of the pattern, so no line carries one. Simulator: the generator
  returns because it has full period, a scenario causes exactly its signals and its fault at the API,
  and a batch is stored as often as the server accepted it: once or not at all if no answer is lost,
  more often if one is, since the retry repeats a request that is not idempotent. Concurrency: what
  survives every interleaving and every failing statement, after any restart, and an interleaving
  without failures that leaves memory and tables different.

  Interfaces. \<open>sql_laws\<close> is interpreted by \<open>table_driver\<close> (\<open>Database\<close>); \<open>middleware\<close> by the API's own
  pipeline for read-only requests and for instruments (\<open>ApiProps\<close>) and for the active gauge (\<open>ServerRuns\<close>);
  \<open>reads\<close>, a reader of a set of words, by the classes of the redaction pattern (\<open>Logging\<close>).

  Bounds and fuel. The greedy repetition of the matcher takes the length of the text as fuel, and
  every item it reads is at least one character long (\<open>read_many_complete\<close>). \<open>itoa\<close> writes from the
  back of a buffer of 20 bytes, enough for 19 digits and a sign. The redraw loop of \<open>IntN\<close> has no
  bound in the code and is a partial function here; \<open>int_n_returns\<close> shows that it always returns.
  The retry loop has the three attempts of the code. Scripted failures of the in-memory driver are a
  finite list; when it is used up every statement succeeds.

  Assumptions. Case mapping is ASCII, except for the two letters that fold into ASCII in the
  redaction pattern. Products and sums of floats are rounded separately (no fused operations, as on
  amd64) and the sign of zero is not kept. A JSON object does not repeat a key. An incident identifier
  is not already taken (\<open>fresh_id\<close>, and \<open>fresh_audit\<close> for the audit trail), since it holds only six
  digits of a hash and a number. Of the database only \<open>sql_laws\<close> is assumed, of the clock and of the
  order of a Go map nothing. Between the simulator and the server a request or an answer may be lost
  (\<open>fate\<close>); a lost answer is lost after the handler has returned.

  Not modelled. An instant has no location: a sample's \<open>observed_at\<close> is stored and compared as the same
  instant, but the offset its sender wrote, which \<open>json.Marshal\<close> repeats, is not kept. \<open>mux\<close> starts
  from the segments of a path that is already clean; that \<open>ServeMux\<close> cleans paths and redirects is left
  to the library. The REFERENCES clause of \<open>incident_decisions\<close> is no constraint of the model, as SQLite
  does not enforce it unless told to. The OpenTelemetry SDK, \<open>sql.Open\<close> and goose are third-party code: records of functions
  (\<open>trace_sdk\<close>, \<open>db_opener\<close>) that \<open>tracing_init\<close> and \<open>open_db\<close> call. The Down migration is never run.
  Prometheus is represented by the sequence of calls made on it. \<open>net/http\<close> and \<open>os/signal\<close> appear as the
  steps they may take; requests of one process are serialised in \<open>main_step\<close> and interleaved in
  \<open>Concurrency\<close>. What SQLite does with statements after the store is closed is not distinguished from
  a failing statement. The Python backend is the earlier implementation of the same program; the
  TypeScript dashboard and the deployment files are other programs.
\<close>

end
